(* ===== verification/Prelude.thy ===== *)
theory Prelude
  imports Main "HOL-Library.Word"
begin

text \<open>
  Shared vocabulary of the development: the machine integer types of
  \<^verbatim>\<open>types.h\<close>, the outcomes of kernel code that does not return normally,
  the sequencing combinator for fallible code, and generic facts on lists and words that the
  components use.
\<close>

unbundle bit_operations_syntax

section \<open>Machine integers\<close>

type_synonym uchar = "8 word"
type_synonym ushort = "16 word"
type_synonym uint = "32 word"

section \<open>Outcomes other than a normal return\<close>

text \<open>
  \<open>Panic\<close> is a call of \<^verbatim>\<open>panic\<close> (which never returns), \<open>Spins\<close> a
  busy-wait loop that cannot make progress on this processor, \<open>Sleeps\<close> a call of
  \<^verbatim>\<open>sleep\<close> reached with the process giving up the processor, \<open>Fault\<close> an access
  that the C code makes through a null pointer or outside an array, and \<open>OutOfFuel\<close> a
  loop whose bound was too small.
\<close>

datatype kerror =
    Panic string
  | Spins string
  | Sleeps string
  | Fault string
  | OutOfFuel

definition bindE :: "'e + 'a \<Rightarrow> ('a \<Rightarrow> 'e + 'b) \<Rightarrow> 'e + 'b" where
  "bindE m f = (case m of Inl e \<Rightarrow> Inl e | Inr x \<Rightarrow> f x)"

lemma bindE_Inl [simp]: "bindE (Inl e) f = Inl e"
  by (simp add: bindE_def)

lemma bindE_Inr [simp]: "bindE (Inr x) f = f x"
  by (simp add: bindE_def)

lemma bindE_cong [fundef_cong]:
  "m = m' \<Longrightarrow> (\<And>x. m' = Inr x \<Longrightarrow> f x = g x) \<Longrightarrow> bindE m f = bindE m' g"
  by (cases m') (auto simp: bindE_def)

lemma bindE_eq_Inr: "bindE m f = Inr y \<longleftrightarrow> (\<exists>x. m = Inr x \<and> f x = Inr y)"
  by (cases m) auto

lemma bindE_eq_Inl: "bindE m f = Inl e \<longleftrightarrow> m = Inl e \<or> (\<exists>x. m = Inr x \<and> f x = Inl e)"
  by (cases m) auto

lemma bindE_assoc: "bindE (bindE m f) g = bindE m (\<lambda>x. bindE (f x) g)"
  by (cases m) auto

lemma bindE_InrE:
  assumes "bindE m f = Inr y"
  obtains x where "m = Inr x" and "f x = Inr y"
  using assms by (auto simp: bindE_eq_Inr)

section \<open>Words\<close>

lemma and_not_mask_shift:
  fixes a :: "'a::len word"
  shows "a AND NOT (mask n) = push_bit n (drop_bit n a)"
  by (rule bit_eqI) (auto simp: bit_simps)

lemma take_bit_le_self:
  fixes a :: "'a::len word"
  shows "take_bit n a \<le> a"
  by (simp add: unsigned_take_bit_eq word_le_nat_alt)

lemma unat_and_not_mask:
  fixes a :: "'a::len word"
  shows "unat (a AND NOT (mask n)) = unat a div 2 ^ n * 2 ^ n"
proof -
  have "a = (a AND NOT (mask n)) + take_bit n a"
    by (simp add: and_not_mask_shift bits_ident)
  then have "a AND NOT (mask n) = a - take_bit n a"
    by (simp add: eq_diff_eq)
  then have "unat (a AND NOT (mask n)) = unat a - unat (take_bit n a)"
    by (simp add: unat_sub take_bit_le_self)
  also have "unat (take_bit n a) = unat a mod 2 ^ n"
    by (simp add: unsigned_take_bit_eq, simp add: take_bit_eq_mod)
  finally show ?thesis
    by (simp add: minus_mod_eq_div_mult)
qed

lemma unat_and_mask:
  fixes a :: "'a::len word"
  shows "unat (a AND mask n) = unat a mod 2 ^ n"
  by (simp add: take_bit_eq_mask [symmetric] unsigned_take_bit_eq, simp add: take_bit_eq_mod)

lemma word_eqI_unat: "unat (a::'a::len word) = unat b \<Longrightarrow> a = b"
  by (simp add: word_eq_iff_unsigned [where ?'a = nat])

end
