(* ===== verification/Mmu.thy ===== *)
theory Mmu
  imports Prelude
begin

text \<open>
  The constants and macros of \<^verbatim>\<open>param.h\<close>, \<^verbatim>\<open>memlayout.h\<close> and
  \<^verbatim>\<open>mmu.h\<close>: page rounding, the split of a virtual address into directory index, table
  index and offset, page table entries, and segment and gate descriptors.
\<close>

section \<open>Parameters (param.h)\<close>

abbreviation (input) NPROC :: nat where "NPROC \<equiv> 64"
abbreviation (input) KSTACKSIZE :: uint where "KSTACKSIZE \<equiv> 4096"
abbreviation (input) NCPU :: nat where "NCPU \<equiv> 8"
abbreviation (input) NOFILE :: nat where "NOFILE \<equiv> 16"
abbreviation (input) NFILE :: nat where "NFILE \<equiv> 100"
abbreviation (input) NBUF :: nat where "NBUF \<equiv> 10"
abbreviation (input) NINODE :: nat where "NINODE \<equiv> 50"
abbreviation (input) NDEV :: int where "NDEV \<equiv> 10"
abbreviation (input) ROOTDEV :: uint where "ROOTDEV \<equiv> 1"
abbreviation (input) MAXARG :: nat where "MAXARG \<equiv> 32"
abbreviation (input) LOGSIZE :: nat where "LOGSIZE \<equiv> 10"
abbreviation (input) SHM_CREAT :: int where "SHM_CREAT \<equiv> 20"
abbreviation (input) SHM_GET :: int where "SHM_GET \<equiv> 21"
abbreviation (input) SHM_RDONLY :: int where "SHM_RDONLY \<equiv> 22"
abbreviation (input) SHM_RDWR :: int where "SHM_RDWR \<equiv> 23"
abbreviation (input) numOfSegs :: nat where "numOfSegs \<equiv> 100"

section \<open>Address space layout (memlayout.h)\<close>

abbreviation (input) EXTMEM :: uint where "EXTMEM \<equiv> 0x100000"
abbreviation (input) PHYSTOP :: uint where "PHYSTOP \<equiv> 0xE000000"
abbreviation (input) DEVSPACE :: uint where "DEVSPACE \<equiv> 0xFE000000"
abbreviation (input) KERNBASE :: uint where "KERNBASE \<equiv> 0x80000000"
abbreviation (input) KERNLINK :: uint where "KERNLINK \<equiv> KERNBASE + EXTMEM"

definition v2p :: "uint \<Rightarrow> uint" where
  "v2p a = a - KERNBASE"

definition p2v :: "uint \<Rightarrow> uint" where
  "p2v a = a + KERNBASE"

section \<open>Paging (mmu.h)\<close>

abbreviation (input) NPDENTRIES :: nat where "NPDENTRIES \<equiv> 1024"
abbreviation (input) NPTENTRIES :: uint where "NPTENTRIES \<equiv> 1024"
abbreviation (input) PGSIZE :: uint where "PGSIZE \<equiv> 4096"
abbreviation (input) PTXSHIFT :: nat where "PTXSHIFT \<equiv> 12"
abbreviation (input) PDXSHIFT :: nat where "PDXSHIFT \<equiv> 22"

definition PDX :: "uint \<Rightarrow> uint" where
  "PDX va = drop_bit PDXSHIFT va AND 0x3FF"

definition PTX :: "uint \<Rightarrow> uint" where
  "PTX va = drop_bit PTXSHIFT va AND 0x3FF"

definition PGADDR :: "uint \<Rightarrow> uint \<Rightarrow> uint \<Rightarrow> uint" where
  "PGADDR d t off = push_bit PDXSHIFT d OR push_bit PTXSHIFT t OR off"

definition PGROUNDUP :: "uint \<Rightarrow> uint" where
  "PGROUNDUP sz = (sz + PGSIZE - 1) AND NOT (PGSIZE - 1)"

definition PGROUNDDOWN :: "uint \<Rightarrow> uint" where
  "PGROUNDDOWN a = a AND NOT (PGSIZE - 1)"

abbreviation (input) PTE_P :: uint where "PTE_P \<equiv> 0x001"
abbreviation (input) PTE_W :: uint where "PTE_W \<equiv> 0x002"
abbreviation (input) PTE_U :: uint where "PTE_U \<equiv> 0x004"
abbreviation (input) PTE_PS :: uint where "PTE_PS \<equiv> 0x080"

definition PTE_ADDR :: "uint \<Rightarrow> uint" where
  "PTE_ADDR pte = pte AND NOT 0xFFF"

abbreviation (input) FL_IF :: uint where "FL_IF \<equiv> 0x200"

section \<open>Segment and gate descriptors (mmu.h)\<close>

abbreviation (input) SEG_KCODE :: nat where "SEG_KCODE \<equiv> 1"
abbreviation (input) SEG_KDATA :: nat where "SEG_KDATA \<equiv> 2"
abbreviation (input) SEG_KCPU :: nat where "SEG_KCPU \<equiv> 3"
abbreviation (input) SEG_UCODE :: nat where "SEG_UCODE \<equiv> 4"
abbreviation (input) SEG_UDATA :: nat where "SEG_UDATA \<equiv> 5"
abbreviation (input) SEG_TSS :: nat where "SEG_TSS \<equiv> 6"
abbreviation (input) DPL_USER :: uint where "DPL_USER \<equiv> 3"
abbreviation (input) STA_X :: uint where "STA_X \<equiv> 8"
abbreviation (input) STA_W :: uint where "STA_W \<equiv> 2"
abbreviation (input) STA_R :: uint where "STA_R \<equiv> 2"
abbreviation (input) STS_T32A :: uint where "STS_T32A \<equiv> 9"
abbreviation (input) STS_IG32 :: uint where "STS_IG32 \<equiv> 0xE"
abbreviation (input) STS_TG32 :: uint where "STS_TG32 \<equiv> 0xF"

record segdesc =
  sd_lim_15_0 :: "16 word"
  sd_base_15_0 :: "16 word"
  sd_base_23_16 :: "8 word"
  sd_type :: "4 word"
  sd_s :: "1 word"
  sd_dpl :: "2 word"
  sd_p :: "1 word"
  sd_lim_19_16 :: "4 word"
  sd_avl :: "1 word"
  sd_rsv1 :: "1 word"
  sd_db :: "1 word"
  sd_g :: "1 word"
  sd_base_31_24 :: "8 word"

definition SEG :: "uint \<Rightarrow> uint \<Rightarrow> uint \<Rightarrow> uint \<Rightarrow> segdesc" where
  "SEG typ base lim dpl =
     \<lparr>sd_lim_15_0 = ucast (drop_bit 12 lim AND 0xffff), sd_base_15_0 = ucast (base AND 0xffff),
      sd_base_23_16 = ucast (drop_bit 16 base AND 0xff), sd_type = ucast typ, sd_s = 1,
      sd_dpl = ucast dpl, sd_p = 1, sd_lim_19_16 = ucast (drop_bit 28 lim), sd_avl = 0,
      sd_rsv1 = 0, sd_db = 1, sd_g = 1, sd_base_31_24 = ucast (drop_bit 24 base)\<rparr>"

definition SEG16 :: "uint \<Rightarrow> uint \<Rightarrow> uint \<Rightarrow> uint \<Rightarrow> segdesc" where
  "SEG16 typ base lim dpl =
     \<lparr>sd_lim_15_0 = ucast (lim AND 0xffff), sd_base_15_0 = ucast (base AND 0xffff),
      sd_base_23_16 = ucast (drop_bit 16 base AND 0xff), sd_type = ucast typ, sd_s = 1,
      sd_dpl = ucast dpl, sd_p = 1, sd_lim_19_16 = ucast (drop_bit 16 lim), sd_avl = 0,
      sd_rsv1 = 0, sd_db = 1, sd_g = 0, sd_base_31_24 = ucast (drop_bit 24 base)\<rparr>"

record gatedesc =
  gd_off_15_0 :: "16 word"
  gd_cs :: "16 word"
  gd_args :: "5 word"
  gd_rsv1 :: "3 word"
  gd_type :: "4 word"
  gd_s :: "1 word"
  gd_dpl :: "2 word"
  gd_p :: "1 word"
  gd_off_31_16 :: "16 word"

definition SETGATE :: "bool \<Rightarrow> uint \<Rightarrow> uint \<Rightarrow> uint \<Rightarrow> gatedesc" where
  "SETGATE istrap sel off d =
     \<lparr>gd_off_15_0 = ucast (off AND 0xffff), gd_cs = ucast sel, gd_args = 0, gd_rsv1 = 0,
      gd_type = ucast (if istrap then STS_TG32 else STS_IG32), gd_s = 0, gd_dpl = ucast d,
      gd_p = 1, gd_off_31_16 = ucast (drop_bit 16 off)\<rparr>"

section \<open>Arithmetic of the macros\<close>

lemma mask_12: "(4095::uint) = mask 12" and mask_10: "(1023::uint) = mask 10"
  by (simp_all add: mask_eq_exp_minus_1)

lemma unat_PGROUNDDOWN: "unat (PGROUNDDOWN a) = unat a div 4096 * 4096"
  using unat_and_not_mask [of a 12] by (simp add: PGROUNDDOWN_def mask_12)

lemma unat_PTE_ADDR: "unat (PTE_ADDR a) = unat a div 4096 * 4096"
  using unat_and_not_mask [of a 12] by (simp add: PTE_ADDR_def mask_12)

lemma unat_PGROUNDUP:
  assumes "unat sz + 4095 < 2 ^ 32"
  shows "unat (PGROUNDUP sz) = (unat sz + 4095) div 4096 * 4096"
proof -
  have "unat (sz + 4095) = unat sz + 4095"
    using assms by (subst unat_add_lem [THEN iffD1]) simp_all
  moreover have "PGROUNDUP sz = (sz + 4095) AND NOT (mask 12)"
    by (simp add: PGROUNDUP_def mask_12 [symmetric] add.commute)
  ultimately show ?thesis
    by (simp add: unat_and_not_mask)
qed

lemma unat_PDX: "unat (PDX va) = unat va div 2 ^ 22"
proof -
  have "unat va div 2 ^ 22 < 2 ^ 10"
    using unsigned_less [of va, where ?'a = nat] by (simp add: less_mult_imp_div_less)
  moreover have "unat (drop_bit 22 va) = unat va div 2 ^ 22"
    by (simp only: unat_drop_bit_eq, simp only: drop_bit_eq_div)
  ultimately show ?thesis
    using unat_and_mask [of "drop_bit 22 va" 10]
    by (simp only: PDX_def mask_10) simp
qed

lemma unat_PTX: "unat (PTX va) = unat va div 4096 mod 1024"
proof -
  have "unat (drop_bit 12 va) = unat va div 2 ^ 12"
    by (simp only: unat_drop_bit_eq, simp only: drop_bit_eq_div)
  then show ?thesis
    using unat_and_mask [of "drop_bit 12 va" 10]
    by (simp only: PTX_def mask_10) simp
qed

text \<open>A page-aligned address has no bits below the page size.\<close>

definition aligned :: "uint \<Rightarrow> bool" where
  "aligned a \<longleftrightarrow> a mod PGSIZE = 0"

lemma aligned_unat: "aligned a \<longleftrightarrow> unat a mod 4096 = 0"
  by (simp add: aligned_def word_eq_iff_unsigned [where ?'a = nat] unat_mod_distrib)

lemma aligned_take_bit: "aligned a \<longleftrightarrow> take_bit 12 a = 0"
  by (simp add: aligned_def take_bit_eq_mod)

lemma aligned_bit: "aligned a \<Longrightarrow> n < 12 \<Longrightarrow> \<not> bit a n"
  by (metis aligned_take_bit bit_0_eq bit_take_bit_iff bot_apply bot_bool_def)

lemma aligned_PGROUNDDOWN [simp]: "aligned (PGROUNDDOWN a)"
  by (simp add: aligned_unat unat_PGROUNDDOWN)

lemma aligned_PTE_ADDR [simp]: "aligned (PTE_ADDR a)"
  by (simp add: aligned_unat unat_PTE_ADDR)

lemma aligned_PGROUNDUP [simp]: "aligned (PGROUNDUP a)"
  by (metis PGROUNDDOWN_def PGROUNDUP_def aligned_PGROUNDDOWN)

lemma aligned_add:
  assumes "aligned a" and "aligned b"
  shows "aligned (a + b)"
proof -
  have "(unat a + unat b) mod 4096 = 0"
    using assms mod_add_eq [of "unat a" 4096 "unat b"] by (simp add: aligned_unat)
  then show ?thesis
    by (simp add: aligned_unat unat_word_ariths mod_mod_cancel)
qed

lemma PGROUNDDOWN_aligned: "aligned a \<Longrightarrow> PGROUNDDOWN a = a"
  by (rule word_eqI_unat) (auto simp: unat_PGROUNDDOWN aligned_unat)

lemma PTE_ADDR_aligned: "aligned a \<Longrightarrow> PTE_ADDR a = a"
  by (rule word_eqI_unat) (auto simp: unat_PTE_ADDR aligned_unat)

lemma v2p_p2v [simp]: "v2p (p2v a) = a"
  by (simp add: v2p_def p2v_def)

lemma p2v_v2p [simp]: "p2v (v2p a) = a"
  by (simp add: v2p_def p2v_def)

lemma aligned_p2v [simp]: "aligned (p2v a) = aligned a"
proof -
  have k: "aligned KERNBASE" by (simp add: aligned_def)
  have z: "a + KERNBASE + KERNBASE = a" by (simp add: add.assoc)
  show ?thesis
    using aligned_add [OF _ k, of a] aligned_add [OF _ k, of "a + KERNBASE"]
    unfolding z p2v_def by auto
qed

lemma aligned_v2p [simp]: "aligned (v2p a) = aligned a"
  by (metis aligned_p2v p2v_v2p)

lemma unat_take_bit_12: "unat (take_bit 12 (w::uint)) = unat w mod 4096"
  by (simp add: unsigned_take_bit_eq, simp add: take_bit_eq_mod)

lemma small_iff: "(w::uint) < 4096 \<longleftrightarrow> take_bit 12 w = w"
  by (simp add: word_eq_iff_unsigned [where ?'a = nat] unat_take_bit_12 word_less_nat_alt)
    (metis mod_less mod_less_divisor zero_less_numeral)

lemma or_small:
  fixes v w :: uint
  shows "v < 4096 \<Longrightarrow> w < 4096 \<Longrightarrow> v OR w < 4096"
  by (simp add: small_iff)

lemma small_bit:
  fixes w :: uint
  assumes "w < 4096" and "bit w n"
  shows "n < 12"
  using assms by (metis bit_take_bit_iff small_iff)

lemma PTE_ADDR_or:
  assumes "aligned a" and "w < 4096"
  shows "PTE_ADDR (a OR w) = a"
proof (rule bit_word_eqI)
  fix n
  assume "n < LENGTH(32)"
  then show "bit (PTE_ADDR (a OR w)) n = bit a n"
    using aligned_bit [OF assms(1), of n] small_bit [OF assms(2), of n]
    unfolding PTE_ADDR_def mask_12 by (auto simp: bit_simps)
qed

lemma unat_PDX': "unat (PDX va) = unat va div 4096 div 1024"
  using unat_PDX [of va] by (simp add: div_mult2_eq [symmetric])

lemma page_number: "unat va div 4096 = unat (PDX va) * 1024 + unat (PTX va)"
  unfolding unat_PDX' unat_PTX by (rule div_mult_mod_eq [symmetric])

lemma PDX_PTX_inj:
  assumes "PDX a = PDX b" and "PTX a = PTX b" and "aligned a" and "aligned b"
  shows "a = b"
proof -
  have "unat a div 4096 = unat b div 4096"
    by (simp add: page_number assms(1,2))
  moreover have "unat a = unat a div 4096 * 4096" "unat b = unat b div 4096 * 4096"
    using assms(3,4) by (simp_all add: aligned_unat mod_0_imp_dvd)
  ultimately show ?thesis
    by (metis word_eqI_unat)
qed

section \<open>Properties\<close>

text \<open>
  What the processor reads out of a descriptor: the entry point of a gate, and the base and the
  byte limit of a segment with 4096-byte granularity.
\<close>

definition gate_offset :: "gatedesc \<Rightarrow> uint" where
  "gate_offset g = ucast (gd_off_15_0 g) OR push_bit 16 (ucast (gd_off_31_16 g))"

definition seg_base :: "segdesc \<Rightarrow> uint" where
  "seg_base d = ucast (sd_base_15_0 d) OR push_bit 16 (ucast (sd_base_23_16 d))
     OR push_bit 24 (ucast (sd_base_31_24 d))"

definition seg_limit :: "segdesc \<Rightarrow> uint" where
  "seg_limit d =
     (let l = ucast (sd_lim_15_0 d) OR push_bit 16 (ucast (sd_lim_19_16 d))
      in if sd_g d = 1 then push_bit 12 l OR mask 12 else l)"

lemma mask_16: "(65535::uint) = mask 16" and mask_8: "(255::uint) = mask 8"
  by (simp_all add: mask_eq_exp_minus_1)

lemma base_pieces:
  fixes b :: uint
  shows "(ucast (ucast (b AND mask 16) :: 16 word) OR
    push_bit 16 (ucast (ucast (drop_bit 16 b AND mask 8) :: 8 word)) OR
    push_bit 24 (ucast (ucast (drop_bit 24 b) :: 8 word)) :: uint) = b" (is "?w = b")
proof (rule bit_word_eqI)
  fix n
  assume n: "n < LENGTH(32)"
  consider "n < 16" | k where "n = 16 + k" "k < 8" | k where "n = 24 + k"
    using that(1) that(2) [of "n - 16"] that(3) [of "n - 24"] by linarith
  then show "bit ?w n = bit b n"
    using n by cases (auto simp: bit_simps)
qed

lemma limit_pieces:
  fixes l :: uint
  shows "(push_bit 12 (ucast (ucast (drop_bit 12 l AND mask 16) :: 16 word) OR
    push_bit 16 (ucast (ucast (drop_bit 28 l) :: 4 word))) OR mask 12 :: uint) = l OR mask 12"
    (is "?w = _")
proof (rule bit_word_eqI)
  fix n
  assume n: "n < LENGTH(32)"
  consider "n < 12" | k where "n = 12 + k" "k < 16" | k where "n = 28 + k"
    using that(1) that(2) [of "n - 12"] that(3) [of "n - 28"] by linarith
  then show "bit ?w n = bit (l OR mask 12) n"
    using n by cases (auto simp: bit_simps)
qed


end
