(* ===== verification/Memory.thy ===== *)
theory Memory
  imports Mmu
begin

text \<open>
  Byte-addressed memory and the block routines of \<^verbatim>\<open>string.c\<close>, with the
  string instructions of \<^verbatim>\<open>x86.h\<close> they use. A pointer is a 32-bit word, pointer
  arithmetic wraps. The loops are translated as written; closed forms of what they compute are
  proved afterwards and are what the other components use.
\<close>

type_synonym memory = "uint \<Rightarrow> uchar"

section \<open>Little-endian 32-bit accesses\<close>

definition load32 :: "memory \<Rightarrow> uint \<Rightarrow> uint" where
  "load32 m a = ucast (m a) OR push_bit 8 (ucast (m (a + 1)))
     OR push_bit 16 (ucast (m (a + 2))) OR push_bit 24 (ucast (m (a + 3)))"

definition store32 :: "memory \<Rightarrow> uint \<Rightarrow> uint \<Rightarrow> memory" where
  "store32 m a v = m(a := ucast v, a + 1 := ucast (drop_bit 8 v),
     a + 2 := ucast (drop_bit 16 v), a + 3 := ucast (drop_bit 24 v))"

section \<open>String instructions (x86.h)\<close>

fun rep_stosb :: "memory \<Rightarrow> uint \<Rightarrow> uchar \<Rightarrow> nat \<Rightarrow> memory" where
  "rep_stosb m a c 0 = m"
| "rep_stosb m a c (Suc k) = rep_stosb (m(a := c)) (a + 1) c k"

fun rep_stosl :: "memory \<Rightarrow> uint \<Rightarrow> uint \<Rightarrow> nat \<Rightarrow> memory" where
  "rep_stosl m a v 0 = m"
| "rep_stosl m a v (Suc k) = rep_stosl (store32 m a v) (a + 4) v k"

definition stosb :: "memory \<Rightarrow> uint \<Rightarrow> uint \<Rightarrow> uint \<Rightarrow> memory" where
  "stosb m a data cnt = rep_stosb m a (ucast data) (unat cnt)"

definition stosl :: "memory \<Rightarrow> uint \<Rightarrow> uint \<Rightarrow> uint \<Rightarrow> memory" where
  "stosl m a data cnt = rep_stosl m a data (unat cnt)"

section \<open>Memory routines (string.c)\<close>

definition memset :: "memory \<Rightarrow> uint \<Rightarrow> uint \<Rightarrow> uint \<Rightarrow> memory" where
  "memset m dst c n =
     (if dst mod 4 = 0 \<and> n mod 4 = 0 then
        let c = c AND 0xFF
        in stosl m dst (push_bit 24 c OR push_bit 16 c OR push_bit 8 c OR c) (n div 4)
      else stosb m dst c n)"

fun memcmp_loop :: "memory \<Rightarrow> uint \<Rightarrow> uint \<Rightarrow> nat \<Rightarrow> int" where
  "memcmp_loop m s1 s2 0 = 0"
| "memcmp_loop m s1 s2 (Suc k) =
     (if m s1 \<noteq> m s2 then uint (m s1) - uint (m s2)
      else memcmp_loop m (s1 + 1) (s2 + 1) k)"

definition memcmp :: "memory \<Rightarrow> uint \<Rightarrow> uint \<Rightarrow> uint \<Rightarrow> int" where
  "memcmp m v1 v2 n = memcmp_loop m v1 v2 (unat n)"

fun copy_up :: "memory \<Rightarrow> uint \<Rightarrow> uint \<Rightarrow> nat \<Rightarrow> memory" where
  "copy_up m d s 0 = m"
| "copy_up m d s (Suc k) = copy_up (m(d := m s)) (d + 1) (s + 1) k"

fun copy_down :: "memory \<Rightarrow> uint \<Rightarrow> uint \<Rightarrow> nat \<Rightarrow> memory" where
  "copy_down m d s 0 = m"
| "copy_down m d s (Suc k) = copy_down (m(d - 1 := m (s - 1))) (d - 1) (s - 1) k"

definition memmove :: "memory \<Rightarrow> uint \<Rightarrow> uint \<Rightarrow> uint \<Rightarrow> memory" where
  "memmove m dst src n =
     (if src < dst \<and> src + n > dst then copy_down m (dst + n) (src + n) (unat n)
      else copy_up m dst src (unat n))"

definition memcpy :: "memory \<Rightarrow> uint \<Rightarrow> uint \<Rightarrow> uint \<Rightarrow> memory" where
  "memcpy m dst src n = memmove m dst src n"

section \<open>Closed forms\<close>

text \<open>
  \<open>fill\<close> and \<open>blit\<close> say what filling and copying a block of \<open>n\<close> bytes
  means: byte \<open>x\<close> belongs to the block at \<open>d\<close> exactly when its offset
  \<open>x - d\<close> is below \<open>n\<close>.
\<close>

definition fill :: "memory \<Rightarrow> uint \<Rightarrow> uchar \<Rightarrow> uint \<Rightarrow> memory" where
  "fill m d c n = (\<lambda>x. if x - d < n then c else m x)"

definition blit :: "memory \<Rightarrow> uint \<Rightarrow> uint \<Rightarrow> uint \<Rightarrow> memory" where
  "blit m d s n = (\<lambda>x. if x - d < n then m (s + (x - d)) else m x)"

lemma unat_diff_Suc:
  fixes x a :: uint
  assumes "x \<noteq> a"
  shows "unat (x - a) = Suc (unat (x - (a + 1)))"
proof -
  have nz: "x - a \<noteq> 0" using assms by simp
  have "x - (a + 1) = (x - a) - 1" by simp
  then have "unat (x - (a + 1)) = unat (x - a) - 1"
    using unat_minus_one [OF nz] by (simp only:)
  moreover have "0 < unat (x - a)" using nz by (subst unat_gt_0)
  ultimately show ?thesis by linarith
qed

lemma rep_stosb_apply:
  "k \<le> 2 ^ 32 \<Longrightarrow> rep_stosb m a c k x = (if unat (x - a) < k then c else m x)"
proof (induction k arbitrary: m a)
  case (Suc k)
  show ?case
  proof (cases "x = a")
    case True
    then have "unat (x - (a + 1)) = 2 ^ 32 - 1" by (simp add: unsigned_minus_1_eq_mask mask_eq_exp_minus_1)
    with Suc True show ?thesis by simp
  next
    case False
    with Suc show ?thesis by (simp add: unat_diff_Suc)
  qed
qed simp

lemma stosb_fill: "stosb m a v n = fill m a (ucast v) n"
proof
  fix x
  have "unat n \<le> 2 ^ 32" using unsigned_less [of n, where ?'a = nat] by simp
  then show "stosb m a v n x = fill m a (ucast v) n x"
    by (simp add: stosb_def fill_def rep_stosb_apply word_less_nat_alt)
qed

lemma load32_store32_same [simp]: "load32 (store32 m a v) a = v"
proof (rule bit_word_eqI)
  fix n
  assume "n < LENGTH(32)"
  then consider "n < 8" | "8 \<le> n \<and> n < 16" | "16 \<le> n \<and> n < 24" | "24 \<le> n \<and> n < 32"
    by fastforce
  then show "bit (load32 (store32 m a v) a) n = bit v n"
    by cases (auto simp: load32_def store32_def bit_simps)
qed

lemma less_4_cases: "(k::uint) < 4 \<longleftrightarrow> k = 0 \<or> k = 1 \<or> k = 2 \<or> k = 3"
  by unat_arith

lemma store32_apply:
  "store32 m a v x = (if x - a < 4 then ucast (drop_bit (8 * unat (x - a)) v) else m x)"
proof -
  obtain k where x: "x = a + k" by (metis add_diff_cancel_left' add.commute diff_add_cancel)
  show ?thesis
    by (simp add: x store32_def less_4_cases)
qed

lemma load32_cong:
  "(\<And>i. i < 4 \<Longrightarrow> m (a + i) = m' (a + i)) \<Longrightarrow> load32 m a = load32 m' a"
proof -
  assume *: "\<And>i. i < 4 \<Longrightarrow> m (a + i) = m' (a + i)"
  have "m a = m' a" "m (a + 1) = m' (a + 1)" "m (a + 2) = m' (a + 2)" "m (a + 3) = m' (a + 3)"
    using *[of 0] *[of 1] *[of 2] *[of 3] by simp_all
  then show ?thesis by (simp add: load32_def)
qed

lemma unat_diff_4:
  fixes x a :: uint
  shows "4 \<le> unat (x - a) \<Longrightarrow> unat (x - (a + 4)) = unat (x - a) - 4"
    and "unat (x - a) < 4 \<Longrightarrow> 2 ^ 32 - 4 \<le> unat (x - (a + 4))"
proof -
  have eq: "x - (a + 4) = (x - a) - 4" by simp
  show "4 \<le> unat (x - a) \<Longrightarrow> unat (x - (a + 4)) = unat (x - a) - 4"
    unfolding eq by (subst unat_sub) (simp_all add: word_le_nat_alt)
  show "unat (x - a) < 4 \<Longrightarrow> 2 ^ 32 - 4 \<le> unat (x - (a + 4))"
    unfolding eq by (subst unat_sub_if') auto
qed

lemma rep_stosl_apply:
  assumes v: "\<And>j. j < 4 \<Longrightarrow> ucast (drop_bit (8 * j) v) = c"
  shows "4 * k \<le> 2 ^ 32 \<Longrightarrow> rep_stosl m a v k x = (if unat (x - a) < 4 * k then c else m x)"
proof (induction k arbitrary: m a)
  case (Suc k)
  have head: "store32 m a v x = (if unat (x - a) < 4 then c else m x)"
    using v [of "unat (x - a)"] by (simp add: store32_apply word_less_nat_alt)
  show ?case
  proof (cases "unat (x - a) < 4")
    case True
    with Suc unat_diff_4(2) [OF True] show ?thesis by (simp add: head)
  next
    case False
    with Suc unat_diff_4(1) [of x a] show ?thesis by (auto simp: head)
  qed
qed simp

lemma replicated_byte:
  fixes c :: uint
  assumes "j < 4"
  shows "ucast (drop_bit (8 * j) (push_bit 24 (c AND 0xFF) OR push_bit 16 (c AND 0xFF)
     OR push_bit 8 (c AND 0xFF) OR (c AND 0xFF))) = (ucast c :: uchar)"
proof -
  have m: "(0xFF :: uint) = mask 8" by (simp add: mask_eq_exp_minus_1)
  from assms consider "j = 0" | "j = 1" | "j = 2" | "j = 3" by fastforce
  then show ?thesis
    unfolding m by cases (rule bit_word_eqI, auto simp: bit_simps)+
qed

lemma memset_fill: "memset m d c n = fill m d (ucast c) n"
proof (cases "d mod 4 = 0 \<and> n mod 4 = 0")
  case True
  then have "unat n mod 4 = 0"
    by (auto simp: word_eq_iff_unsigned [where ?'a = nat] unat_mod_distrib)
  then have "4 * unat (n div 4) = unat n"
    by (simp add: unat_div_distrib mod_0_imp_dvd)
  moreover have "unat n \<le> 2 ^ 32" using unsigned_less [of n, where ?'a = nat] by simp
  ultimately have "rep_stosl m d (push_bit 24 (c AND 0xFF) OR push_bit 16 (c AND 0xFF)
      OR push_bit 8 (c AND 0xFF) OR (c AND 0xFF)) (unat (n div 4)) x
    = (if unat (x - d) < unat n then ucast c else m x)" for x
    using rep_stosl_apply [OF replicated_byte, of "unat (n div 4)" m d c x] by (simp only:)
  then show ?thesis
    using True unfolding memset_def stosl_def Let_def fill_def word_less_nat_alt
    by (intro ext) (simp only: simp_thms if_True)
next
  case False
  then show ?thesis by (auto simp: memset_def stosb_fill)
qed

lemma copy_up_apply:
  assumes "unat (d - s) = 0 \<or> k \<le> unat (d - s)" and "k \<le> 2 ^ 32"
  shows "copy_up m d s k x = (if unat (x - d) < k then m (s + (x - d)) else m x)"
  using assms
proof (induction k arbitrary: m d s)
  case (Suc k)
  let ?m = "m(d := m s)"
  have IH: "copy_up ?m (d + 1) (s + 1) k x
      = (if unat (x - (d + 1)) < k then ?m (s + 1 + (x - (d + 1))) else ?m x)"
    using Suc.prems by (intro Suc.IH) auto
  show ?case
  proof (cases "x = d")
    case True
    then have "unat (x - (d + 1)) = 2 ^ 32 - 1"
      by (simp add: unsigned_minus_1_eq_mask mask_eq_exp_minus_1)
    with True Suc.prems IH show ?thesis by simp
  next
    case False
    have src: "?m (s + (x - d)) = m (s + (x - d))" if "unat (x - d) < Suc k"
    proof -
      have "s + (x - d) \<noteq> d"
      proof
        assume eq: "s + (x - d) = d"
        then have "x - d = d - s" by (metis add_diff_cancel_left')
        with that Suc.prems(1) have "unat (d - s) = 0" by simp
        with eq False \<open>x - d = d - s\<close> show False by (simp add: unat_eq_0)
      qed
      then show ?thesis by simp
    qed
    have "s + 1 + (x - (d + 1)) = s + (x - d)" by simp
    with IH src False unat_diff_Suc [OF False] show ?thesis by auto
  qed
qed simp

lemma copy_down_apply:
  assumes "unat (s - d) = 0 \<or> k \<le> unat (s - d)" and "k \<le> 2 ^ 32"
  shows "copy_down m (d + of_nat k) (s + of_nat k) k x
    = (if unat (x - d) < k then m (s + (x - d)) else m x)"
  using assms
proof (induction k arbitrary: m)
  case (Suc k)
  let ?d = "d + of_nat k" and ?s = "s + of_nat k"
  let ?m = "m(?d := m ?s)"
  have IH: "copy_down ?m ?d ?s k x
      = (if unat (x - d) < k then ?m (s + (x - d)) else ?m x)"
    using Suc.prems by (intro Suc.IH) auto
  have step: "copy_down m (d + of_nat (Suc k)) (s + of_nat (Suc k)) (Suc k) x
      = copy_down ?m ?d ?s k x"
    by (simp add: add.assoc [symmetric])
  have k: "unat (of_nat k :: uint) = k"
    using Suc.prems(2) by (simp add: unat_of_nat)
  have here: "x = ?d \<longleftrightarrow> unat (x - d) = k"
    using k by (metis add_diff_cancel_left' diff_add_cancel add.commute word_eqI_unat)
  have src: "?m (s + (x - d)) = m (s + (x - d))" if "unat (x - d) < k"
  proof -
    have "s + (x - d) \<noteq> ?d"
    proof
      assume eq: "s + (x - d) = ?d"
      then have sd: "s - d = of_nat k - (x - d)" by (simp add: algebra_simps)
      have "x - d \<le> of_nat k" using that k by (simp add: word_le_nat_alt)
      from unat_sub [OF this] have "unat (s - d) = k - unat (x - d)"
        by (simp only: sd k)
      with that Suc.prems(1) show False by auto
    qed
    then show ?thesis by simp
  qed
  show ?case
    unfolding step IH using here src by auto
qed simp

lemma memmove_blit:
  assumes "unat src + unat n < 2 ^ 32" and "unat dst + unat n \<le> 2 ^ 32"
  shows "memmove m dst src n = blit m dst src n"
proof
  fix x
  have n: "unat n \<le> 2 ^ 32" using unsigned_less [of n, where ?'a = nat] by simp
  have sn: "unat (src + n) = unat src + unat n"
    using assms(1) by (simp add: unat_word_ariths)
  show "memmove m dst src n x = blit m dst src n x"
  proof (cases "src < dst \<and> src + n > dst")
    case True
    then have "unat n \<le> unat (src - dst)"
      using assms(2) by (subst unat_sub_if') (auto simp: word_less_nat_alt sn)
    with n True copy_down_apply [of src dst "unat n" m x] show ?thesis
      by (simp add: memmove_def blit_def word_less_nat_alt)
  next
    case False
    then have "unat (dst - src) = 0 \<or> unat n \<le> unat (dst - src)"
      using assms by (subst (1 2) unat_sub_if') (auto simp: word_less_nat_alt sn)
    with n False copy_up_apply [of dst src "unat n" m x] show ?thesis
      by (auto simp: memmove_def blit_def word_less_nat_alt)
  qed
qed

section \<open>Framing of 32-bit accesses\<close>

text \<open>Word-aligned 32-bit cells at different addresses do not overlap.\<close>

definition aligned4 :: "uint \<Rightarrow> bool" where
  "aligned4 a \<longleftrightarrow> take_bit 2 a = 0"

lemma aligned4_unat: "aligned4 a \<longleftrightarrow> unat a mod 4 = 0"
proof -
  have "unat (take_bit 2 a) = unat a mod 4"
    by (simp add: unsigned_take_bit_eq, simp add: take_bit_eq_mod)
  then show ?thesis by (simp add: aligned4_def word_eq_iff_unsigned [where ?'a = nat])
qed

lemma unat_add_mod4: "unat ((a::uint) + b) mod 4 = (unat a mod 4 + unat b mod 4) mod 4"
  by (simp add: unat_word_ariths mod_mod_cancel mod_simps)

lemma aligned4_cells_disjoint:
  assumes "aligned4 a" and "aligned4 b" and "a \<noteq> b" and "i < 4" and "j < 4"
  shows "a + i \<noteq> b + j"
proof
  assume eq: "a + i = b + j"
  have "unat (a + i) mod 4 = unat i" "unat (b + j) mod 4 = unat j"
    using assms by (simp_all add: unat_add_mod4 aligned4_unat word_less_nat_alt)
  with eq have "i = j" by (simp add: word_eqI_unat)
  with eq \<open>a \<noteq> b\<close> show False by simp
qed

lemma load32_store32_other:
  assumes "aligned4 a" and "aligned4 b" and "a \<noteq> b"
  shows "load32 (store32 m a v) b = load32 m b"
proof (rule load32_cong)
  fix i :: uint
  assume i: "i < 4"
  have "\<not> b + i - a < 4"
  proof
    assume "b + i - a < 4"
    moreover have "b + i = a + (b + i - a)" by simp
    ultimately show False
      using aligned4_cells_disjoint [of b a i "b + i - a"] assms i by simp
  qed
  then show "store32 m a v (b + i) = m (b + i)" by (simp add: store32_apply)
qed

lemma aligned_aligned4: "aligned a \<Longrightarrow> aligned4 a"
  by (auto simp: aligned4_unat aligned_unat mod_eq_0_iff_dvd intro: dvd_trans)

lemma aligned4_add: "aligned4 a \<Longrightarrow> aligned4 b \<Longrightarrow> aligned4 (a + b)"
  by (simp add: aligned4_unat unat_add_mod4)

lemma aligned4_mult4: "aligned4 (4 * k)"
proof -
  have "take_bit 2 (push_bit 2 k) = 0"
    by (simp add: take_bit_push_bit)
  then show ?thesis by (simp add: aligned4_def push_bit_eq_mult mult.commute)
qed

section \<open>Pages\<close>

text \<open>
  The page of an address is \<open>PGROUNDDOWN\<close> of it. A block operation on one aligned page
  changes only bytes of that page, and an aligned 32-bit cell lies within one page.
\<close>

lemma div_page_iff: "n div 4096 = k \<longleftrightarrow> 4096 * k \<le> n \<and> n < 4096 * k + (4096::nat)"
  by auto

lemma in_page_iff:
  assumes "aligned p"
  shows "x - p < PGSIZE \<longleftrightarrow> PGROUNDDOWN x = p"
proof -
  obtain k where k: "unat p = 4096 * k"
    using assms by (auto simp: aligned_unat mod_eq_0_iff_dvd)
  have "unat p < 2 ^ 32" using unsigned_less [of p, where ?'a = nat] by simp
  then have "k < 2 ^ 20" by (simp add: k)
  have "PGROUNDDOWN x = p \<longleftrightarrow> unat x div 4096 = k"
    by (simp add: word_eq_iff_unsigned [where ?'a = nat] unat_PGROUNDDOWN k)
  also have "\<dots> \<longleftrightarrow> 4096 * k \<le> unat x \<and> unat x < 4096 * k + 4096"
    by (rule div_page_iff)
  also have "\<dots> \<longleftrightarrow> unat (x - p) < 4096"
    using \<open>k < 2 ^ 20\<close> by (subst unat_sub_if') (auto simp: k)
  finally show ?thesis by (simp add: word_less_nat_alt)
qed

lemma fill_page:
  "aligned p \<Longrightarrow> fill m p c PGSIZE x = (if PGROUNDDOWN x = p then c else m x)"
  by (simp add: fill_def in_page_iff)

lemma blit_page:
  "aligned d \<Longrightarrow> blit m d s PGSIZE x = (if PGROUNDDOWN x = d then m (s + (x - d)) else m x)"
  by (simp add: blit_def in_page_iff)

lemma page_of_cell:
  assumes "aligned4 a" and "i < 4"
  shows "PGROUNDDOWN (a + i) = PGROUNDDOWN a"
proof -
  have a: "unat a mod 4 = 0" and i: "unat i < 4"
    using assms by (simp_all add: aligned4_unat word_less_nat_alt)
  have "unat a < 2 ^ 32" using unsigned_less [of a, where ?'a = nat] by simp
  moreover obtain q where q: "unat a = 4 * q" using a by (auto simp: mod_eq_0_iff_dvd)
  ultimately have "q < 2 ^ 30" by simp
  with i q have "unat a + unat i < 2 ^ 32" by simp
  then have "unat (a + i) = unat a + unat i" by (simp add: unat_word_ariths)
  moreover have "(unat a + unat i) div 4096 = unat a div 4096"
  proof -
    have "(4 * q + unat i) div 4096 = (4 * q + unat i) div 4 div 1024"
      by (simp add: div_mult2_eq [symmetric])
    also have "(4 * q + unat i) div 4 = q" using i by simp
    finally show ?thesis by (simp add: q)
  qed
  ultimately show ?thesis
    by (intro word_eqI_unat) (simp add: unat_PGROUNDDOWN)
qed

lemma load32_page_cong:
  assumes "aligned4 a" and "\<And>x. PGROUNDDOWN x = PGROUNDDOWN a \<Longrightarrow> m x = m' x"
  shows "load32 m a = load32 m' a"
  using assms by (intro load32_cong) (simp add: page_of_cell)

lemma store32_page_frame:
  assumes "aligned4 a" and "PGROUNDDOWN x \<noteq> PGROUNDDOWN a"
  shows "store32 m a v x = m x"
proof -
  have "\<not> x - a < 4"
    using assms page_of_cell [of a "x - a"] by auto
  then show ?thesis by (simp add: store32_apply)
qed

lemma load32_zero_page:
  assumes "aligned p" and "PGROUNDDOWN a = p" and "aligned4 a"
  shows "load32 (fill m p 0 PGSIZE) a = 0"
proof -
  have "load32 (fill m p 0 PGSIZE) a = load32 (\<lambda>x. 0) a"
    using assms by (intro load32_page_cong) (simp_all add: fill_page)
  then show ?thesis by (simp add: load32_def)
qed

lemma load32_fill_other:
  assumes "aligned p" and "PGROUNDDOWN a \<noteq> p" and "aligned4 a"
  shows "load32 (fill m p c PGSIZE) a = load32 m a"
  using assms by (intro load32_page_cong) (simp_all add: fill_page)

lemma load32_blit_other:
  assumes "aligned d" and "PGROUNDDOWN a \<noteq> d" and "aligned4 a"
  shows "load32 (blit m d s PGSIZE) a = load32 m a"
  using assms by (intro load32_page_cong) (simp_all add: blit_page)

lemma load32_store32_page:
  assumes "aligned4 a" and "aligned4 b" and "PGROUNDDOWN a \<noteq> PGROUNDDOWN b"
  shows "load32 (store32 m a v) b = load32 m b"
  using assms by (intro load32_store32_other) auto

section \<open>Properties\<close>

text \<open>
  (C17) \<open>memmove\<close> moves the block even when source and destination overlap: every byte of
  the destination gets the byte the source had before the call, and nothing else changes.
\<close>

theorem memmove_correct:
  assumes "unat src + unat n < 2 ^ 32" and "unat dst + unat n \<le> 2 ^ 32"
  shows "(\<forall>i < unat n. memmove m dst src n (dst + of_nat i) = m (src + of_nat i)) \<and>
    (\<forall>x. unat n \<le> unat (x - dst) \<longrightarrow> memmove m dst src n x = m x)"
proof -
  have "of_nat i < n" if "i < unat n" for i
    using that by (simp add: word_less_nat_alt unat_of_nat le_less_trans [OF mod_less_eq_dividend])
  then show ?thesis
    by (auto simp: memmove_blit [OF assms] blit_def word_less_nat_alt)
qed

theorem memmove_correct_witness:
  "memmove (\<lambda>x. ucast x) 5 3 4 8 = 6 \<and> memmove (\<lambda>x. ucast x) 3 5 4 4 = 6 \<and>
   memmove (\<lambda>x. ucast x) 5 3 4 9 = 9"
proof -
  let ?m = "\<lambda>x :: uint. ucast x :: uchar"
  have "memmove ?m 5 3 4 (5 + of_nat 3) = ?m (3 + of_nat 3)"
    by (rule memmove_correct [THEN conjunct1, rule_format]) simp_all
  moreover have "memmove ?m 3 5 4 (3 + of_nat 1) = ?m (5 + of_nat 1)"
    by (rule memmove_correct [THEN conjunct1, rule_format]) simp_all
  moreover have "memmove ?m 5 3 4 9 = ?m 9"
    by (rule memmove_correct [THEN conjunct2, rule_format]) simp_all
  ultimately show ?thesis by simp
qed

text \<open>
  (C27) \<open>memset\<close>, which stores four bytes at a time when address and length allow it, is
  the bytewise fill on both of its branches.
\<close>

theorem memset_bytewise:
  "memset m dst c n = (\<lambda>x. if x - dst < n then ucast c else m x)"
  by (simp add: memset_fill fill_def)

end
