(* ===== verification/Userlib.thy ===== *)
theory Userlib
  imports Memory
begin

text \<open>
  The user-level C library: \<^verbatim>\<open>ulib.c\<close> and \<^verbatim>\<open>printf.c\<close>. A
  NUL-terminated string that is only read is the list of its characters; routines that write
  through pointers work on byte-addressed memory. System calls are arguments: \<open>rd1\<close>
  stands for a one-byte \<^verbatim>\<open>read\<close>, written output is the list of bytes written.
\<close>

section \<open>String routines (ulib.c)\<close>

definition uch :: "char \<Rightarrow> int" where
  "uch c = int (of_char c)"

partial_function (option) strcpy_loop :: "memory \<Rightarrow> uint \<Rightarrow> uint \<Rightarrow> memory option" where
  "strcpy_loop m s t =
     (let m' = m(s := m t) in if m t \<noteq> 0 then strcpy_loop m' (s + 1) (t + 1) else Some m')"

definition strcpy :: "memory \<Rightarrow> uint \<Rightarrow> uint \<Rightarrow> (uint \<times> memory) option" where
  "strcpy m s t = map_option (\<lambda>m'. (s, m')) (strcpy_loop m s t)"

fun strcmp :: "string \<Rightarrow> string \<Rightarrow> int" where
  "strcmp (p # ps) (q # qs) = (if p = q then strcmp ps qs else uch p - uch q)"
| "strcmp (p # ps) [] = uch p - 0"
| "strcmp [] (q # qs) = 0 - uch q"
| "strcmp [] [] = 0"

fun u_strlen :: "string \<Rightarrow> nat" where
  "u_strlen [] = 0"
| "u_strlen (c # s) = Suc (u_strlen s)"

definition u_memset :: "memory \<Rightarrow> uint \<Rightarrow> uint \<Rightarrow> uint \<Rightarrow> memory" where
  "u_memset m dst c n = stosb m dst c n"

text \<open>\<open>strchr\<close> gives the offset of the first occurrence; the NUL never matches.\<close>

fun strchr_from :: "nat \<Rightarrow> string \<Rightarrow> char \<Rightarrow> nat option" where
  "strchr_from i [] c = None"
| "strchr_from i (x # s) c = (if x = c then Some i else strchr_from (Suc i) s c)"

definition strchr :: "string \<Rightarrow> char \<Rightarrow> nat option" where
  "strchr s c = strchr_from 0 s c"

text \<open>
  \<open>gets\<close> reads one byte at a time: \<open>rd1\<close> takes the input state and gives the
  byte read, or nothing at end of input or on an error. The result is what the buffer holds
  before its NUL.
\<close>

function gets_loop :: "('i \<Rightarrow> (char \<times> 'i) option) \<Rightarrow> int \<Rightarrow> int \<Rightarrow> 'i \<Rightarrow> string \<times> 'i" where
  "gets_loop rd1 i mx inp =
     (if i + 1 < mx then
        case rd1 inp of
          None \<Rightarrow> ([], inp)
        | Some (c, inp') \<Rightarrow>
            if c = CHR 0x0A \<or> c = CHR 0x0D then ([c], inp')
            else let (cs, inp'') = gets_loop rd1 (i + 1) mx inp' in (c # cs, inp'')
      else ([], inp))"
  by pat_completeness auto
termination
  by (relation "measure (\<lambda>(rd1, i, mx, inp). nat (mx - i))") auto

declare gets_loop.simps [simp del]

definition gets :: "('i \<Rightarrow> (char \<times> 'i) option) \<Rightarrow> int \<Rightarrow> 'i \<Rightarrow> string \<times> 'i" where
  "gets rd1 mx inp = gets_loop rd1 0 mx inp"

text \<open>\<open>stat\<close> over the three system calls it makes.\<close>

definition u_stat ::
    "(string \<Rightarrow> int \<Rightarrow> 'k \<Rightarrow> int \<times> 'k) \<Rightarrow> (int \<Rightarrow> 'k \<Rightarrow> (int \<times> 'st option) \<times> 'k) \<Rightarrow> (int \<Rightarrow> 'k \<Rightarrow> int \<times> 'k) \<Rightarrow>
     string \<Rightarrow> 'k \<Rightarrow> (int \<times> 'st option) \<times> 'k" where
  "u_stat sys_open sys_fstat sys_close n k =
     (let (fd, k) = sys_open n 0 k
      in if fd < 0 then ((-1, None), k)
         else let (r, k) = sys_fstat fd k; (_, k) = sys_close fd k in (r, k))"

definition is_digit :: "char \<Rightarrow> bool" where
  "is_digit c \<longleftrightarrow> 48 \<le> uch c \<and> uch c \<le> 57"

fun atoi_from :: "uint \<Rightarrow> string \<Rightarrow> uint" where
  "atoi_from n [] = n"
| "atoi_from n (c # s) = (if is_digit c then atoi_from (n * 10 + of_int (uch c) - 48) s else n)"

definition atoi :: "string \<Rightarrow> uint" where
  "atoi s = atoi_from 0 s"

function u_memmove :: "memory \<Rightarrow> uint \<Rightarrow> uint \<Rightarrow> int \<Rightarrow> memory" where
  "u_memmove m dst src n =
     (if n > 0 then u_memmove (m(dst := m src)) (dst + 1) (src + 1) (n - 1) else m)"
  by pat_completeness auto
termination
  by (relation "measure (\<lambda>(m, dst, src, n). nat n)") auto

declare u_memmove.simps [simp del]

section \<open>Formatted output (printf.c)\<close>

definition digits :: string where
  "digits = ''0123456789ABCDEF''"

text \<open>The do-while loop fills a buffer of 16 characters; writing past it is a fault.\<close>

function printint_loop :: "nat \<Rightarrow> uint \<Rightarrow> uint \<Rightarrow> kerror + string" where
  "printint_loop i x b =
     (if i \<ge> 16 then Inl (Fault ''printint: buf'')
      else
        let c = digits ! unat (x mod b);
            x' = x div b
        in if x' \<noteq> 0 then bindE (printint_loop (Suc i) x' b) (\<lambda>cs. Inr (c # cs)) else Inr [c])"
  by pat_completeness auto
termination
  by (relation "measure (\<lambda>(i, x, b). 16 - i)") auto

declare printint_loop.simps [simp del]

definition printint :: "uint \<Rightarrow> uint \<Rightarrow> bool \<Rightarrow> kerror + string" where
  "printint xx b sg =
     (let neg = (sg \<and> sint xx < 0);
          x = (if neg then - xx else xx)
      in bindE (printint_loop 0 x b) (\<lambda>buf.
         if neg then
           if length buf \<ge> 16 then Inl (Fault ''printint: buf'')
           else Inr (rev (buf @ ''-''))
         else Inr (rev buf)))"

text \<open>
  \<open>str_at\<close> gives the string a pointer argument points to. The variable arguments are
  words; fetching one that was not passed is a fault.
\<close>

fun printf_loop :: "(uint \<Rightarrow> string) \<Rightarrow> bool \<Rightarrow> string \<Rightarrow> uint list \<Rightarrow> kerror + string" where
  "printf_loop str_at st [] ap = Inr []"
| "printf_loop str_at st (c # fmt) ap =
     (if \<not> st then
        if c = CHR ''%'' then printf_loop str_at True fmt ap
        else bindE (printf_loop str_at False fmt ap) (\<lambda>r. Inr (c # r))
      else if c = CHR ''d'' then
        case ap of [] \<Rightarrow> Inl (Fault ''printf: arguments'')
        | a # ap' \<Rightarrow> bindE (printint a 10 True) (\<lambda>n. bindE (printf_loop str_at False fmt ap') (\<lambda>r. Inr (n @ r)))
      else if c = CHR ''x'' \<or> c = CHR ''p'' then
        case ap of [] \<Rightarrow> Inl (Fault ''printf: arguments'')
        | a # ap' \<Rightarrow> bindE (printint a 16 False) (\<lambda>n. bindE (printf_loop str_at False fmt ap') (\<lambda>r. Inr (n @ r)))
      else if c = CHR ''s'' then
        case ap of [] \<Rightarrow> Inl (Fault ''printf: arguments'')
        | a # ap' \<Rightarrow>
            let s = (if a = 0 then ''(null)'' else str_at a)
            in bindE (printf_loop str_at False fmt ap') (\<lambda>r. Inr (s @ r))
      else if c = CHR ''c'' then
        case ap of [] \<Rightarrow> Inl (Fault ''printf: arguments'')
        | a # ap' \<Rightarrow> bindE (printf_loop str_at False fmt ap') (\<lambda>r. Inr (char_of (unat a) # r))
      else if c = CHR ''%'' then bindE (printf_loop str_at False fmt ap) (\<lambda>r. Inr (c # r))
      else bindE (printf_loop str_at False fmt ap) (\<lambda>r. Inr (CHR ''%'' # c # r)))"

definition printf :: "(uint \<Rightarrow> string) \<Rightarrow> string \<Rightarrow> uint list \<Rightarrow> kerror + string" where
  "printf str_at fmt ap = printf_loop str_at False fmt ap"

section \<open>Comparison and search\<close>

lemma uch_inj: "uch a = uch b \<longleftrightarrow> a = b"
  by (simp add: uch_def)

lemma uch_pos: "CHR 0x00 \<noteq> c \<Longrightarrow> 0 < uch c"
proof -
  assume "CHR 0x00 \<noteq> c"
  then have "uch c \<noteq> uch (CHR 0x00)" by (simp add: uch_inj)
  then show ?thesis by (simp add: uch_def)
qed

lemma strcmp_zero:
  "CHR 0x00 \<notin> set p \<Longrightarrow> CHR 0x00 \<notin> set q \<Longrightarrow> strcmp p q = 0 \<longleftrightarrow> p = q"
  by (induction p q rule: strcmp.induct) (auto simp: uch_inj dest!: uch_pos)

lemma strcmp_antisym: "strcmp q p = - strcmp p q"
  by (induction p q rule: strcmp.induct) auto

lemma strcmp_neg_lexordp:
  "CHR 0x00 \<notin> set p \<Longrightarrow> CHR 0x00 \<notin> set q \<Longrightarrow>
     strcmp p q < 0 \<longleftrightarrow> (p, q) \<in> lexord {(a, b). uch a < uch b}"
proof (induction p q rule: strcmp.induct)
  case (1 p ps q qs)
  then show ?case by (auto simp: uch_inj [symmetric])
qed (auto dest!: uch_pos)

lemma strchr_from_Some:
  "strchr_from i s c = Some k \<longleftrightarrow> i \<le> k \<and> k - i < length s \<and> s ! (k - i) = c \<and> (\<forall>j<k - i. s ! j \<noteq> c)"
proof (induction s arbitrary: i)
  case (Cons x s)
  show ?case
  proof (cases "x = c")
    case True
    then show ?thesis by (cases "k = i") (auto simp: nth_Cons' split: if_splits)
  next
    case False
    then have "strchr_from i (x # s) c = Some k \<longleftrightarrow> strchr_from (Suc i) s c = Some k" by simp
    also have "\<dots> \<longleftrightarrow> Suc i \<le> k \<and> k - Suc i < length s \<and> s ! (k - Suc i) = c \<and> (\<forall>j<k - Suc i. s ! j \<noteq> c)"
      by (rule Cons.IH)
    also have "\<dots> \<longleftrightarrow> i \<le> k \<and> k - i < length (x # s) \<and> (x # s) ! (k - i) = c \<and> (\<forall>j<k - i. (x # s) ! j \<noteq> c)"
    proof (cases "k - i")
      case 0
      with False show ?thesis by auto
    next
      case (Suc d)
      then have "k - Suc i = d" "Suc i \<le> k" by auto
      with Suc False show ?thesis by (auto simp: nth_Cons split: nat.splits)
    qed
    finally show ?thesis .
  qed
qed auto

section \<open>Printing and reading numbers\<close>

lemma digits_nth: "d < 10 \<Longrightarrow> uch (digits ! d) = 48 + int d"
proof -
  assume "d < 10"
  then have "d \<in> set [0, 1, 2, 3, 4, 5, 6, 7, 8, 9]" by auto
  then show ?thesis by (auto simp: digits_def uch_def)
qed

text \<open>The value of a list of decimal characters, least significant first.\<close>

fun dec_value :: "string \<Rightarrow> nat" where
  "dec_value [] = 0"
| "dec_value (c # cs) = nat (uch c - 48) + 10 * dec_value cs"

lemma printint_loop_ok:
  assumes "unat x < 10 ^ (16 - i)" and "i < 16"
  shows "\<exists>cs. printint_loop i x 10 = Inr cs \<and> dec_value cs = unat x \<and> (\<forall>c\<in>set cs. is_digit c) \<and>
    cs \<noteq> [] \<and> length cs \<le> 16 - i \<and> (last cs = CHR ''0'' \<longrightarrow> unat x = 0) \<and>
    (unat x < 10 ^ n \<longrightarrow> 0 < n \<longrightarrow> length cs \<le> n)"
  using assms
proof (induction i x "10 :: uint" arbitrary: n rule: printint_loop.induct)
  case (1 i x)
  let ?c = "digits ! unat (x mod 10)"
  have m: "unat (x mod 10) = unat x mod 10" and d: "unat (x div 10) = unat x div 10"
    by (simp_all add: unat_mod_distrib unat_div_distrib)
  have c: "uch ?c = 48 + int (unat x mod 10)" using digits_nth [of "unat x mod 10"] by (simp add: m)
  have dig: "is_digit ?c" unfolding is_digit_def c by (simp add: zmod_int)
  show ?case
  proof (cases "x div 10 = 0")
    case True
    then have "unat x div 10 = 0" using d by (metis unsigned_0)
    moreover have "?c = CHR ''0'' \<Longrightarrow> unat x mod 10 = 0" using c by (auto simp: uch_def)
    ultimately show ?thesis
      using True "1.prems" c dig
      by (subst printint_loop.simps) (auto simp: Let_def)
  next
    case False
    then have nz: "0 < unat (x div 10)" by (simp add: unat_gt_0)
    have "unat (x div 10) < 10 ^ (16 - Suc i)"
    proof -
      have "16 - i = Suc (16 - Suc i)" using "1.prems" by simp
      then have "unat x < 10 * 10 ^ (16 - Suc i)" using "1.prems"(1) by simp
      then show ?thesis unfolding d by (simp add: less_mult_imp_div_less mult.commute)
    qed
    moreover have "Suc i < 16"
    proof (rule ccontr)
      assume "\<not> Suc i < 16"
      then have "i = 15" using "1.prems" by simp
      with \<open>unat (x div 10) < _\<close> nz show False by simp
    qed
    moreover have "\<not> 16 \<le> i" using "1.prems" by simp
    ultimately obtain cs where cs: "printint_loop (Suc i) (x div 10) 10 = Inr cs"
        "dec_value cs = unat (x div 10)" "\<forall>c\<in>set cs. is_digit c" "cs \<noteq> []" "length cs \<le> 16 - Suc i"
        "last cs = CHR ''0'' \<longrightarrow> unat (x div 10) = 0"
        "unat (x div 10) < 10 ^ (n - 1) \<longrightarrow> 0 < n - 1 \<longrightarrow> length cs \<le> n - 1"
      using "1.hyps" [of ?c "x div 10" "n - 1"] False by auto
    have "length (?c # cs) \<le> n" if n: "unat x < 10 ^ n" "0 < n"
    proof (cases "n = 1")
      case True
      with n d nz show ?thesis by simp
    next
      case False
      with n have "10 ^ n = 10 * (10::nat) ^ (n - 1)" by (cases n) auto
      with n have "unat (x div 10) < 10 ^ (n - 1)" unfolding d by (simp add: less_mult_imp_div_less mult.commute)
      with cs(7) False n show ?thesis by auto
    qed
    moreover have "dec_value (?c # cs) = unat x" using cs(2) d c by simp
    ultimately show ?thesis
      using cs nz dig \<open>Suc i < 16\<close> False \<open>\<not> 16 \<le> i\<close>
      by (subst printint_loop.simps) (auto simp: Let_def)
  qed
qed

lemma atoi_from_value:
  "\<forall>c\<in>set cs. is_digit c \<Longrightarrow> atoi_from n (rev cs) = n * 10 ^ length cs + of_nat (dec_value cs)"
proof (induction cs arbitrary: n)
  case (Cons c cs)
  have step: "atoi_from n (xs @ [c]) = atoi_from n xs * 10 + of_int (uch c) - 48"
    if "\<forall>c\<in>set xs. is_digit c" for xs n
    using that Cons.prems by (induction xs arbitrary: n) auto
  have "of_int (uch c) - 48 = (of_nat (nat (uch c - 48)) :: uint)"
    using Cons.prems by (simp add: is_digit_def of_nat_nat)
  then show ?case
    using Cons step [of "rev cs"] by (simp add: algebra_simps)
qed simp

section \<open>Properties\<close>


text \<open>
  (C31) \<open>strcmp\<close> is zero exactly on equal strings, antisymmetric, and negative exactly when
  the first string precedes the second in the lexicographic order of unsigned characters.
\<close>

theorem strcmp_orders:
  assumes "CHR 0x00 \<notin> set p" and "CHR 0x00 \<notin> set q"
  shows "(strcmp p q = 0 \<longleftrightarrow> p = q) \<and> strcmp q p = - strcmp p q \<and>
    (strcmp p q < 0 \<longleftrightarrow> (p, q) \<in> lexord {(a, b). uch a < uch b})"
  using strcmp_zero [OF assms] strcmp_antisym strcmp_neg_lexordp [OF assms] by blast

theorem strcmp_orders_witness:
  "strcmp ''abc'' ''abd'' < 0 \<and> (strcmp ''ls'' ''ls'' = 0)"
  using strcmp_orders [of "''abc''" "''abd''"] strcmp_orders [of "''ls''" "''ls''"]
  by (simp add: uch_def)

end
