(* ===== verification/Textutils.thy ===== *)
theory Textutils
  imports Userlib
begin

text \<open>
  The text tools \<^verbatim>\<open>grep.c\<close>, \<^verbatim>\<open>wc.c\<close>, \<^verbatim>\<open>cat.c\<close> and the name
  formatting of \<^verbatim>\<open>ls.c\<close>. Input is the list of the byte strings that the successive
  \<^verbatim>\<open>read\<close> calls may deliver; a call gives at most as many bytes as it asks for.
\<close>

abbreviation (input) NUL :: char where "NUL \<equiv> CHR 0x00"
abbreviation (input) NL :: char where "NL \<equiv> CHR 0x0A"

fun u_read :: "nat \<Rightarrow> string list \<Rightarrow> string \<times> string list" where
  "u_read n [] = ([], [])"
| "u_read n (c # cs) = (if length c \<le> n then (c, cs) else (take n c, drop n c # cs))"

section \<open>The matcher (grep.c)\<close>

function matchhere :: "string \<Rightarrow> string \<Rightarrow> bool"
  and matchstar :: "char \<Rightarrow> string \<Rightarrow> string \<Rightarrow> bool" where
  "matchhere re text =
     (case re of
        [] \<Rightarrow> True
      | c # re1 \<Rightarrow>
          if re1 \<noteq> [] \<and> hd re1 = CHR ''*'' then matchstar c (tl re1) text
          else if c = CHR ''$'' \<and> re1 = [] then text = []
          else
            (case text of
               [] \<Rightarrow> False
             | t # text' \<Rightarrow> if c = CHR ''.'' \<or> c = t then matchhere re1 text' else False))"
| "matchstar c re text =
     (if matchhere re text then True
      else
        (case text of
           [] \<Rightarrow> False
         | t # text' \<Rightarrow> if t = c \<or> c = CHR ''.'' then matchstar c re text' else False))"
  by pat_completeness auto
termination
proof (relation "measures [\<lambda>x. case x of Inl (re, t) \<Rightarrow> length re | Inr (c, re, t) \<Rightarrow> length re,
    \<lambda>x. case x of Inl (re, t) \<Rightarrow> length t | Inr (c, re, t) \<Rightarrow> length t,
    \<lambda>x. case x of Inl _ \<Rightarrow> 0 | Inr _ \<Rightarrow> 1]")
qed auto

declare matchhere.simps [simp del] matchstar.simps [simp del]

fun match_from :: "string \<Rightarrow> string \<Rightarrow> bool" where
  "match_from re [] = matchhere re []"
| "match_from re (c # text) = (if matchhere re (c # text) then True else match_from re text)"

definition match :: "string \<Rightarrow> string \<Rightarrow> bool" where
  "match re text =
     (case re of
        c # re1 \<Rightarrow> if c = CHR ''^'' then matchhere re1 text else match_from re text
      | [] \<Rightarrow> match_from re text)"

section \<open>The line loop (grep.c)\<close>

text \<open>
  \<open>strchr\<close> from offset \<open>p\<close> of the buffer stops at the character or at a NUL;
  a scan that meets neither leaves the array.
\<close>

definition buf_strchr :: "string \<Rightarrow> nat \<Rightarrow> kerror + nat option" where
  "buf_strchr buf p =
     (let rest = drop p buf;
          k = length (takeWhile (\<lambda>c. c \<noteq> NL \<and> c \<noteq> NUL) rest)
      in if k = length rest then Inl (Fault ''grep: buf'')
         else if rest ! k = NL then Inr (Some (p + k)) else Inr None)"

lemma buf_strchr_bound: "buf_strchr buf p = Inr (Some q) \<Longrightarrow> p \<le> q \<and> q < length buf"
proof -
  assume a: "buf_strchr buf p = Inr (Some q)"
  let ?k = "length (takeWhile (\<lambda>c. c \<noteq> NL \<and> c \<noteq> NUL) (drop p buf))"
  from a have "q = p + ?k" "?k \<noteq> length (drop p buf)"
    by (auto simp: buf_strchr_def Let_def split: if_splits)
  moreover have "?k \<le> length (drop p buf)" by (rule length_takeWhile_le)
  ultimately show ?thesis by auto
qed

definition cstr_at :: "string \<Rightarrow> nat \<Rightarrow> string" where
  "cstr_at buf p = takeWhile (\<lambda>c. c \<noteq> NUL) (drop p buf)"

function grep_lines :: "string \<Rightarrow> nat \<Rightarrow> string \<Rightarrow> string \<Rightarrow> kerror + (nat \<times> string \<times> string)" where
  "grep_lines pattern p buf out =
     bindE (buf_strchr buf p) (\<lambda>r.
     case r of
       None \<Rightarrow> Inr (p, buf, out)
     | Some q \<Rightarrow>
         let buf = buf[q := NUL]
         in if match pattern (cstr_at buf p)
            then let buf = buf[q := NL]
                 in grep_lines pattern (q + 1) buf (out @ take (q + 1 - p) (drop p buf))
            else grep_lines pattern (q + 1) buf out)"
  by pat_completeness auto
termination
  by (relation "measure (\<lambda>(pattern, p, buf, out). length buf - p)") (auto dest: buf_strchr_bound)

declare grep_lines.simps [simp del]

lemma u_read_shorter:
  "u_read n inp = (c, inp') \<Longrightarrow> c \<noteq> [] \<Longrightarrow> sum_list (map length inp') < sum_list (map length inp)"
  by (cases inp) (auto split: if_splits)

text \<open>Writing the bytes just read at \<open>buf + m\<close>, and moving \<open>m\<close> bytes down to the front.\<close>

definition buf_write :: "string \<Rightarrow> nat \<Rightarrow> string \<Rightarrow> string" where
  "buf_write buf m c = take m buf @ c @ drop (m + length c) buf"

function grep_loop :: "string \<Rightarrow> nat \<Rightarrow> string \<Rightarrow> string \<Rightarrow> string list \<Rightarrow> kerror + string" where
  "grep_loop pattern m buf out inp =
     (let (c, inp') = u_read (1024 - m) inp
      in if c = [] then Inr out
         else
           let m = m + length c;
               buf = buf_write buf (m - length c) c
           in bindE (grep_lines pattern 0 buf out) (\<lambda>(p, buf, out).
              let m = (if p = 0 then 0 else m);
                  (m, buf) = (if m > 0 then (m - p, take (m - p) (drop p buf) @ drop (m - p) buf) else (m, buf))
              in grep_loop pattern m buf out inp'))"
  by pat_completeness auto
termination
  by (relation "measure (\<lambda>(pattern, m, buf, out, inp). sum_list (map length inp))")
    (auto dest!: u_read_shorter [OF sym])

declare grep_loop.simps [simp del]

definition grep :: "string \<Rightarrow> string list \<Rightarrow> kerror + string" where
  "grep pattern inp = grep_loop pattern 0 (replicate 1024 NUL) [] inp"

section \<open>Counting and copying (wc.c, cat.c, ls.c)\<close>

record counts =
  wc_l :: int
  wc_w :: int
  wc_c :: int
  wc_inword :: bool

definition wc_char :: "char \<Rightarrow> counts \<Rightarrow> counts" where
  "wc_char b s =
     (let s = s\<lparr>wc_c := wc_c s + 1\<rparr>;
          s = (if b = NL then s\<lparr>wc_l := wc_l s + 1\<rparr> else s)
      in if strchr [CHR '' '', CHR 0x0D, CHR 0x09, CHR 0x0A, CHR 0x0B] b \<noteq> None then s\<lparr>wc_inword := False\<rparr>
         else if \<not> wc_inword s then s\<lparr>wc_w := wc_w s + 1, wc_inword := True\<rparr>
         else s)"

function wc_loop :: "counts \<Rightarrow> string list \<Rightarrow> counts" where
  "wc_loop s inp =
     (let (c, inp') = u_read 512 inp
      in if c = [] then s else wc_loop (fold wc_char c s) inp')"
  by pat_completeness auto
termination
  by (relation "measure (\<lambda>(s, inp). sum_list (map length inp))") (auto dest!: u_read_shorter [OF sym])

declare wc_loop.simps [simp del]

definition wc :: "string list \<Rightarrow> int \<times> int \<times> int" where
  "wc inp =
     (let s = wc_loop \<lparr>wc_l = 0, wc_w = 0, wc_c = 0, wc_inword = False\<rparr> inp
      in (wc_l s, wc_w s, wc_c s))"

function cat_loop :: "string \<Rightarrow> string list \<Rightarrow> string" where
  "cat_loop out inp = (let (c, inp') = u_read 512 inp in if c = [] then out else cat_loop (out @ c) inp')"
  by pat_completeness auto
termination
  by (relation "measure (\<lambda>(out, inp). sum_list (map length inp))") (auto dest!: u_read_shorter [OF sym])

declare cat_loop.simps [simp del]

definition cat :: "string list \<Rightarrow> string" where
  "cat inp = cat_loop [] inp"

definition fmtname :: "string \<Rightarrow> string" where
  "fmtname path =
     (let p = rev (takeWhile (\<lambda>c. c \<noteq> CHR ''/'') (rev path))
      in if length p \<ge> 14 then p else p @ replicate (14 - length p) CHR '' '')"

section \<open>The language of a pattern\<close>

text \<open>
  A pattern as a list of items: one character of a class, any number of characters of a class, or
  the end of the line.
\<close>

datatype item = One "char set" | Many "char set" | End_Of_Line

definition char_class :: "char \<Rightarrow> char set" where
  "char_class c = (if c = CHR ''.'' then UNIV else {c})"

function parse_re :: "string \<Rightarrow> item list" where
  "parse_re re =
     (case re of
        [] \<Rightarrow> []
      | c # re1 \<Rightarrow>
          if re1 \<noteq> [] \<and> hd re1 = CHR ''*'' then Many (char_class c) # parse_re (tl re1)
          else if c = CHR ''$'' \<and> re1 = [] then [End_Of_Line]
          else One (char_class c) # parse_re re1)"
  by pat_completeness auto
termination
  by (relation "measure length") auto

declare parse_re.simps [simp del]

text \<open>\<open>items is w v\<close>: the items match the word \<open>w\<close> when \<open>v\<close> follows it.\<close>

fun items :: "item list \<Rightarrow> string \<Rightarrow> string \<Rightarrow> bool" where
  "items [] w v \<longleftrightarrow> w = []"
| "items (One A # is) w v \<longleftrightarrow> (\<exists>a w'. a \<in> A \<and> w = a # w' \<and> items is w' v)"
| "items (Many A # is) w v \<longleftrightarrow> (\<exists>u w'. set u \<subseteq> A \<and> w = u @ w' \<and> items is w' v)"
| "items (End_Of_Line # is) w v \<longleftrightarrow> w = [] \<and> v = [] \<and> items is w v"

lemma ex_split_Cons:
  "(\<exists>u v. x # xs = u @ v \<and> P u v) \<longleftrightarrow> P [] (x # xs) \<or> (\<exists>u v. xs = u @ v \<and> P (x # u) v)"
  by (auto simp: Cons_eq_append_conv)

lemma item_cases:
  "parse_re [] = []"
  "parse_re [c] = (if c = CHR ''$'' then [End_Of_Line] else [One (char_class c)])"
  "parse_re (c # CHR ''*'' # re) = Many (char_class c) # parse_re re"
  "d \<noteq> CHR ''*'' \<Longrightarrow> parse_re (c # d # re) = One (char_class c) # parse_re (d # re)"
  by (simp_all add: parse_re.simps)

lemma matchstar_iff:
  assumes "\<And>t. matchhere re t \<longleftrightarrow> (\<exists>w v. t = w @ v \<and> items (parse_re re) w v)"
  shows "matchstar c re text \<longleftrightarrow> (\<exists>w v. text = w @ v \<and> items (Many (char_class c) # parse_re re) w v)"
proof -
  have star: "matchstar c re text \<longleftrightarrow> (\<exists>u t. text = u @ t \<and> set u \<subseteq> char_class c \<and> matchhere re t)"
  proof (induction "text")
    case Nil
    then show ?case by (subst matchstar.simps) auto
  next
    case (Cons t text')
    have "(\<exists>u v. t # text' = u @ v \<and> set u \<subseteq> char_class c \<and> matchhere re v) \<longleftrightarrow>
        matchhere re (t # text') \<or>
        t \<in> char_class c \<and> (\<exists>u v. text' = u @ v \<and> set u \<subseteq> char_class c \<and> matchhere re v)"
      by (subst ex_split_Cons) auto
    with Cons show ?case by (subst matchstar.simps) (auto simp: char_class_def)
  qed
  show ?thesis
  proof
    assume "matchstar c re text"
    then obtain u w v where "text = (u @ w) @ v" "set u \<subseteq> char_class c" "items (parse_re re) w v"
      by (auto simp: star assms)
    then show "\<exists>w v. text = w @ v \<and> items (Many (char_class c) # parse_re re) w v"
      by (intro exI [of _ "u @ w"] exI [of _ v]) auto
  next
    assume "\<exists>w v. text = w @ v \<and> items (Many (char_class c) # parse_re re) w v"
    then obtain u w v where "text = u @ (w @ v)" "set u \<subseteq> char_class c" "items (parse_re re) w v"
      by auto
    then show "matchstar c re text" unfolding star assms by blast
  qed
qed

lemma matchhere_iff:
  "matchhere re text \<longleftrightarrow> (\<exists>w v. text = w @ v \<and> items (parse_re re) w v)"
proof (induction "length re" arbitrary: re "text" rule: less_induct)
  case less
  show ?case
  proof (cases re)
    case Nil
    then show ?thesis by (simp add: matchhere.simps item_cases)
  next
    case (Cons c re1)
    show ?thesis
    proof (cases "re1 \<noteq> [] \<and> hd re1 = CHR ''*''")
      case True
      then obtain re2 where re: "re = c # CHR ''*'' # re2" using Cons by (cases re1) auto
      then have "matchhere re text = matchstar c re2 text" by (simp add: matchhere.simps)
      moreover have "\<And>t. matchhere re2 t \<longleftrightarrow> (\<exists>w v. t = w @ v \<and> items (parse_re re2) w v)"
        using less re by simp
      ultimately show ?thesis using matchstar_iff [of re2 c "text"] by (simp add: re item_cases)
    next
      case nostar: False
      show ?thesis
      proof (cases "c = CHR ''$'' \<and> re1 = []")
        case True
        with Cons show ?thesis by (simp add: matchhere.simps item_cases)
      next
        case False
        have p: "parse_re re = One (char_class c) # parse_re re1"
          using False nostar Cons by (cases re1) (auto simp: item_cases)
        have IH: "matchhere re1 t \<longleftrightarrow> (\<exists>w v. t = w @ v \<and> items (parse_re re1) w v)" for t
          using less Cons by simp
        show ?thesis
        proof (cases "text")
          case Nil
          with False nostar Cons show ?thesis unfolding p by (subst matchhere.simps) auto
        next
          case (Cons t text')
          have m: "matchhere re text \<longleftrightarrow> t \<in> char_class c \<and> matchhere re1 text'"
            using False nostar Cons \<open>re = c # re1\<close> by (subst matchhere.simps) (auto simp: char_class_def)
          show ?thesis
            using m unfolding IH p Cons ex_split_Cons by auto
        qed
      qed
    qed
  qed
qed

lemma match_from_iff: "match_from re text \<longleftrightarrow> (\<exists>u t. text = u @ t \<and> matchhere re t)"
  by (induction "text") (auto simp: Cons_eq_append_conv)

section \<open>Lines through the buffer\<close>

definition plain_line :: "string \<Rightarrow> bool" where
  "plain_line l \<longleftrightarrow> NL \<notin> set l \<and> NUL \<notin> set l"

definition unlines :: "string list \<Rightarrow> string" where
  "unlines ls = concat (map (\<lambda>l. l @ [NL]) ls)"

lemma takeWhile_line: "plain_line l \<Longrightarrow> takeWhile (\<lambda>c. c \<noteq> NL \<and> c \<noteq> NUL) (l @ NL # r) = l"
  and takeWhile_line': "plain_line l \<Longrightarrow> takeWhile (\<lambda>c. c \<noteq> NUL) (l @ NUL # r) = l"
  by (induction l) (auto simp: plain_line_def)

lemma grep_lines_step:
  assumes "plain_line l"
  shows "grep_lines re (length pre) (pre @ l @ NL # r) out =
    grep_lines re (length (pre @ l @ [NL]))
      (pre @ l @ (if match re l then NL else NUL) # r) (if match re l then out @ l @ [NL] else out)"
proof -
  let ?buf = "pre @ l @ NL # r"
  have s: "buf_strchr ?buf (length pre) = Inr (Some (length pre + length l))"
    by (simp add: buf_strchr_def takeWhile_line [OF assms])
  have u: "?buf[length pre + length l := c] = pre @ l @ c # r" for c
    by (simp add: list_update_append)
  have u': "(pre @ l @ NUL # r)[length pre + length l := c] = pre @ l @ c # r" for c
    by (simp add: list_update_append)
  have c: "cstr_at (pre @ l @ NUL # r) (length pre) = l"
    by (simp add: cstr_at_def takeWhile_line' [OF assms])
  show ?thesis
    by (subst grep_lines.simps) (simp add: s u u' c Let_def)
qed

lemma grep_lines_all:
  assumes "\<forall>l\<in>set ls. plain_line l"
  shows "\<exists>pre'. length pre' = length pre + length (unlines ls) \<and>
    grep_lines re (length pre) (pre @ unlines ls @ NUL # z) out =
      Inr (length pre', pre' @ NUL # z, out @ unlines (filter (match re) ls))"
  using assms
proof (induction ls arbitrary: pre out)
  case Nil
  have "buf_strchr (pre @ NUL # z) (length pre) = Inr None"
    by (simp add: buf_strchr_def)
  then show ?case by (subst grep_lines.simps) (simp add: unlines_def)
next
  case (Cons l ls)
  let ?pre = "pre @ l @ [if match re l then NL else NUL]"
  let ?out = "if match re l then out @ l @ [NL] else out"
  have l: "plain_line l" using Cons.prems by simp
  have "grep_lines re (length pre) (pre @ unlines (l # ls) @ NUL # z) out =
      grep_lines re (length ?pre) (?pre @ unlines ls @ NUL # z) ?out"
    using grep_lines_step [OF l, of re pre "unlines ls @ NUL # z" out] by (simp add: unlines_def)
  moreover obtain pre' where "length pre' = length ?pre + length (unlines ls)"
    "grep_lines re (length ?pre) (?pre @ unlines ls @ NUL # z) ?out =
      Inr (length pre', pre' @ NUL # z, ?out @ unlines (filter (match re) ls))"
    using Cons.IH [of ?pre ?out] Cons.prems by auto
  ultimately show ?case by (intro exI [of _ pre']) (simp add: unlines_def)
qed

section \<open>Properties\<close>

text \<open>
  (C14) The backtracking matcher decides the language of the pattern: it accepts a line exactly
  when some part of it (the beginning, for a pattern that starts with a caret) is a word that the
  pattern's items match.
\<close>

theorem match_correct:
  "match re text \<longleftrightarrow>
     (if re \<noteq> [] \<and> hd re = CHR ''^''
      then \<exists>w v. text = w @ v \<and> items (parse_re (tl re)) w v
      else \<exists>u w v. text = u @ w @ v \<and> items (parse_re re) w v)"
  by (cases re) (auto simp: match_def matchhere_iff match_from_iff)



end
