(* ===== verification/Sh.thy ===== *)
theory Sh
  imports Textutils
begin

text \<open>
  The shell, \<^verbatim>\<open>sh.c\<close>: the tokenizer, the recursive-descent parser with its in-place
  NUL termination of words, and the tree of system calls that running a command makes. A pointer
  into the command line is an offset into \<open>buf\<close>; the end of the string is
  \<open>length buf\<close>, where the C code reads a NUL.
\<close>

section \<open>Commands\<close>

text \<open>A word is the pair of the pointers to its first character and past its last one.\<close>

type_synonym word_ref = "nat \<times> nat"

datatype cmd =
    ExecCmd "word_ref list"
  | RedirCmd cmd word_ref int int
  | PipeCmd cmd cmd
  | ListCmd cmd cmd
  | BackCmd cmd

abbreviation (input) O_RDONLY :: int where "O_RDONLY \<equiv> 0"
abbreviation (input) O_WRONLY :: int where "O_WRONLY \<equiv> 1"
abbreviation (input) O_RDWR :: int where "O_RDWR \<equiv> 2"
abbreviation (input) O_CREATE :: int where "O_CREATE \<equiv> 0x200"
abbreviation (input) MAXARGS :: nat where "MAXARGS \<equiv> 10"

section \<open>Tokens\<close>

definition whitespace :: string where
  "whitespace = [CHR '' '', CHR 0x09, CHR 0x0D, CHR 0x0A, CHR 0x0B]"

definition symbols :: string where
  "symbols = ''<|>&;()''"

definition sh_chr :: "string \<Rightarrow> nat \<Rightarrow> char" where
  "sh_chr buf s = (if s < length buf then buf ! s else NUL)"

definition skip_while :: "(char \<Rightarrow> bool) \<Rightarrow> string \<Rightarrow> nat \<Rightarrow> nat" where
  "skip_while p buf s = s + length (takeWhile p (drop s buf))"

definition is_space :: "char \<Rightarrow> bool" where
  "is_space c \<longleftrightarrow> strchr whitespace c \<noteq> None"

definition is_symbol :: "char \<Rightarrow> bool" where
  "is_symbol c \<longleftrightarrow> strchr symbols c \<noteq> None"

text \<open>The token code, the word found, and the position after it and the blanks that follow.\<close>

definition gettoken :: "string \<Rightarrow> nat \<Rightarrow> char \<times> word_ref \<times> nat" where
  "gettoken buf s =
     (let s = skip_while is_space buf s;
          q = s;
          c = sh_chr buf s;
          (ret, s) =
            (if c = NUL then (c, s)
             else if c \<in> {CHR ''|'', CHR ''('', CHR '')'', CHR '';'', CHR ''&'', CHR ''<''} then (c, s + 1)
             else if c = CHR ''>'' then
               if sh_chr buf (s + 1) = CHR ''>'' then (CHR ''+'', s + 2) else (c, s + 1)
             else (CHR ''a'', skip_while (\<lambda>c. \<not> is_space c \<and> \<not> is_symbol c) buf s));
          eq = s
      in (ret, (q, eq), skip_while is_space buf s))"

definition peek :: "string \<Rightarrow> nat \<Rightarrow> string \<Rightarrow> bool \<times> nat" where
  "peek buf s toks =
     (let s = skip_while is_space buf s
      in (sh_chr buf s \<noteq> NUL \<and> strchr toks (sh_chr buf s) \<noteq> None, s))"

section \<open>The parser\<close>

text \<open>
  \<open>parseredirs\<close> wraps redirections around the command under construction; since
  \<open>parseexec\<close> still fills that command's argument vector, the redirections are returned
  as a list and applied by \<open>redircmd\<close> in the order they were read.
\<close>

text \<open>Fuel for a loop that consumes a token in every round.\<close>

definition scan_fuel :: "string \<Rightarrow> nat" where
  "scan_fuel buf = Suc (length buf)"

type_synonym redirection = "word_ref \<times> int \<times> int"

definition redircmd :: "cmd \<Rightarrow> redirection \<Rightarrow> cmd" where
  "redircmd c r = (case r of (w, mode, fd) \<Rightarrow> RedirCmd c w mode fd)"

fun parseredirs :: "nat \<Rightarrow> string \<Rightarrow> nat \<Rightarrow> kerror + (redirection list \<times> nat)" where
  "parseredirs 0 buf s = Inl OutOfFuel"
| "parseredirs (Suc n) buf s =
     (let (b, s) = peek buf s ''<>''
      in if \<not> b then Inr ([], s)
         else
           let (tok, _, s) = gettoken buf s;
               (tok2, w, s) = gettoken buf s
           in if tok2 \<noteq> CHR ''a'' then Inl (Panic ''missing file for redirection'')
              else
                let rs = (if tok = CHR ''<'' then [(w, O_RDONLY, 0)]
                          else if tok = CHR ''>'' then [(w, O_WRONLY + O_CREATE, 1)]
                          else if tok = CHR ''+'' then [(w, O_WRONLY + O_CREATE, 1)] else [])
                in bindE (parseredirs n buf s) (\<lambda>(rs', s). Inr (rs @ rs', s)))"

text \<open>The loop of \<open>parseexec\<close> over the remaining words, with the arguments so far.\<close>

fun parseexec_args ::
    "nat \<Rightarrow> string \<Rightarrow> nat \<Rightarrow> word_ref list \<Rightarrow> redirection list \<Rightarrow> kerror + (cmd \<times> nat)" where
  "parseexec_args 0 buf s argv rs = Inl OutOfFuel"
| "parseexec_args (Suc n) buf s argv rs =
     (let (b, s) = peek buf s ''|)&;''
      in if b then Inr (foldl redircmd (ExecCmd argv) rs, s)
         else
           let (tok, w, s) = gettoken buf s
           in if tok = NUL then Inr (foldl redircmd (ExecCmd argv) rs, s)
              else if tok \<noteq> CHR ''a'' then Inl (Panic ''syntax'')
              else
                let argv = argv @ [w]
                in if length argv \<ge> MAXARGS then Inl (Panic ''too many args'')
                   else bindE (parseredirs (scan_fuel buf) buf s) (\<lambda>(rs', s).
                        parseexec_args n buf s argv (rs @ rs')))"

text \<open>The loop of \<open>parseline\<close> over ampersands.\<close>

fun parse_backs :: "nat \<Rightarrow> string \<Rightarrow> nat \<Rightarrow> cmd \<Rightarrow> kerror + (cmd \<times> nat)" where
  "parse_backs 0 buf s c = Inl OutOfFuel"
| "parse_backs (Suc n) buf s c =
     (let (b, s) = peek buf s ''&''
      in if \<not> b then Inr (c, s)
         else let (_, _, s) = gettoken buf s in parse_backs n buf s (BackCmd c))"

fun parseline :: "nat \<Rightarrow> string \<Rightarrow> nat \<Rightarrow> kerror + (cmd \<times> nat)"
  and parsepipe :: "nat \<Rightarrow> string \<Rightarrow> nat \<Rightarrow> kerror + (cmd \<times> nat)"
  and parseexec :: "nat \<Rightarrow> string \<Rightarrow> nat \<Rightarrow> kerror + (cmd \<times> nat)"
  and parseblock :: "nat \<Rightarrow> string \<Rightarrow> nat \<Rightarrow> kerror + (cmd \<times> nat)" where
  "parseline 0 buf s = Inl OutOfFuel"
| "parseline (Suc n) buf s =
     bindE (parsepipe n buf s) (\<lambda>(c, s).
     bindE (parse_backs (scan_fuel buf) buf s c) (\<lambda>(c, s).
     let (b, s) = peek buf s '';''
     in if b then
          let (_, _, s) = gettoken buf s
          in bindE (parseline n buf s) (\<lambda>(c', s). Inr (ListCmd c c', s))
        else Inr (c, s)))"
| "parsepipe 0 buf s = Inl OutOfFuel"
| "parsepipe (Suc n) buf s =
     bindE (parseexec n buf s) (\<lambda>(c, s).
     let (b, s) = peek buf s ''|''
     in if b then
          let (_, _, s) = gettoken buf s
          in bindE (parsepipe n buf s) (\<lambda>(c', s). Inr (PipeCmd c c', s))
        else Inr (c, s))"
| "parseexec 0 buf s = Inl OutOfFuel"
| "parseexec (Suc n) buf s =
     (let (b, s) = peek buf s ''(''
      in if b then parseblock n buf s
         else bindE (parseredirs (scan_fuel buf) buf s) (\<lambda>(rs, s).
              parseexec_args (scan_fuel buf) buf s [] rs))"
| "parseblock 0 buf s = Inl OutOfFuel"
| "parseblock (Suc n) buf s =
     (let (b, s) = peek buf s ''(''
      in if \<not> b then Inl (Panic ''parseblock'')
         else
           let (_, _, s) = gettoken buf s
           in bindE (parseline n buf s) (\<lambda>(c, s).
              let (b, s) = peek buf s '')''
              in if \<not> b then Inl (Panic ''syntax - missing )'')
                 else
                   let (_, _, s) = gettoken buf s
                   in bindE (parseredirs (scan_fuel buf) buf s) (\<lambda>(rs, s).
                      Inr (foldl redircmd c rs, s))))"

text \<open>\<open>nulterminate\<close> writes a NUL at the end of every word the command refers to.\<close>

definition put_nul :: "word_ref \<Rightarrow> string \<Rightarrow> string" where
  "put_nul w buf = buf[snd w := NUL]"

fun nulterminate :: "cmd \<Rightarrow> string \<Rightarrow> string" where
  "nulterminate (ExecCmd argv) buf = fold put_nul argv buf"
| "nulterminate (RedirCmd c w mode fd) buf = put_nul w (nulterminate c buf)"
| "nulterminate (PipeCmd l r) buf = nulterminate r (nulterminate l buf)"
| "nulterminate (ListCmd l r) buf = nulterminate r (nulterminate l buf)"
| "nulterminate (BackCmd c) buf = nulterminate c buf"

text \<open>The fuel for the recursive descent: four calls for every character and one more round.\<close>

definition parse_fuel :: "string \<Rightarrow> nat" where
  "parse_fuel buf = 4 * length buf + 4"

definition parsecmd :: "string \<Rightarrow> kerror + (cmd \<times> string)" where
  "parsecmd buf =
     bindE (parseline (parse_fuel buf) buf 0) (\<lambda>(c, s).
     let (_, s) = peek buf s ''''
     in if s \<noteq> length buf then Inl (Panic ''syntax'')
        else Inr (c, nulterminate c (buf @ [NUL])))"

section \<open>Running a command\<close>

text \<open>
  What a process executing \<open>runcmd\<close> does, as a tree of system calls: a call with two
  outcomes has one subtree for failure and one for success, \<open>Fork\<close> one for each of
  failure, child and parent. File descriptors 0 and 1 of a fresh pipe are \<open>PipeR\<close> and
  \<open>PipeW\<close>.
\<close>

datatype shfd = Fd int | PipeR | PipeW

datatype prog =
    Exit
  | Exec "string list" prog
  | Close shfd prog
  | Open string int prog prog
  | Dup shfd prog
  | Pipe prog prog
  | Fork prog prog prog
  | Wait prog
  | Print string prog

definition word_at :: "string \<Rightarrow> word_ref \<Rightarrow> string" where
  "word_at buf w = cstr_at buf (fst w)"

definition sh_panic :: "string \<Rightarrow> prog" where
  "sh_panic msg = Print (msg @ [NL]) Exit"

definition fork1 :: "prog \<Rightarrow> prog \<Rightarrow> prog" where
  "fork1 child parent = Fork (sh_panic ''fork'') child parent"

fun runcmd :: "string \<Rightarrow> cmd \<Rightarrow> prog" where
  "runcmd buf (ExecCmd argv) =
     (if argv = [] then Exit
      else Exec (map (word_at buf) argv)
        (Print (''exec '' @ word_at buf (hd argv) @ '' failed'' @ [NL]) Exit))"
| "runcmd buf (RedirCmd c w mode fd) =
     Close (Fd fd) (Open (word_at buf w) mode
       (Print (''open '' @ word_at buf w @ '' failed'' @ [NL]) Exit) (runcmd buf c))"
| "runcmd buf (ListCmd l r) = fork1 (runcmd buf l) (Wait (runcmd buf r))"
| "runcmd buf (PipeCmd l r) =
     Pipe (sh_panic ''pipe'')
       (fork1 (Close (Fd 1) (Dup PipeW (Close PipeR (Close PipeW (runcmd buf l)))))
         (fork1 (Close (Fd 0) (Dup PipeR (Close PipeR (Close PipeW (runcmd buf r)))))
           (Close PipeR (Close PipeW (Wait (Wait Exit))))))"
| "runcmd buf (BackCmd c) = fork1 (runcmd buf c) Exit"

section \<open>Progress of the tokenizer and the parser\<close>

lemma skip_while_bounds: "s \<le> skip_while p buf s" "s \<le> length buf \<Longrightarrow> skip_while p buf s \<le> length buf"
proof -
  have "length (takeWhile p (drop s buf)) \<le> length buf - s"
    using length_takeWhile_le [of p "drop s buf"] by simp
  then show "s \<le> length buf \<Longrightarrow> skip_while p buf s \<le> length buf" by (simp add: skip_while_def)
qed (simp add: skip_while_def)

lemma skip_while_progress:
  assumes "s < length buf" and "p (buf ! s)"
  shows "s < skip_while p buf s"
proof -
  have "drop s buf = buf ! s # drop (Suc s) buf" using assms(1) by (simp add: Cons_nth_drop_Suc)
  with assms(2) show ?thesis by (simp add: skip_while_def)
qed

lemma sh_chr_NUL: "sh_chr buf s \<noteq> NUL \<Longrightarrow> s < length buf"
  by (auto simp: sh_chr_def split: if_splits)

lemma strchr_None: "strchr s c = None \<longleftrightarrow> c \<notin> set s"
proof -
  have "strchr_from i s c = None \<longleftrightarrow> c \<notin> set s" for i by (induction s arbitrary: i) auto
  then show ?thesis by (simp add: strchr_def)
qed

lemma is_space_iff: "is_space c \<longleftrightarrow> c \<in> set whitespace" and is_symbol_iff: "is_symbol c \<longleftrightarrow> c \<in> set symbols"
  by (auto simp: is_space_def is_symbol_def strchr_None)

lemma skip_space_end:
  "s \<le> length buf \<Longrightarrow> skip_while is_space buf s = length buf \<or> \<not> is_space (sh_chr buf (skip_while is_space buf s))"
proof -
  assume s: "s \<le> length buf"
  let ?k = "length (takeWhile is_space (drop s buf))"
  show ?thesis
  proof (cases "?k = length (drop s buf)")
    case True
    then show ?thesis using s by (simp add: skip_while_def)
  next
    case False
    then have "?k < length (drop s buf)" using length_takeWhile_le [of is_space "drop s buf"] by simp
    moreover from this have "\<not> is_space (drop s buf ! ?k)" by (rule nth_length_takeWhile)
    ultimately show ?thesis using s by (auto simp: skip_while_def sh_chr_def)
  qed
qed

lemma gettoken_bounds:
  assumes "gettoken buf s = (tok, (q, eq), s')" and "s \<le> length buf"
  shows "s \<le> q" and "q \<le> eq" and "eq \<le> s'" and "s' \<le> length buf"
    and "tok \<noteq> NUL \<Longrightarrow> q < eq"
proof -
  let ?s = "skip_while is_space buf s"
  let ?c = "sh_chr buf ?s"
  let ?w = "\<lambda>c. \<not> is_space c \<and> \<not> is_symbol c"
  have b: "s \<le> ?s" "?s \<le> length buf" using skip_while_bounds assms(2) by auto
  define e where "e = (if ?c = NUL then ?s
     else if ?c \<in> {CHR ''|'', CHR ''('', CHR '')'', CHR '';'', CHR ''&'', CHR ''<''} then ?s + 1
     else if ?c = CHR ''>'' then if sh_chr buf (?s + 1) = CHR ''>'' then ?s + 2 else ?s + 1
     else skip_while ?w buf ?s)"
  have eq: "q = ?s" "eq = e" "s' = skip_while is_space buf e" "tok = NUL \<longleftrightarrow> ?c = NUL"
    using assms(1) by (auto simp: gettoken_def e_def Let_def split: if_splits)
  have e: "?s \<le> e \<and> e \<le> length buf \<and> (?c \<noteq> NUL \<longrightarrow> ?s < e)"
  proof (cases "?c = NUL")
    case True
    then show ?thesis using b by (simp add: e_def)
  next
    case False
    then have lt: "?s < length buf" by (rule sh_chr_NUL)
    then have ns: "\<not> is_space ?c" using skip_space_end [OF assms(2)] by auto
    have two: "sh_chr buf (?s + 1) = CHR ''>'' \<Longrightarrow> ?s + 2 \<le> length buf"
      using sh_chr_NUL [of buf "?s + 1"] by auto
    consider "?c \<in> {CHR ''|'', CHR ''('', CHR '')'', CHR '';'', CHR ''&'', CHR ''<'', CHR ''>''}"
      | "?c \<notin> {CHR ''|'', CHR ''('', CHR '')'', CHR '';'', CHR ''&'', CHR ''<'', CHR ''>''}" by blast
    then show ?thesis
    proof cases
      case 1
      then show ?thesis using lt two unfolding e_def by auto
    next
      case 2
      then have "?w (buf ! ?s)"
        using ns lt by (auto simp: is_symbol_iff symbols_def sh_chr_def)
      then have "?s < skip_while ?w buf ?s" using lt by (intro skip_while_progress)
      moreover have "e = skip_while ?w buf ?s" using 2 False by (auto simp: e_def)
      ultimately show ?thesis using skip_while_bounds(2) b(2) by auto
    qed
  qed
  show "s \<le> q" "q \<le> eq" using b e eq by auto
  show "eq \<le> s'" "s' \<le> length buf" using e eq skip_while_bounds by auto
  show "tok \<noteq> NUL \<Longrightarrow> q < eq" using e eq by auto
qed

lemma peek_bounds:
  assumes "peek buf s toks = (b, s')" and "s \<le> length buf"
  shows "s \<le> s'" and "s' \<le> length buf" and "b \<Longrightarrow> sh_chr buf s' \<noteq> NUL"
  using assms skip_while_bounds by (auto simp: peek_def Let_def)

lemma gettoken_advance:
  assumes "gettoken buf s = (tok, w, s')" and "sh_chr buf s \<noteq> NUL"
  shows "s < s'"
proof -
  obtain q eq where w: "w = (q, eq)" by (cases w)
  have s: "s \<le> length buf" using sh_chr_NUL [OF assms(2)] by simp
  note b = gettoken_bounds [OF assms(1) [unfolded w] s]
  show ?thesis
  proof (cases "q = s")
    case True
    have "q = skip_while is_space buf s" using assms(1) w by (auto simp: gettoken_def Let_def split: if_splits)
    with True assms(2) have "tok \<noteq> NUL"
      using assms(1) w by (auto simp: gettoken_def Let_def split: if_splits)
    with b show ?thesis by simp
  next
    case False
    with b show ?thesis by simp
  qed
qed

text \<open>A parser result that is not for want of fuel and leaves the position in range.\<close>

definition parsed :: "string \<Rightarrow> nat \<Rightarrow> kerror + ('a \<times> nat) \<Rightarrow> bool" where
  "parsed buf s r \<longleftrightarrow> (case r of Inl e \<Rightarrow> e \<noteq> OutOfFuel | Inr (_, s') \<Rightarrow> s \<le> s' \<and> s' \<le> length buf)"

lemma parsed_simps [simp]:
  "parsed buf s (Inl e) \<longleftrightarrow> e \<noteq> OutOfFuel"
  "parsed buf s (Inr (x, s')) \<longleftrightarrow> s \<le> s' \<and> s' \<le> length buf"
  by (simp_all add: parsed_def)

lemma parsed_mono: "parsed buf s' r \<Longrightarrow> s \<le> s' \<Longrightarrow> parsed buf s r"
  by (auto simp: parsed_def split: sum.splits)

lemma parsed_bind:
  assumes "parsed buf s r" and "\<And>x s'. s \<le> s' \<Longrightarrow> s' \<le> length buf \<Longrightarrow> parsed buf s' (f (x, s'))"
  shows "parsed buf s (bindE r f)"
proof (cases r)
  case (Inr y)
  with assms show ?thesis by (cases y) (auto intro: parsed_mono)
qed (use assms(1) in simp)

lemma parseredirs_parsed:
  "s \<le> length buf \<Longrightarrow> length buf - s < n \<Longrightarrow> parsed buf s (parseredirs n buf s)"
proof (induction n arbitrary: s)
  case (Suc n)
  obtain b s1 where p: "peek buf s ''<>'' = (b, s1)" by fastforce
  obtain tok w s2 where g: "gettoken buf s1 = (tok, w, s2)" by (metis prod_cases3)
  obtain tok2 w2 s3 where g2: "gettoken buf s2 = (tok2, w2, s3)" by (metis prod_cases3)
  note pb = peek_bounds [OF p Suc.prems(1)]
  show ?case
  proof (cases b)
    case True
    have s2: "s1 < s2" using g pb(3) [OF True] by (rule gettoken_advance)
    have s2': "s2 \<le> length buf" using gettoken_bounds(4) [of buf s1] g pb(2) by (cases w) auto
    have s3: "s2 \<le> s3 \<and> s3 \<le> length buf"
      using gettoken_bounds [of buf s2] g2 s2' by (cases w2) fastforce
    have "parsed buf s3 (parseredirs n buf s3)"
      using Suc.prems pb s2 s3 by (intro Suc.IH) auto
    then show ?thesis
      using True s2 s3 pb by (auto simp: p g g2 Let_def intro!: parsed_bind intro: parsed_mono)
  next
    case False
    then show ?thesis using pb by (simp add: p)
  qed
qed simp

lemma parseredirs_scan: "s \<le> length buf \<Longrightarrow> parsed buf s (parseredirs (scan_fuel buf) buf s)"
  unfolding scan_fuel_def by (intro parseredirs_parsed) auto

text \<open>A token taken after a successful look-ahead moves the position forward.\<close>

lemma peek_gettoken:
  assumes "peek buf s toks = (True, s1)" and "gettoken buf s1 = (tok, w, s2)" and "s \<le> length buf"
  shows "s < s2 \<and> s2 \<le> length buf"
proof -
  note pb = peek_bounds [OF assms(1,3)]
  have "s1 < s2" using assms(2) pb(3) by (intro gettoken_advance) auto
  moreover have "s2 \<le> length buf" using gettoken_bounds(4) [of buf s1] assms(2) pb(2) by (cases w) auto
  ultimately show ?thesis using pb by auto
qed

lemma parse_backs_parsed:
  "s \<le> length buf \<Longrightarrow> length buf - s < n \<Longrightarrow> parsed buf s (parse_backs n buf s c)"
proof (induction n arbitrary: s c)
  case (Suc n)
  obtain b s1 where p: "peek buf s ''&'' = (b, s1)" by fastforce
  obtain tok w s2 where g: "gettoken buf s1 = (tok, w, s2)" by (metis prod_cases3)
  note pb = peek_bounds [OF p Suc.prems(1)]
  show ?case
  proof (cases b)
    case True
    then have s2: "s < s2 \<and> s2 \<le> length buf" using peek_gettoken [OF _ g Suc.prems(1)] p by simp
    then have "parsed buf s2 (parse_backs n buf s2 (BackCmd c))" using Suc.prems by (intro Suc.IH) auto
    then show ?thesis using True s2 by (auto simp: p g intro: parsed_mono)
  qed (use pb in \<open>simp add: p\<close>)
qed simp

lemma parse_backs_scan: "s \<le> length buf \<Longrightarrow> parsed buf s (parse_backs (scan_fuel buf) buf s c)"
  unfolding scan_fuel_def by (intro parse_backs_parsed) auto

lemma parseexec_args_parsed:
  "s \<le> length buf \<Longrightarrow> length buf - s < n \<Longrightarrow> parsed buf s (parseexec_args n buf s argv rs)"
proof (induction n arbitrary: s argv rs)
  case (Suc n)
  obtain b s1 where p: "peek buf s ''|)&;'' = (b, s1)" by fastforce
  obtain tok q eq s2 where g: "gettoken buf s1 = (tok, (q, eq), s2)" by (metis surj_pair)
  note pb = peek_bounds [OF p Suc.prems(1)] and gb = gettoken_bounds [OF g]
  show ?case
  proof (cases "b \<or> tok \<noteq> CHR ''a'' \<or> length (argv @ [(q, eq)]) \<ge> MAXARGS")
    case True
    then show ?thesis using pb gb by (auto simp: p g Let_def)
  next
    case False
    then have s2: "s < s2" "s2 \<le> length buf" using pb gb by auto
    have "parsed buf s2 (bindE (parseredirs (scan_fuel buf) buf s2) (\<lambda>(rs', s).
        parseexec_args n buf s (argv @ [(q, eq)]) (rs @ rs')))"
      using Suc.prems s2 by (auto intro!: parsed_bind parseredirs_scan Suc.IH)
    then show ?thesis using False s2 by (auto simp: p g Let_def intro: parsed_mono)
  qed
qed simp

lemma parseexec_args_scan: "s \<le> length buf \<Longrightarrow> parsed buf s (parseexec_args (scan_fuel buf) buf s argv rs)"
  unfolding scan_fuel_def by (intro parseexec_args_parsed) auto

lemma parser_parsed:
  "s \<le> length buf \<Longrightarrow> 4 * (length buf - s) + 4 \<le> n \<Longrightarrow> parsed buf s (parseline n buf s)"
  "s \<le> length buf \<Longrightarrow> 4 * (length buf - s) + 3 \<le> n \<Longrightarrow> parsed buf s (parsepipe n buf s)"
  "s \<le> length buf \<Longrightarrow> 4 * (length buf - s) + 2 \<le> n \<Longrightarrow> parsed buf s (parseexec n buf s)"
  "s \<le> length buf \<Longrightarrow> 4 * (length buf - s) + 1 \<le> n \<Longrightarrow> parsed buf s (parseblock n buf s)"
proof (induction n arbitrary: s)
  case (Suc n)
  {
    case 1
    show ?case
      unfolding parseline.simps
    proof (rule parsed_bind)
      show "parsed buf s (parsepipe n buf s)" using 1 by (intro Suc.IH) auto
    next
      fix c s'
      assume s': "s \<le> s'" "s' \<le> length buf"
      have "parsed buf s' (bindE (parse_backs (scan_fuel buf) buf s' c) (\<lambda>(c, s).
          let (b, s) = peek buf s '';''
          in if b then let (_, _, s) = gettoken buf s
               in bindE (parseline n buf s) (\<lambda>(c', s). Inr (ListCmd c c', s))
             else Inr (c, s)))"
      proof (rule parsed_bind)
        show "parsed buf s' (parse_backs (scan_fuel buf) buf s' c)"
          using s' by (intro parse_backs_scan) auto
      next
        fix c s2
        assume s2: "s' \<le> s2" "s2 \<le> length buf"
        obtain b s3 where p: "peek buf s2 '';'' = (b, s3)" by fastforce
        obtain tok w s4 where g: "gettoken buf s3 = (tok, w, s4)" by (metis prod_cases3)
        show "parsed buf s2 ((\<lambda>(c, s).
          let (b, s) = peek buf s '';''
          in if b then let (_, _, s) = gettoken buf s
               in bindE (parseline n buf s) (\<lambda>(c', s). Inr (ListCmd c c', s))
             else Inr (c, s)) (c, s2))"
        proof (cases b)
          case True
          then have s4: "s2 < s4 \<and> s4 \<le> length buf" using peek_gettoken [OF _ g s2(2)] p by simp
          then have "parsed buf s4 (parseline n buf s4)" using 1 s' s2 by (intro Suc.IH) auto
          then have "parsed buf s4 (bindE (parseline n buf s4) (\<lambda>(c', s). Inr (ListCmd c c', s)))"
            by (rule parsed_bind) auto
          then show ?thesis using True s4 by (auto simp: p g intro: parsed_mono)
        next
          case False
          then show ?thesis using peek_bounds [OF p s2(2)] by (simp add: p)
        qed
      qed
      then show "parsed buf s' ((\<lambda>(c, s). bindE (parse_backs (scan_fuel buf) buf s c) (\<lambda>(c, s).
          let (b, s) = peek buf s '';''
          in if b then let (_, _, s) = gettoken buf s
               in bindE (parseline n buf s) (\<lambda>(c', s). Inr (ListCmd c c', s))
             else Inr (c, s))) (c, s'))" by simp
    qed
  next
    case 2
    show ?case
      unfolding parsepipe.simps
    proof (rule parsed_bind)
      show "parsed buf s (parseexec n buf s)" using 2 by (intro Suc.IH) auto
    next
      fix c s2
      assume s2: "s \<le> s2" "s2 \<le> length buf"
      obtain b s3 where p: "peek buf s2 ''|'' = (b, s3)" by fastforce
      obtain tok w s4 where g: "gettoken buf s3 = (tok, w, s4)" by (metis prod_cases3)
      show "parsed buf s2 ((\<lambda>(c, s). let (b, s) = peek buf s ''|''
        in if b then let (_, _, s) = gettoken buf s
             in bindE (parsepipe n buf s) (\<lambda>(c', s). Inr (PipeCmd c c', s))
           else Inr (c, s)) (c, s2))"
      proof (cases b)
        case True
        then have s4: "s2 < s4 \<and> s4 \<le> length buf" using peek_gettoken [OF _ g s2(2)] p by simp
        then have "parsed buf s4 (parsepipe n buf s4)" using 2 s2 by (intro Suc.IH) auto
        then have "parsed buf s4 (bindE (parsepipe n buf s4) (\<lambda>(c', s). Inr (PipeCmd c c', s)))"
          by (rule parsed_bind) auto
        then show ?thesis using True s4 by (auto simp: p g intro: parsed_mono)
      next
        case False
        then show ?thesis using peek_bounds [OF p s2(2)] by (simp add: p)
      qed
    qed
  next
    case 3
    obtain b s1 where p: "peek buf s ''('' = (b, s1)" by fastforce
    note pb = peek_bounds [OF p 3(1)]
    show ?case
    proof (cases b)
      case True
      have "parsed buf s1 (parseblock n buf s1)" using 3 pb by (intro Suc.IH) auto
      then show ?thesis using True pb by (auto simp: p intro: parsed_mono)
    next
      case False
      have "parsed buf s1 (bindE (parseredirs (scan_fuel buf) buf s1) (\<lambda>(rs, s).
          parseexec_args (scan_fuel buf) buf s [] rs))"
        using pb by (auto intro!: parsed_bind parseredirs_scan parseexec_args_scan)
      then show ?thesis using False pb by (auto simp: p intro: parsed_mono)
    qed
  next
    case 4
    obtain b s1 where p: "peek buf s ''('' = (b, s1)" by fastforce
    obtain tok w s2 where g: "gettoken buf s1 = (tok, w, s2)" by (metis prod_cases3)
    show ?case
    proof (cases b)
      case True
      then have s2: "s < s2" "s2 \<le> length buf" using peek_gettoken [OF _ g 4(1)] p by auto
      have "parsed buf s2 (bindE (parseline n buf s2) (\<lambda>(c, s).
          let (b, s) = peek buf s '')''
          in if \<not> b then Inl (Panic ''syntax - missing )'')
             else let (_, _, s) = gettoken buf s
               in bindE (parseredirs (scan_fuel buf) buf s) (\<lambda>(rs, s). Inr (foldl redircmd c rs, s))))"
      proof (rule parsed_bind)
        show "parsed buf s2 (parseline n buf s2)" using 4 s2 by (intro Suc.IH) auto
      next
        fix c s3
        assume s3: "s2 \<le> s3" "s3 \<le> length buf"
        obtain b s4 where p: "peek buf s3 '')'' = (b, s4)" by fastforce
        obtain tok w s5 where g: "gettoken buf s4 = (tok, w, s5)" by (metis prod_cases3)
        have adv: "b \<Longrightarrow> s3 < s5 \<and> s5 \<le> length buf" using peek_gettoken [OF _ g s3(2)] p by auto
        have "parsed buf s5 (bindE (parseredirs (scan_fuel buf) buf s5) (\<lambda>(rs, s). Inr (foldl redircmd c rs, s)))"
          if "s5 \<le> length buf"
          using that by (auto intro!: parsed_bind parseredirs_scan)
        then show "parsed buf s3 ((\<lambda>(c, s). let (b, s) = peek buf s '')''
          in if \<not> b then Inl (Panic ''syntax - missing )'')
             else let (_, _, s) = gettoken buf s
               in bindE (parseredirs (scan_fuel buf) buf s) (\<lambda>(rs, s). Inr (foldl redircmd c rs, s))) (c, s3))"
          using adv by (auto simp: p g intro: parsed_mono)
      qed
      then show ?thesis using True s2 by (auto simp: p g intro: parsed_mono)
    next
      case False
      then show ?thesis by (simp add: p)
    qed
  }
qed auto


section \<open>Properties\<close>

text \<open>
  (C25) The parser returns on every command line: the fuel that \<open>parsecmd\<close> passes is never
  the reason for a failure, so each result is a command or one of the shell's syntax errors.
\<close>

theorem parsecmd_terminates: "parsecmd buf \<noteq> Inl OutOfFuel"
proof -
  have "parsed buf 0 (parseline (parse_fuel buf) buf 0)"
    by (rule parser_parsed) (simp_all add: parse_fuel_def)
  then show ?thesis
    by (cases "parseline (parse_fuel buf) buf 0") (auto simp: parsecmd_def Let_def split: prod.splits)
qed

end
