(* ===== verification/Commands.thy ===== *)
theory Commands
  imports Sh
begin

text \<open>
  The main functions of the user programs: the small commands and \<^verbatim>\<open>init.c\<close> as trees of system
  calls, the text utilities as what they print, and the command loop of the shell.
\<close>

section \<open>Programs that make system calls\<close>

text \<open>
  A program makes a call and continues with its result, or exits; \<open>Unfinished\<close> is where a program that
  runs for ever is cut off, and \<open>UJob\<close> where a child of the shell goes on with a parsed command. The first argument of a main function is \<^verbatim>\<open>argv\<close>.
\<close>

datatype ucall =
    UOpen string int
  | UMknod string int int
  | UDup int
  | UPrint int string
  | UFork
  | UExec "string list"
  | UWait
  | UKill uint
  | ULink string string
  | UMkdir string
  | UUnlink string
  | USleep int
  | UClose int
  | UChdir string

datatype uprog = UExit | Unfinished | UJob "kerror + prog" | UCall ucall "int \<Rightarrow> uprog"

fun echo_loop :: "string list \<Rightarrow> uprog" where
  "echo_loop [] = UExit"
| "echo_loop (x # xs) = UCall (UPrint 1 (x @ (if xs \<noteq> [] then '' '' else [NL]))) (\<lambda>_. echo_loop xs)"

definition echo_main :: "string list \<Rightarrow> uprog" where
  "echo_main argv = echo_loop (drop 1 argv)"

fun kill_loop :: "string list \<Rightarrow> uprog" where
  "kill_loop [] = UExit"
| "kill_loop (x # xs) = UCall (UKill (atoi x)) (\<lambda>_. kill_loop xs)"

definition kill_main :: "string list \<Rightarrow> uprog" where
  "kill_main argv =
     (if length argv < 1 then UCall (UPrint 2 (''usage: kill pid...'' @ [NL])) (\<lambda>_. UExit)
      else kill_loop (drop 1 argv))"

definition ln_main :: "string list \<Rightarrow> uprog" where
  "ln_main argv =
     (if length argv \<noteq> 3 then UCall (UPrint 2 (''Usage: ln old new'' @ [NL])) (\<lambda>_. UExit)
      else UCall (ULink (argv ! 1) (argv ! 2)) (\<lambda>r.
        if r < 0 then UCall (UPrint 2 (''link '' @ argv ! 1 @ '' '' @ argv ! 2 @ '': failed'' @ [NL])) (\<lambda>_. UExit)
        else UExit))"

fun mkdir_loop :: "string list \<Rightarrow> uprog" where
  "mkdir_loop [] = UExit"
| "mkdir_loop (x # xs) =
     UCall (UMkdir x) (\<lambda>r.
       if r < 0 then UCall (UPrint 2 (''mkdir: '' @ x @ '' failed to create'' @ [NL])) (\<lambda>_. UExit) else mkdir_loop xs)"

definition mkdir_main :: "string list \<Rightarrow> uprog" where
  "mkdir_main argv =
     (if length argv < 2 then UCall (UPrint 2 (''Usage: mkdir files...'' @ [NL])) (\<lambda>_. UExit)
      else mkdir_loop (drop 1 argv))"

fun rm_loop :: "string list \<Rightarrow> uprog" where
  "rm_loop [] = UExit"
| "rm_loop (x # xs) =
     UCall (UUnlink x) (\<lambda>r.
       if r < 0 then UCall (UPrint 2 (''rm: '' @ x @ '' failed to delete'' @ [NL])) (\<lambda>_. UExit) else rm_loop xs)"

definition rm_main :: "string list \<Rightarrow> uprog" where
  "rm_main argv =
     (if length argv < 2 then UCall (UPrint 2 (''Usage: rm files...'' @ [NL])) (\<lambda>_. UExit)
      else rm_loop (drop 1 argv))"

definition zombie_main :: uprog where
  "zombie_main = UCall UFork (\<lambda>pid. if pid > 0 then UCall (USleep 5) (\<lambda>_. UExit) else UExit)"

text \<open>The endless loop of \<open>init\<close> and its wait for the shell, for a number of rounds.\<close>

fun init_loop :: "nat \<Rightarrow> uprog"
  and init_wait :: "nat \<Rightarrow> int \<Rightarrow> uprog"
where
  "init_loop 0 = Unfinished"
| "init_loop (Suc k) =
     UCall (UPrint 1 (''init: starting sh'' @ [NL])) (\<lambda>_.
     UCall UFork (\<lambda>pid.
       if pid < 0 then UCall (UPrint 1 (''init: fork failed'' @ [NL])) (\<lambda>_. UExit)
       else if pid = 0 then
         UCall (UExec [''sh'']) (\<lambda>_. UCall (UPrint 1 (''init: exec sh failed'' @ [NL])) (\<lambda>_. UExit))
       else init_wait k pid))"
| "init_wait 0 pid = Unfinished"
| "init_wait (Suc k) pid =
     UCall UWait (\<lambda>wpid.
       if wpid \<ge> 0 \<and> wpid \<noteq> pid then UCall (UPrint 1 (''zombie!'' @ [NL])) (\<lambda>_. init_wait k pid)
       else init_loop k)"

definition init_main :: "nat \<Rightarrow> uprog" where
  "init_main rounds =
     (let go = UCall (UDup 0) (\<lambda>_. UCall (UDup 0) (\<lambda>_. init_loop rounds))
      in UCall (UOpen ''console'' 2) (\<lambda>fd.
         if fd < 0 then UCall (UMknod ''console'' 1 1) (\<lambda>_. UCall (UOpen ''console'' 2) (\<lambda>_. go))
         else go))"

section \<open>The text utilities\<close>

text \<open>
  What is written to which descriptor. \<open>files\<close> gives the pieces in which an argument file is read, None when
  it cannot be opened; \<open>inp\<close> those of the standard input.
\<close>

type_synonym uout = "(int \<times> string) list"

fun cat_files :: "(string \<Rightarrow> string list option) \<Rightarrow> string list \<Rightarrow> uout" where
  "cat_files files [] = []"
| "cat_files files (f # fs) =
     (case files f of
        None \<Rightarrow> [(1, ''cat: cannot open '' @ f @ [NL])]
      | Some inp \<Rightarrow> (1, cat inp) # cat_files files fs)"

definition cat_main :: "(string \<Rightarrow> string list option) \<Rightarrow> string list \<Rightarrow> string list \<Rightarrow> uout" where
  "cat_main files inp argv = (if length argv \<le> 1 then [(1, cat inp)] else cat_files files (drop 1 argv))"

definition wc_print :: "string list \<Rightarrow> string \<Rightarrow> kerror + uout" where
  "wc_print inp name =
     (let (l, w, c) = wc inp
      in bindE (printf (\<lambda>_. name) (''%d %d %d %s'' @ [NL]) [of_int l, of_int w, of_int c, 0]) (\<lambda>t. Inr [(1, t)]))"

fun wc_files :: "(string \<Rightarrow> string list option) \<Rightarrow> string list \<Rightarrow> kerror + uout" where
  "wc_files files [] = Inr []"
| "wc_files files (f # fs) =
     (case files f of
        None \<Rightarrow> Inr [(1, ''cat: cannot open '' @ f @ [NL])]
      | Some inp \<Rightarrow> bindE (wc_print inp f) (\<lambda>o1. bindE (wc_files files fs) (\<lambda>o2. Inr (o1 @ o2))))"

definition wc_main :: "(string \<Rightarrow> string list option) \<Rightarrow> string list \<Rightarrow> string list \<Rightarrow> kerror + uout" where
  "wc_main files inp argv = (if length argv \<le> 1 then wc_print inp [] else wc_files files (drop 1 argv))"

fun grep_files :: "(string \<Rightarrow> string list option) \<Rightarrow> string \<Rightarrow> string list \<Rightarrow> kerror + uout" where
  "grep_files files pattern [] = Inr []"
| "grep_files files pattern (f # fs) =
     (case files f of
        None \<Rightarrow> Inr [(1, ''grep: cannot open '' @ f @ [NL])]
      | Some inp \<Rightarrow> bindE (grep pattern inp) (\<lambda>t. bindE (grep_files files pattern fs) (\<lambda>o2. Inr ((1, t) # o2))))"

definition grep_main :: "(string \<Rightarrow> string list option) \<Rightarrow> string list \<Rightarrow> string list \<Rightarrow> kerror + uout" where
  "grep_main files inp argv =
     (if length argv \<le> 1 then Inr [(2, ''usage: grep pattern [file ...]'' @ [NL])]
      else if length argv \<le> 2 then bindE (grep (argv ! 1) inp) (\<lambda>t. Inr [(1, t)])
      else grep_files files (argv ! 1) (drop 2 argv))"

text \<open>What \<open>ls\<close> sees of a file: its type, number and size, and a directory's entries.\<close>

record lsfile =
  ls_type :: uint
  ls_ino :: uint
  ls_size :: uint
  ls_entries :: "(uint \<times> string) list"

definition ls_line :: "string \<Rightarrow> lsfile \<Rightarrow> kerror + uout" where
  "ls_line path st =
     bindE (printf (\<lambda>_. fmtname path) (''%s %d %d %d'' @ [NL]) [0, ls_type st, ls_ino st, ls_size st]) (\<lambda>t. Inr [(1, t)])"

fun ls_dir :: "(string \<Rightarrow> lsfile option) \<Rightarrow> string \<Rightarrow> (uint \<times> string) list \<Rightarrow> kerror + uout" where
  "ls_dir files path [] = Inr []"
| "ls_dir files path ((inum, name) # es) =
     (if inum = 0 then ls_dir files path es
      else
        let buf = path @ ''/'' @ takeWhile (\<lambda>c. c \<noteq> NUL) (take 14 name)
        in bindE (case files buf of None \<Rightarrow> Inr [(1, ''ls: cannot stat '' @ buf @ [NL])] | Some st \<Rightarrow> ls_line buf st) (\<lambda>o1.
           bindE (ls_dir files path es) (\<lambda>o2. Inr (o1 @ o2))))"

definition ls :: "(string \<Rightarrow> lsfile option) \<Rightarrow> string \<Rightarrow> kerror + uout" where
  "ls files path =
     (case files path of
        None \<Rightarrow> Inr [(2, ''ls: cannot open '' @ path @ [NL])]
      | Some st \<Rightarrow>
          if ls_type st = 2 then ls_line path st
          else if ls_type st = 1 then
            if length path + 1 + 14 + 1 > 512 then Inr [(1, ''ls: path too long'' @ [NL])]
            else ls_dir files path (ls_entries st)
          else Inr [])"

fun ls_all :: "(string \<Rightarrow> lsfile option) \<Rightarrow> string list \<Rightarrow> kerror + uout" where
  "ls_all files [] = Inr []"
| "ls_all files (p # ps) = bindE (ls files p) (\<lambda>o1. bindE (ls_all files ps) (\<lambda>o2. Inr (o1 @ o2)))"

definition ls_main :: "(string \<Rightarrow> lsfile option) \<Rightarrow> string list \<Rightarrow> kerror + uout" where
  "ls_main files argv = (if length argv < 2 then ls files ''.'' else ls_all files (drop 1 argv))"

section \<open>The command loop of the shell\<close>

text \<open>
  The shell reads its input a character at a time. A step of its loop changes the directory or gives a line
  to a child, whose program is that of the parsed command; an error of the parser ends the child.
\<close>

definition rd_char :: "string \<Rightarrow> (char \<times> string) option" where
  "rd_char inp = (case inp of [] \<Rightarrow> None | c # cs \<Rightarrow> Some (c, cs))"

definition getcmd :: "int \<Rightarrow> string \<Rightarrow> string option \<times> string" where
  "getcmd nbuf inp =
     (let (buf, rest) = gets rd_char nbuf inp
      in (if buf = [] \<or> hd buf = NUL then None else Some (takeWhile (\<lambda>c. c \<noteq> NUL) buf), rest))"

datatype shstep = ChangeDir string | Job "kerror + prog"

definition sh_step :: "string \<Rightarrow> shstep" where
  "sh_step buf =
     (if take 3 buf = ''cd '' then ChangeDir (drop 3 (butlast buf))
      else Job (bindE (parsecmd buf) (\<lambda>(c, buf). Inr (runcmd buf c))))"

lemma gets_splits: "gets_loop rd_char i mx inp = (s, rest) \<Longrightarrow> inp = s @ rest"
proof (induction rd_char i mx inp arbitrary: s rest rule: gets_loop.induct)
  case (1 i mx inp)
  show ?case
  proof (cases "i + 1 < mx \<and> inp \<noteq> []")
    case False
    then show ?thesis using 1(2) by (subst (asm) gets_loop.simps) (auto simp: rd_char_def split: if_splits)
  next
    case True
    then obtain c cs where inp: "inp = c # cs" by (cases inp) auto
    then have rd: "rd_char inp = Some (c, cs)" by (simp add: rd_char_def)
    obtain t u where t: "gets_loop rd_char (i + 1) mx cs = (t, u)" by fastforce
    show ?thesis
    proof (cases "c = CHR 0x0A \<or> c = CHR 0x0D")
      case True
      then show ?thesis using 1(2) \<open>i + 1 < mx \<and> inp \<noteq> []\<close> rd inp by (subst (asm) gets_loop.simps) auto
    next
      case False
      then have "s = c # t" "rest = u"
        using 1(2) True rd t by (subst (asm) (2) gets_loop.simps, auto)+
      then show ?thesis using 1(1) [OF _ rd refl False t] True inp by simp
    qed
  qed
qed

lemma getcmd_consumes: "getcmd nbuf inp = (Some buf, rest) \<Longrightarrow> length rest < length inp"
  by (auto simp: getcmd_def gets_def split: prod.splits if_splits dest!: gets_splits)

function sh_loop :: "string \<Rightarrow> shstep list" where
  "sh_loop inp =
     (case getcmd 100 inp of
        (None, rest) \<Rightarrow> []
      | (Some buf, rest) \<Rightarrow> sh_step buf # sh_loop rest)"
  by pat_completeness auto
termination
  by (relation "measure length") (auto dest: getcmd_consumes [OF sym])

declare sh_loop.simps [simp del]

text \<open>The steps as calls, each after the prompt; then the whole program. It first opens
  the console until a descriptor is 3 or more, which takes at most four calls because \<^verbatim>\<open>open\<close> returns the
  lowest descriptor that is not in use.\<close>

fun sh_calls :: "shstep list \<Rightarrow> uprog" where
  "sh_calls [] = UCall (UPrint 2 ''$ '') (\<lambda>_. UExit)"
| "sh_calls (ChangeDir d # ss) =
     UCall (UPrint 2 ''$ '') (\<lambda>_. UCall (UChdir d) (\<lambda>r.
       if r < 0 then UCall (UPrint 2 (''cannot cd '' @ d @ [NL])) (\<lambda>_. sh_calls ss) else sh_calls ss))"
| "sh_calls (Job j # ss) =
     UCall (UPrint 2 ''$ '') (\<lambda>_. UCall UFork (\<lambda>pid.
       if pid = - 1 then UCall (UPrint 2 (''fork'' @ [NL])) (\<lambda>_. UExit)
       else if pid = 0 then UJob j
       else UCall UWait (\<lambda>_. sh_calls ss)))"

fun sh_fds :: "nat \<Rightarrow> uprog \<Rightarrow> uprog" where
  "sh_fds 0 go = Unfinished"
| "sh_fds (Suc k) go =
     UCall (UOpen ''console'' 2) (\<lambda>fd.
       if fd \<ge> 0 then if fd \<ge> 3 then UCall (UClose fd) (\<lambda>_. go) else sh_fds k go
       else go)"

definition sh_main :: "string \<Rightarrow> uprog" where
  "sh_main inp = sh_fds 4 (sh_calls (sh_loop inp))"

end
