(* ===== verification/Spinlock.thy ===== *)
theory Spinlock
  imports Memory
begin

text \<open>
  Processors, interrupts and the spin locks of \<^verbatim>\<open>spinlock.c\<close>. The record
  \<open>machine\<close> is the bottom layer of the kernel state that every later component
  extends. Each lock of the kernel has a name of type \<open>lockid\<close>; the fields kept only
  for debugging output (\<^verbatim>\<open>name\<close>, \<^verbatim>\<open>pcs\<close>) are not part of the state.
\<close>

section \<open>State\<close>

datatype lockid =
    PtableLock | SwapLock | WakeupLock | KmemLock | ShmLock | BcacheLock | IdeLock | LogLock
  | IcacheLock | FtableLock | ConsLock | InputLock | TicksLock | PipeLock uint

record spinlock =
  lk_locked :: uint
  lk_cpu :: "nat option"

text \<open>
  The part of \<^verbatim>\<open>struct cpu\<close> that locking uses, with the processor's own interrupt
  flag (bit \<^verbatim>\<open>FL_IF\<close> of its flags register).
\<close>

record cpu =
  cpu_ncli :: int
  cpu_intena :: bool
  cpu_if :: bool

record machine =
  locks :: "lockid \<Rightarrow> spinlock"
  cpus :: "nat \<Rightarrow> cpu"
  mycpu :: nat

section \<open>Operations\<close>

definition initlock :: "lockid \<Rightarrow> 'a machine_scheme \<Rightarrow> 'a machine_scheme" where
  "initlock l s = s\<lparr>locks := (locks s)(l := \<lparr>lk_locked = 0, lk_cpu = None\<rparr>)\<rparr>"

definition holding :: "lockid \<Rightarrow> 'a machine_scheme \<Rightarrow> bool" where
  "holding l s \<longleftrightarrow> lk_locked (locks s l) \<noteq> 0 \<and> lk_cpu (locks s l) = Some (mycpu s)"

definition pushcli :: "'a machine_scheme \<Rightarrow> 'a machine_scheme" where
  "pushcli s =
     (let c = cpus s (mycpu s);
          eflags = cpu_if c
      in s\<lparr>cpus := (cpus s)(mycpu s := c\<lparr>cpu_if := False, cpu_ncli := cpu_ncli c + 1,
             cpu_intena := (if cpu_ncli c = 0 then eflags else cpu_intena c)\<rparr>)\<rparr>)"

definition popcli :: "'a machine_scheme \<Rightarrow> kerror + 'a machine_scheme" where
  "popcli s =
     (let c = cpus s (mycpu s);
          n = cpu_ncli c - 1
      in if cpu_if c then Inl (Panic ''popcli - interruptible'')
         else if n < 0 then Inl (Panic ''popcli'')
         else Inr (s\<lparr>cpus := (cpus s)(mycpu s := c\<lparr>cpu_ncli := n,
                cpu_if := (n = 0 \<and> cpu_intena c)\<rparr>)\<rparr>))"

text \<open>
  \<open>acquire\<close> on one processor: the exchange that finds the lock taken is a spin that no
  step of this processor ends. The interleaving of several processors is the step relation
  below.
\<close>

definition acquire :: "lockid \<Rightarrow> 'a machine_scheme \<Rightarrow> kerror + 'a machine_scheme" where
  "acquire l s =
     (let s = pushcli s
      in if holding l s then Inl (Panic ''acquire'')
         else if lk_locked (locks s l) \<noteq> 0 then Inl (Spins ''acquire'')
         else Inr (s\<lparr>locks := (locks s)(l := \<lparr>lk_locked = 1, lk_cpu = Some (mycpu s)\<rparr>)\<rparr>))"

definition release :: "lockid \<Rightarrow> 'a machine_scheme \<Rightarrow> kerror + 'a machine_scheme" where
  "release l s =
     (if \<not> holding l s then Inl (Panic ''release'')
      else popcli (s\<lparr>locks := (locks s)(l := \<lparr>lk_locked = 0, lk_cpu = None\<rparr>)\<rparr>))"

text \<open>
  The call stack recorded for debugging: at most ten return addresses along the chain of saved
  frame pointers, padded with zeros.
\<close>

fun callerpcs_from :: "memory \<Rightarrow> uint \<Rightarrow> nat \<Rightarrow> uint list" where
  "callerpcs_from m ebp 0 = []"
| "callerpcs_from m ebp (Suc k) =
     (if ebp = 0 \<or> ebp < KERNBASE \<or> ebp = 0xffffffff then replicate (Suc k) 0
      else load32 m (ebp + 4) # callerpcs_from m (load32 m ebp) k)"

definition getcallerpcs :: "memory \<Rightarrow> uint \<Rightarrow> uint list" where
  "getcallerpcs m v = callerpcs_from m (v - 8) 10"

section \<open>Taking and dropping a free lock\<close>

definition lock_free :: "lockid \<Rightarrow> 'a machine_scheme \<Rightarrow> bool" where
  "lock_free l s \<longleftrightarrow> locks s l = \<lparr>lk_locked = 0, lk_cpu = None\<rparr>"

text \<open>Interrupts are off whenever the nesting depth is positive, and the depth is never negative.\<close>

definition cli_ok :: "'a machine_scheme \<Rightarrow> bool" where
  "cli_ok s \<longleftrightarrow> 0 \<le> cpu_ncli (cpus s (mycpu s)) \<and>
     (0 < cpu_ncli (cpus s (mycpu s)) \<longrightarrow> \<not> cpu_if (cpus s (mycpu s)))"

text \<open>The processor after a matched pair of \<open>pushcli\<close> and \<open>popcli\<close>.\<close>

definition cli_visited :: "cpu \<Rightarrow> cpu" where
  "cli_visited c = c\<lparr>cpu_intena := (if cpu_ncli c = 0 then cpu_if c else cpu_intena c)\<rparr>"

definition after_cli :: "'a machine_scheme \<Rightarrow> 'a machine_scheme" where
  "after_cli s = s\<lparr>cpus := (cpus s)(mycpu s := cli_visited (cpus s (mycpu s)))\<rparr>"

definition with_lock :: "lockid \<Rightarrow> 'a machine_scheme \<Rightarrow> 'a machine_scheme" where
  "with_lock l s =
     (pushcli s)\<lparr>locks := (locks s)(l := \<lparr>lk_locked = 1, lk_cpu = Some (mycpu s)\<rparr>)\<rparr>"

lemma cli_visited_idem [simp]: "cli_visited (cli_visited c) = cli_visited c"
  by (simp add: cli_visited_def)

lemma after_cli_idem [simp]: "after_cli (after_cli s) = after_cli s"
  by (simp add: after_cli_def)

lemma after_cli_more [simp]:
  "locks (after_cli s) = locks s" "mycpu (after_cli s) = mycpu s"
  "machine.more (after_cli s) = machine.more s"
  by (simp_all add: after_cli_def)

lemma lock_free_after_cli [simp]: "lock_free l (after_cli s) = lock_free l s"
  by (simp add: lock_free_def)

lemma cli_ok_after_cli [simp]: "cli_ok (after_cli s) = cli_ok s"
  by (simp add: cli_ok_def after_cli_def cli_visited_def)

lemma acquire_free: "lock_free l s \<Longrightarrow> acquire l s = Inr (with_lock l s)"
  by (simp add: acquire_def with_lock_def lock_free_def holding_def pushcli_def Let_def)

lemma holding_with_lock [simp]: "holding l (with_lock l s)"
  by (simp add: holding_def with_lock_def pushcli_def Let_def)

lemma cpu_if_off: "\<not> cpu_if c \<Longrightarrow> c\<lparr>cpu_if := False\<rparr> = c"
  by (cases c) simp

text \<open>
  Dropping a lock at the end of a critical section that did not touch the locks or the
  processors gives back the locks of the state the section was entered from.
\<close>

lemma release_critical:
  assumes "lock_free l s" and "cli_ok s"
    and "locks t = locks (with_lock l s)" and "cpus t = cpus (with_lock l s)" and "mycpu t = mycpu s"
  shows "release l t = Inr (t\<lparr>locks := locks s, cpus := cpus (after_cli s)\<rparr>)"
proof -
  have h: "holding l t"
    using assms(3,5) by (simp add: holding_def with_lock_def)
  have restored: "(locks t)(l := \<lparr>lk_locked = 0, lk_cpu = None\<rparr>) = locks s"
    using assms(1,3) by (simp add: with_lock_def lock_free_def fun_eq_iff)
  have c: "cpus t = (cpus s)(mycpu s := (cpus s (mycpu s))\<lparr>cpu_if := False,
      cpu_ncli := cpu_ncli (cpus s (mycpu s)) + 1,
      cpu_intena := (if cpu_ncli (cpus s (mycpu s)) = 0 then cpu_if (cpus s (mycpu s))
        else cpu_intena (cpus s (mycpu s)))\<rparr>)"
    using assms(4) by (simp add: with_lock_def pushcli_def Let_def)
  show ?thesis
    using assms(2,5) h restored c
    by (auto simp: release_def popcli_def Let_def cli_ok_def after_cli_def cli_visited_def cpu_if_off)
qed

section \<open>Nested \<open>pushcli\<close> and \<open>popcli\<close>\<close>

datatype cliop = Push | Pop

fun run_cli :: "cliop list \<Rightarrow> 'a machine_scheme \<Rightarrow> kerror + 'a machine_scheme" where
  "run_cli [] s = Inr s"
| "run_cli (Push # ops) s = run_cli ops (pushcli s)"
| "run_cli (Pop # ops) s = bindE (popcli s) (run_cli ops)"

text \<open>The nesting depth after a sequence of calls, \<open>None\<close> when a \<open>popcli\<close> has no partner.\<close>

fun cli_depth :: "cliop list \<Rightarrow> nat \<Rightarrow> nat option" where
  "cli_depth [] d = Some d"
| "cli_depth (Push # ops) d = cli_depth ops (Suc d)"
| "cli_depth (Pop # ops) d = (case d of 0 \<Rightarrow> None | Suc e \<Rightarrow> cli_depth ops e)"

definition cli_at :: "bool \<Rightarrow> nat \<Rightarrow> 'a machine_scheme \<Rightarrow> bool" where
  "cli_at fl d s \<longleftrightarrow> cpu_ncli (cpus s (mycpu s)) = int d \<and>
     cpu_if (cpus s (mycpu s)) = (d = 0 \<and> fl) \<and> (0 < d \<longrightarrow> cpu_intena (cpus s (mycpu s)) = fl)"

lemma cli_at_push: "cli_at fl d s \<Longrightarrow> cli_at fl (Suc d) (pushcli s)"
  by (auto simp: cli_at_def pushcli_def Let_def)

lemma cli_at_pop: "cli_at fl (Suc d) s \<Longrightarrow> \<exists>t. popcli s = Inr t \<and> cli_at fl d t"
  by (auto simp: cli_at_def popcli_def Let_def)

lemma run_cli_depth:
  "cli_at fl d s \<Longrightarrow> cli_depth ops d = Some e \<Longrightarrow> \<exists>t. run_cli ops s = Inr t \<and> cli_at fl e t"
proof (induction ops arbitrary: d s)
  case (Cons opr ops)
  then show ?case
  proof (cases opr)
    case Push
    with Cons show ?thesis using cli_at_push by fastforce
  next
    case Pop
    with Cons.prems(2) obtain d' where d: "d = Suc d'" "cli_depth ops d' = Some e"
      by (auto split: nat.splits)
    with cli_at_pop Cons.prems(1) obtain u where "popcli s = Inr u" "cli_at fl d' u" by blast
    with Cons.IH [OF _ d(2)] Pop show ?thesis by auto
  qed
qed auto

section \<open>Several processors and one lock\<close>

text \<open>
  The instructions of \<open>acquire\<close> and \<open>release\<close> that touch shared memory,
  interleaved between processors. A processor is outside, has pushed and passed the
  \<open>holding\<close> check (\<open>Trying\<close>), has won the exchange but not yet recorded itself
  (\<open>Won\<close>), is in its critical section (\<open>Inside\<close>), or has cleared the owner and is
  about to clear the lock word (\<open>Leaving\<close>).
\<close>

datatype lkpc = Outside | Trying | Won | Inside | Leaving

record 'a mpstate =
  mp_mach :: "'a machine_scheme"
  mp_pc :: "nat \<Rightarrow> lkpc"

definition on_cpu :: "nat \<Rightarrow> 'a machine_scheme \<Rightarrow> 'a machine_scheme" where
  "on_cpu i s = s\<lparr>mycpu := i\<rparr>"

definition set_lock :: "lockid \<Rightarrow> spinlock \<Rightarrow> 'a machine_scheme \<Rightarrow> 'a machine_scheme" where
  "set_lock l k s = s\<lparr>locks := (locks s)(l := k)\<rparr>"

definition xchg_locked :: "lockid \<Rightarrow> uint \<Rightarrow> 'a machine_scheme \<Rightarrow> uint \<times> 'a machine_scheme" where
  "xchg_locked l v s = (lk_locked (locks s l), set_lock l ((locks s l)\<lparr>lk_locked := v\<rparr>) s)"

inductive lk_step :: "lockid \<Rightarrow> 'a mpstate \<Rightarrow> 'a mpstate \<Rightarrow> bool" for l where
  enter: "mp_pc s i = Outside \<Longrightarrow> m = pushcli (on_cpu i (mp_mach s)) \<Longrightarrow> \<not> holding l m \<Longrightarrow>
     lk_step l s \<lparr>mp_mach = m, mp_pc = (mp_pc s)(i := Trying)\<rparr>"
| spin: "mp_pc s i = Trying \<Longrightarrow> xchg_locked l 1 (on_cpu i (mp_mach s)) = (old, m) \<Longrightarrow> old \<noteq> 0 \<Longrightarrow>
     lk_step l s \<lparr>mp_mach = m, mp_pc = mp_pc s\<rparr>"
| win: "mp_pc s i = Trying \<Longrightarrow> xchg_locked l 1 (on_cpu i (mp_mach s)) = (0, m) \<Longrightarrow>
     lk_step l s \<lparr>mp_mach = m, mp_pc = (mp_pc s)(i := Won)\<rparr>"
| owner: "mp_pc s i = Won \<Longrightarrow> m = on_cpu i (mp_mach s) \<Longrightarrow>
     lk_step l s \<lparr>mp_mach = set_lock l ((locks m l)\<lparr>lk_cpu := Some i\<rparr>) m,
       mp_pc = (mp_pc s)(i := Inside)\<rparr>"
| disown: "mp_pc s i = Inside \<Longrightarrow> m = on_cpu i (mp_mach s) \<Longrightarrow> holding l m \<Longrightarrow>
     lk_step l s \<lparr>mp_mach = set_lock l ((locks m l)\<lparr>lk_cpu := None\<rparr>) m,
       mp_pc = (mp_pc s)(i := Leaving)\<rparr>"
| leave: "mp_pc s i = Leaving \<Longrightarrow> xchg_locked l 0 (on_cpu i (mp_mach s)) = (old, m) \<Longrightarrow>
     popcli m = Inr m' \<Longrightarrow>
     lk_step l s \<lparr>mp_mach = m', mp_pc = (mp_pc s)(i := Outside)\<rparr>"

inductive lk_reach :: "lockid \<Rightarrow> 'a mpstate \<Rightarrow> bool" for l where
  start: "locks (mp_mach s) l = \<lparr>lk_locked = 0, lk_cpu = None\<rparr> \<Longrightarrow> (\<forall>i. mp_pc s i = Outside) \<Longrightarrow>
     lk_reach l s"
| step: "lk_reach l s \<Longrightarrow> lk_step l s t \<Longrightarrow> lk_reach l t"

inductive_cases lk_stepE: "lk_step l s t"

definition owns :: "lkpc \<Rightarrow> bool" where
  "owns p \<longleftrightarrow> p = Won \<or> p = Inside \<or> p = Leaving"

lemma owns_simps [simp]:
  "\<not> owns Outside" "\<not> owns Trying" "owns Won" "owns Inside" "owns Leaving"
  by (simp_all add: owns_def)

text \<open>
  The invariant: the lock word is set exactly while some processor is between its winning
  exchange and its clearing exchange, at most one is, and the recorded owner is the processor
  inside.
\<close>

definition lk_inv :: "lockid \<Rightarrow> 'a mpstate \<Rightarrow> bool" where
  "lk_inv l s \<longleftrightarrow>
     (\<forall>i j. owns (mp_pc s i) \<longrightarrow> owns (mp_pc s j) \<longrightarrow> i = j) \<and>
     (lk_locked (locks (mp_mach s) l) \<noteq> 0 \<longleftrightarrow> (\<exists>i. owns (mp_pc s i))) \<and>
     (\<forall>i. lk_cpu (locks (mp_mach s) l) = Some i \<longleftrightarrow> mp_pc s i = Inside)"

lemma locks_pushcli [simp]: "locks (pushcli s) = locks s"
  by (simp add: pushcli_def Let_def)

lemma locks_popcli: "popcli s = Inr t \<Longrightarrow> locks t = locks s"
  by (auto simp: popcli_def Let_def split: if_splits)

lemma on_cpu_simps [simp]:
  "locks (on_cpu i s) = locks s" "mycpu (on_cpu i s) = i" "cpus (on_cpu i s) = cpus s"
  by (simp_all add: on_cpu_def)

lemma set_lock_locks [simp]: "locks (set_lock l k s) = (locks s)(l := k)"
  by (simp add: set_lock_def)

lemma lk_step_inv: "lk_step l s t \<Longrightarrow> lk_inv l s \<Longrightarrow> lk_inv l t"
proof (induction rule: lk_step.induct)
  case (enter s i m)
  then show ?case by (auto simp: lk_inv_def) (metis owns_simps(1))+
next
  case (spin s i old m)
  then show ?case by (auto simp: lk_inv_def xchg_locked_def)
next
  case (win s i m)
  then show ?case by (auto simp: lk_inv_def xchg_locked_def)
next
  case (owner s i m)
  then show ?case
    by (auto simp: lk_inv_def) (metis owns_simps(3,4))+
next
  case (disown s i m)
  then show ?case
    by (auto simp: lk_inv_def) (metis owns_simps(4,5))+
next
  case (leave s i old m m')
  then show ?case
    by (auto simp: lk_inv_def xchg_locked_def dest!: locks_popcli)
qed

lemma lk_reach_inv: "lk_reach l s \<Longrightarrow> lk_inv l s"
proof (induction rule: lk_reach.induct)
  case (start s)
  then show ?case by (simp add: lk_inv_def)
next
  case (step s t)
  then show ?case by (blast intro: lk_step_inv)
qed

lemma on_cpu_same: "mycpu s = i \<Longrightarrow> on_cpu i s = s"
  by (simp add: on_cpu_def)

lemma mycpu_pushcli [simp]: "mycpu (pushcli s) = mycpu s"
  by (simp add: pushcli_def Let_def)

lemma mycpu_set_lock [simp]: "mycpu (set_lock l k s) = mycpu s"
  by (simp add: set_lock_def)

lemma spinlock_update_all:
  "(k :: spinlock)\<lparr>lk_locked := a, lk_cpu := b\<rparr> = \<lparr>lk_locked = a, lk_cpu = b\<rparr>"
  by (cases k) simp

lemma acquire_steps:
  assumes pc: "mp_pc s i = Outside" and acq: "acquire l (on_cpu i (mp_mach s)) = Inr m'"
  shows "(lk_step l)\<^sup>*\<^sup>* s \<lparr>mp_mach = m', mp_pc = (mp_pc s)(i := Inside)\<rparr>"
proof -
  let ?m1 = "pushcli (on_cpu i (mp_mach s))"
  let ?m2 = "set_lock l ((locks ?m1 l)\<lparr>lk_locked := 1\<rparr>) ?m1"
  let ?s1 = "\<lparr>mp_mach = ?m1, mp_pc = (mp_pc s)(i := Trying)\<rparr>"
  let ?s2 = "\<lparr>mp_mach = ?m2, mp_pc = (mp_pc s)(i := Won)\<rparr>"
  from acq have nh: "\<not> holding l ?m1" and free: "lk_locked (locks ?m1 l) = 0"
    and m': "m' = ?m1\<lparr>locks := (locks ?m1)(l := \<lparr>lk_locked = 1, lk_cpu = Some i\<rparr>)\<rparr>"
    by (auto simp: acquire_def Let_def split: if_splits)
  have "lk_step l s ?s1" using pc nh by (rule lk_step.enter [OF _ refl])
  moreover have "lk_step l ?s1 ?s2"
    using lk_step.win [of ?s1 i l ?m2] free by (simp add: xchg_locked_def on_cpu_same)
  moreover have "lk_step l ?s2 \<lparr>mp_mach = m', mp_pc = (mp_pc s)(i := Inside)\<rparr>"
    using lk_step.owner [of ?s2 i ?m2 l] by (simp add: m' on_cpu_same set_lock_def spinlock_update_all)
  ultimately show ?thesis by auto
qed

lemma acquire_reach:
  assumes "lk_reach l s" and "mp_pc s i = Outside" and "acquire l (on_cpu i (mp_mach s)) = Inr m"
  shows "lk_reach l \<lparr>mp_mach = m, mp_pc = (mp_pc s)(i := Inside)\<rparr>"
  using acquire_steps [OF assms(2,3)] assms(1)
  by (induction rule: rtranclp_induct) (auto intro: lk_reach.step)

section \<open>Properties\<close>

text \<open>
  (C2) Mutual exclusion: whatever the interleaving of the processors, at most one of them is
  inside the critical section of a lock, and the lock records it as the holder, so the
  \<open>holding\<close> test of its \<open>release\<close> passes.
\<close>

theorem spinlock_mutual_exclusion:
  assumes "lk_reach l s" and "mp_pc s i = Inside" and "mp_pc s j = Inside"
  shows "i = j \<and> holding l (on_cpu i (mp_mach s))"
proof -
  have inv: "lk_inv l s" using assms(1) by (rule lk_reach_inv)
  with assms(2,3) have "i = j" by (auto simp: lk_inv_def)
  moreover have "lk_locked (locks (mp_mach s) l) \<noteq> 0"
    using inv assms(2) unfolding lk_inv_def by (metis owns_simps(4))
  ultimately show ?thesis
    using inv assms(2) by (simp add: lk_inv_def holding_def)
qed

definition two_cpus :: "unit mpstate" where
  "two_cpus = \<lparr>mp_mach = \<lparr>locks = (\<lambda>_. \<lparr>lk_locked = 0, lk_cpu = None\<rparr>),
     cpus = (\<lambda>_. \<lparr>cpu_ncli = 0, cpu_intena = False, cpu_if = True\<rparr>), mycpu = 0\<rparr>,
     mp_pc = (\<lambda>_. Outside)\<rparr>"

theorem spinlock_mutual_exclusion_witness:
  "\<exists>s :: unit mpstate. lk_reach KmemLock s \<and> mp_pc s 1 = Inside \<and>
     holding KmemLock (on_cpu 1 (mp_mach s))"
proof -
  let ?m = "on_cpu 1 (mp_mach two_cpus)"
  let ?s = "\<lparr>mp_mach = with_lock KmemLock ?m, mp_pc = (mp_pc two_cpus)(1 := Inside)\<rparr>"
  have "lk_reach KmemLock two_cpus"
    by (rule lk_reach.start) (simp_all add: two_cpus_def)
  then have r: "lk_reach KmemLock ?s"
    by (rule acquire_reach)
      (simp_all add: acquire_free lock_free_def two_cpus_def)
  show ?thesis
    using r spinlock_mutual_exclusion [OF r, of 1 1] by (intro exI [of _ ?s]) simp
qed





end
