(* ===== verification/Kalloc.thy ===== *)
theory Kalloc
  imports Spinlock
begin

text \<open>
  The physical page allocator of \<^verbatim>\<open>kalloc.c\<close> (lines 1 to 102; the shared memory
  half of that file is theory \<open>Shm\<close>). The free pages form a linked list threaded through
  their own first words, so the list lives in \<open>ram\<close>; the abstract contract, a stack of
  free pages, is the locale \<open>page_allocator\<close> and is interpreted on \<open>kalloc\<close>
  and \<open>kfree\<close>.
\<close>

section \<open>State and operations\<close>

text \<open>\<open>sym_end\<close> is the linker symbol \<^verbatim>\<open>end\<close>: no operation changes it.\<close>

record kmem = machine +
  ram :: memory
  freelist :: uint
  use_lock :: bool
  sym_end :: uint

definition kfree :: "uint \<Rightarrow> 'a kmem_scheme \<Rightarrow> kerror + 'a kmem_scheme" where
  "kfree v s =
     (if v mod PGSIZE \<noteq> 0 \<or> v < sym_end s \<or> v2p v \<ge> PHYSTOP then Inl (Panic ''kfree'')
      else
        let s = s\<lparr>ram := memset (ram s) v 1 PGSIZE\<rparr>
        in bindE (if use_lock s then acquire KmemLock s else Inr s) (\<lambda>s.
           let r = v;
               s = s\<lparr>ram := store32 (ram s) r (freelist s)\<rparr>;
               s = s\<lparr>freelist := r\<rparr>
           in if use_lock s then release KmemLock s else Inr s))"

definition kalloc :: "'a kmem_scheme \<Rightarrow> kerror + (uint \<times> 'a kmem_scheme)" where
  "kalloc s =
     bindE (if use_lock s then acquire KmemLock s else Inr s) (\<lambda>s.
     let r = freelist s;
         s = (if r \<noteq> 0 then s\<lparr>freelist := load32 (ram s) r\<rparr> else s)
     in bindE (if use_lock s then release KmemLock s else Inr s) (\<lambda>s. Inr (r, s)))"

lemma kfree_Inr_bound:
  assumes "kfree v s = Inr t"
  shows "unat v + 4096 < 2 ^ 32"
proof -
  have "v2p v < PHYSTOP" using assms by (auto simp: kfree_def split: if_splits)
  then show ?thesis
    by (auto simp: v2p_def word_less_nat_alt unat_sub_if' split: if_splits)
qed

function freerange_loop :: "uint \<Rightarrow> uint \<Rightarrow> 'a kmem_scheme \<Rightarrow> kerror + 'a kmem_scheme" where
  "freerange_loop p vend s =
     (if p + PGSIZE \<le> vend
      then bindE (kfree p s) (\<lambda>s. freerange_loop (p + PGSIZE) vend s)
      else Inr s)"
  by pat_completeness auto
termination
proof (relation "measure (\<lambda>(p, vend, s). 2 ^ 32 - unat p)")
  fix p vend and s x :: "'a kmem_scheme"
  assume "kfree p s = Inr x"
  then have b: "unat p + 4096 < 2 ^ 32" by (rule kfree_Inr_bound)
  then have "unat (p + PGSIZE) = unat p + 4096"
    by (subst unat_add_lem [THEN iffD1]) simp_all
  with b show "((p + PGSIZE, vend, x), p, vend, s) \<in> measure (\<lambda>(p, vend, s). 2 ^ 32 - unat p)"
    by simp
qed simp

declare freerange_loop.simps [simp del]

definition freerange :: "uint \<Rightarrow> uint \<Rightarrow> 'a kmem_scheme \<Rightarrow> kerror + 'a kmem_scheme" where
  "freerange vstart vend s = freerange_loop (PGROUNDUP vstart) vend s"

definition kinit1 :: "uint \<Rightarrow> uint \<Rightarrow> 'a kmem_scheme \<Rightarrow> kerror + 'a kmem_scheme" where
  "kinit1 vstart vend s = freerange vstart vend ((initlock KmemLock s)\<lparr>use_lock := False\<rparr>)"

definition kinit2 :: "uint \<Rightarrow> uint \<Rightarrow> 'a kmem_scheme \<Rightarrow> kerror + 'a kmem_scheme" where
  "kinit2 vstart vend s = bindE (freerange vstart vend s) (\<lambda>s. Inr (s\<lparr>use_lock := True\<rparr>))"

section \<open>Closed forms\<close>

text \<open>
  \<open>kpage\<close> is the condition under which \<open>kfree\<close> does not panic; \<open>kready\<close>
  that taking the allocator's lock, when it is in use, succeeds; \<open>visited\<close> is the
  state after the lock was taken and dropped.
\<close>

definition kpage :: "'a kmem_scheme \<Rightarrow> uint \<Rightarrow> bool" where
  "kpage s v \<longleftrightarrow> aligned v \<and> sym_end s \<le> v \<and> v2p v < PHYSTOP"

definition kready :: "'a kmem_scheme \<Rightarrow> bool" where
  "kready s \<longleftrightarrow> use_lock s \<longrightarrow> lock_free KmemLock s \<and> cli_ok s"

definition visited :: "'a kmem_scheme \<Rightarrow> 'a kmem_scheme" where
  "visited s = (if use_lock s then after_cli s else s)"

lemma after_cli_kmem [simp]:
  "ram (after_cli s) = ram s" "freelist (after_cli s) = freelist s"
  "use_lock (after_cli s) = use_lock s" "sym_end (after_cli s) = sym_end s"
  "kmem.more (after_cli s) = kmem.more s"
  by (simp_all add: after_cli_def)

lemma with_lock_kmem [simp]:
  "ram (with_lock l s) = ram s" "freelist (with_lock l s) = freelist s"
  "use_lock (with_lock l s) = use_lock s" "sym_end (with_lock l s) = sym_end s"
  "mycpu (with_lock l s) = mycpu s"
  by (simp_all add: with_lock_def pushcli_def Let_def)

lemma visited_kmem [simp]:
  "ram (visited s) = ram s" "freelist (visited s) = freelist s" "use_lock (visited s) = use_lock s"
  "sym_end (visited s) = sym_end s" "locks (visited s) = locks s" "mycpu (visited s) = mycpu s"
  "visited (visited s) = visited s"
  by (simp_all add: visited_def)

lemma kready_visited [simp]: "kready (visited s) = kready s"
  by (simp add: kready_def visited_def)

lemma kready_update [simp]:
  "kready (s\<lparr>ram := m\<rparr>) = kready s" "kready (s\<lparr>freelist := f\<rparr>) = kready s"
  by (simp_all add: kready_def lock_free_def cli_ok_def)

lemma kpage_update [simp]:
  "kpage (s\<lparr>ram := m\<rparr>) = kpage s" "kpage (s\<lparr>freelist := f\<rparr>) = kpage s"
  "kpage (visited s) = kpage s"
  by (simp_all add: kpage_def fun_eq_iff)

lemma kmem_release:
  fixes s t :: "'a kmem_scheme"
  assumes "lock_free KmemLock s" and "cli_ok s" and "t = (with_lock KmemLock s)\<lparr>ram := m, freelist := f\<rparr>"
  shows "release KmemLock t = Inr ((after_cli s)\<lparr>ram := m, freelist := f\<rparr>)"
proof -
  have "release KmemLock t = Inr (t\<lparr>locks := locks s, cpus := cpus (after_cli s)\<rparr>)"
    using assms by (intro release_critical) simp_all
  then show ?thesis
    using assms(3) by (simp add: with_lock_def pushcli_def after_cli_def Let_def)
qed

lemma kmem_self_update:
  "(with_lock l s)\<lparr>freelist := f\<rparr> = (with_lock l s)\<lparr>ram := ram s, freelist := f\<rparr>"
  "with_lock l s = (with_lock l s)\<lparr>ram := ram s, freelist := freelist s\<rparr>"
  by (simp_all add: with_lock_def pushcli_def Let_def)

lemma kalloc_eq:
  assumes "kready s"
  shows "kalloc s = Inr (freelist s, (visited s)\<lparr>freelist :=
    if freelist s = 0 then 0 else load32 (ram s) (freelist s)\<rparr>)"
proof (cases "use_lock s")
  case True
  with assms have l: "lock_free KmemLock s" "cli_ok s" by (auto simp: kready_def)
  note rel = kmem_release [OF l kmem_self_update(1)] kmem_release [OF l kmem_self_update(2)]
  show ?thesis
    using True by (auto simp: kalloc_def acquire_free [OF l(1)] Let_def rel visited_def)
next
  case False
  then show ?thesis by (simp add: kalloc_def visited_def Let_def)
qed

lemma kfree_eq:
  assumes "kready s" and "kpage s v"
  shows "kfree v s = Inr ((visited s)\<lparr>ram := store32 (fill (ram s) v 1 PGSIZE) v (freelist s),
    freelist := v\<rparr>)"
proof (cases "use_lock s")
  case True
  let ?s = "s\<lparr>ram := fill (ram s) v 1 PGSIZE\<rparr>"
  from True assms have l: "lock_free KmemLock ?s" "cli_ok ?s"
    by (auto simp: kready_def lock_free_def cli_ok_def)
  note rel = kmem_release [OF l refl]
  show ?thesis
    using True assms(2)
    by (auto simp: kfree_def kpage_def aligned_def acquire_free [OF l(1)] Let_def rel visited_def
        memset_fill after_cli_def not_less not_le)
next
  case False
  then show ?thesis
    using assms(2)
    by (auto simp: kfree_def visited_def kpage_def aligned_def memset_fill Let_def not_less not_le)
qed

lemma kfree_panic: "\<not> kpage s v \<Longrightarrow> kfree v s = Inl (Panic ''kfree'')"
  by (auto simp: kfree_def kpage_def aligned_def not_less not_le)

section \<open>The free list\<close>

text \<open>The pages \<open>ps\<close> are threaded from \<open>r\<close> through their first words.\<close>

fun threaded :: "memory \<Rightarrow> uint \<Rightarrow> uint list \<Rightarrow> bool" where
  "threaded m r [] \<longleftrightarrow> r = 0"
| "threaded m r (p # ps) \<longleftrightarrow> r = p \<and> p \<noteq> 0 \<and> threaded m (load32 m p) ps"

lemma threaded_unique: "threaded m r ps \<Longrightarrow> threaded m r qs \<Longrightarrow> ps = qs"
proof (induction ps arbitrary: r qs)
  case Nil
  then show ?case by (cases qs) auto
next
  case (Cons p ps)
  then show ?case by (cases qs) auto
qed

lemma threaded_cong:
  "threaded m r ps \<Longrightarrow> (\<And>p. p \<in> set ps \<Longrightarrow> load32 m' p = load32 m p) \<Longrightarrow> threaded m' r ps"
  by (induction ps arbitrary: r) auto

text \<open>
  \<open>pool s ps\<close>: the allocator of state \<open>s\<close> is ready for use and its free list holds
  exactly the pages \<open>ps\<close>, all different and all acceptable to \<open>kfree\<close>.
\<close>

definition pool :: "'a kmem_scheme \<Rightarrow> uint list \<Rightarrow> bool" where
  "pool s ps \<longleftrightarrow> kready s \<and> KERNBASE \<le> sym_end s \<and> threaded (ram s) (freelist s) ps \<and>
     distinct ps \<and> (\<forall>p\<in>set ps. kpage s p)"

lemma kpage_nonzero: "KERNBASE \<le> sym_end s \<Longrightarrow> kpage s v \<Longrightarrow> v \<noteq> 0"
  by (auto simp: kpage_def)

lemma kpage_aligned: "kpage s v \<Longrightarrow> aligned v"
  by (simp add: kpage_def)

lemma pool_distinct: "pool s ps \<Longrightarrow> distinct ps"
  by (simp add: pool_def)

lemma pool_kpage: "pool s ps \<Longrightarrow> p \<in> set ps \<Longrightarrow> kpage s p"
  by (simp add: pool_def)

lemma pool_unique: "pool s ps \<Longrightarrow> pool s qs \<Longrightarrow> ps = qs"
  by (auto simp: pool_def dest: threaded_unique)

lemma pool_freelist: "pool s ps \<Longrightarrow> freelist s = (case ps of [] \<Rightarrow> 0 | p # _ \<Rightarrow> p)"
  by (cases ps) (auto simp: pool_def)

lemma kalloc_pool_Nil: "pool s [] \<Longrightarrow> kalloc s = Inr (0, (visited s)\<lparr>freelist := 0\<rparr>) \<and>
    pool ((visited s)\<lparr>freelist := 0\<rparr>) []"
  by (auto simp: pool_def kalloc_eq)

lemma kalloc_pool_Cons:
  assumes "pool s (p # ps)"
  defines "t \<equiv> (visited s)\<lparr>freelist := load32 (ram s) p\<rparr>"
  shows "kalloc s = Inr (p, t) \<and> pool t ps"
  using assms by (auto simp: pool_def kalloc_eq)

lemma pool_ram_cong:
  assumes "pool s ps" and "\<And>x. PGROUNDDOWN x \<in> set ps \<Longrightarrow> m x = ram s x"
  shows "pool (s\<lparr>ram := m\<rparr>) ps"
proof -
  have "load32 m p = load32 (ram s) p" if "p \<in> set ps" for p
  proof (rule load32_page_cong)
    have "aligned p" using assms(1) that by (auto simp: pool_def kpage_def)
    then show "aligned4 p" by (rule aligned_aligned4)
    show "m x = ram s x" if "PGROUNDDOWN x = PGROUNDDOWN p" for x
      using that \<open>p \<in> set ps\<close> \<open>aligned p\<close> by (simp add: assms(2) PGROUNDDOWN_aligned)
  qed
  then show ?thesis
    using assms(1) by (auto simp: pool_def intro: threaded_cong)
qed

lemma kfree_pool:
  assumes "pool s ps" and "kpage s v" and "v \<notin> set ps"
  defines "t \<equiv> (visited s)\<lparr>ram := store32 (fill (ram s) v 1 PGSIZE) v (freelist s), freelist := v\<rparr>"
  shows "kfree v s = Inr t \<and> pool t (v # ps)"
proof
  show "kfree v s = Inr t" using assms by (simp add: pool_def kfree_eq)
  have v: "aligned v" "aligned4 v" using assms(2) by (auto simp: kpage_def aligned_aligned4)
  have "pool (s\<lparr>ram := store32 (fill (ram s) v 1 PGSIZE) v (freelist s)\<rparr>) ps"
  proof (rule pool_ram_cong [OF assms(1)])
    fix x
    assume "PGROUNDDOWN x \<in> set ps"
    with assms(3) v(1) have "PGROUNDDOWN x \<noteq> PGROUNDDOWN v" by (auto simp: PGROUNDDOWN_aligned)
    then show "store32 (fill (ram s) v 1 PGSIZE) v (freelist s) x = ram s x"
      using v by (simp add: store32_page_frame fill_page PGROUNDDOWN_aligned)
  qed
  then show "pool t (v # ps)"
    using assms kpage_nonzero [of s v] by (auto simp: pool_def t_def)
qed

section \<open>What the allocator leaves alone\<close>

text \<open>
  \<open>kframe s t\<close>: \<open>t\<close> differs from \<open>s\<close> only in memory, in the head
  of the free list and in the bookkeeping of a lock that was taken and dropped.
\<close>

definition kframe :: "'a kmem_scheme \<Rightarrow> 'a kmem_scheme \<Rightarrow> bool" where
  "kframe s t \<longleftrightarrow> locks t = locks s \<and> mycpu t = mycpu s \<and> use_lock t = use_lock s \<and>
     sym_end t = sym_end s \<and> kmem.more t = kmem.more s \<and>
     (cpus t = cpus s \<or> cpus t = cpus (after_cli s))"

lemma visited_update [simp]:
  "visited (s\<lparr>ram := m\<rparr>) = (visited s)\<lparr>ram := m\<rparr>"
  "visited (s\<lparr>freelist := f\<rparr>) = (visited s)\<lparr>freelist := f\<rparr>"
  by (simp_all add: visited_def after_cli_def)

lemma kframe_refl [simp]: "kframe s s"
  by (simp add: kframe_def)

lemma kframe_trans: "kframe s t \<Longrightarrow> kframe t u \<Longrightarrow> kframe s u"
  unfolding kframe_def after_cli_def by auto

lemma kframe_visited [simp]: "kframe s (visited s)"
  by (simp add: kframe_def visited_def)

lemma kframe_ram [simp]: "kframe s (t\<lparr>ram := m\<rparr>) = kframe s t"
  and kframe_freelist [simp]: "kframe s (t\<lparr>freelist := f\<rparr>) = kframe s t"
  by (simp_all add: kframe_def)

lemma kframe_kpage: "kframe s t \<Longrightarrow> kpage t = kpage s"
  by (simp add: kframe_def kpage_def fun_eq_iff)

lemma kframe_kready: "kframe s t \<Longrightarrow> kready t = kready s"
  unfolding kframe_def kready_def lock_free_def cli_ok_def after_cli_def cli_visited_def by auto

lemma kframe_sym_end: "kframe s t \<Longrightarrow> sym_end t = sym_end s"
  and kframe_locks: "kframe s t \<Longrightarrow> locks t = locks s"
  by (simp_all add: kframe_def)

lemma kframe_pool: "kframe s t \<Longrightarrow> ram t = ram s \<Longrightarrow> freelist t = freelist s \<Longrightarrow> pool t ps = pool s ps"
  by (simp add: pool_def kframe_kpage kframe_kready kframe_sym_end)

section \<open>The contract of a page allocator\<close>

fun alloc_seq :: "('s \<Rightarrow> kerror + (uint \<times> 's)) \<Rightarrow> nat \<Rightarrow> 's \<Rightarrow> kerror + (uint list \<times> 's)" where
  "alloc_seq alloc 0 s = Inr ([], s)"
| "alloc_seq alloc (Suc n) s =
     bindE (alloc s) (\<lambda>(p, s). bindE (alloc_seq alloc n s) (\<lambda>(ps, s). Inr (p # ps, s)))"

fun free_seq :: "(uint \<Rightarrow> 's \<Rightarrow> kerror + 's) \<Rightarrow> uint list \<Rightarrow> 's \<Rightarrow> kerror + 's" where
  "free_seq free [] s = Inr s"
| "free_seq free (p # ps) s = bindE (free p s) (free_seq free ps)"

text \<open>
  A client of the allocator sees a stack of free pages: allocation pops it (and gives the null
  pointer when it is empty) without touching memory, freeing pushes onto it and overwrites
  only the page freed; both leave the rest of the state alone.
\<close>

locale page_allocator =
  fixes alloc :: "'s \<Rightarrow> kerror + (uint \<times> 's)"
    and free :: "uint \<Rightarrow> 's \<Rightarrow> kerror + 's"
    and free_pages :: "'s \<Rightarrow> uint list \<Rightarrow> bool"
    and acceptable :: "'s \<Rightarrow> uint \<Rightarrow> bool"
    and contents :: "'s \<Rightarrow> memory"
    and untouched :: "'s \<Rightarrow> 's \<Rightarrow> bool"
  assumes alloc_empty: "free_pages s [] \<Longrightarrow>
      \<exists>t. alloc s = Inr (0, t) \<and> free_pages t [] \<and> contents t = contents s \<and> untouched s t"
    and alloc_pop: "free_pages s (p # ps) \<Longrightarrow>
      \<exists>t. alloc s = Inr (p, t) \<and> free_pages t ps \<and> contents t = contents s \<and> untouched s t"
    and free_push: "free_pages s ps \<Longrightarrow> acceptable s p \<Longrightarrow> p \<notin> set ps \<Longrightarrow>
      \<exists>t. free p s = Inr t \<and> free_pages t (p # ps) \<and> untouched s t \<and>
        (\<forall>x. PGROUNDDOWN x \<noteq> p \<longrightarrow> contents t x = contents s x)"
    and free_pages_ok: "free_pages s ps \<Longrightarrow> distinct ps \<and> (\<forall>p\<in>set ps. p \<noteq> 0 \<and> acceptable s p)"
    and untouched_acceptable: "untouched s t \<Longrightarrow> acceptable t = acceptable s"
    and untouched_refl: "untouched s s"
    and untouched_trans: "untouched s t \<Longrightarrow> untouched t u \<Longrightarrow> untouched s u"
begin

lemma alloc_many:
  "free_pages s (ps @ qs) \<Longrightarrow> \<exists>t. alloc_seq alloc (length ps) s = Inr (ps, t) \<and> free_pages t qs \<and>
     contents t = contents s \<and> untouched s t"
proof (induction ps arbitrary: s)
  case Nil
  then show ?case by (auto intro: untouched_refl)
next
  case (Cons p ps)
  then obtain t where t: "alloc s = Inr (p, t)" "free_pages t (ps @ qs)" "contents t = contents s"
      "untouched s t"
    using alloc_pop [of s p "ps @ qs"] by auto
  with Cons.IH obtain u where "alloc_seq alloc (length ps) t = Inr (ps, u)" "free_pages u qs"
      "contents u = contents t" "untouched t u"
    by blast
  with t show ?case using untouched_trans [of s t u] by simp
qed

lemma free_many:
  assumes "free_pages s qs" and "distinct ps" and "set ps \<inter> set qs = {}"
    and "\<forall>p\<in>set ps. acceptable s p"
  shows "\<exists>t. free_seq free ps s = Inr t \<and> free_pages t (rev ps @ qs) \<and> untouched s t \<and>
    (\<forall>x. PGROUNDDOWN x \<notin> set ps \<longrightarrow> contents t x = contents s x)"
  using assms
proof (induction ps arbitrary: s qs)
  case Nil
  then show ?case by (auto intro: untouched_refl)
next
  case (Cons p ps)
  then obtain t where t: "free p s = Inr t" "free_pages t (p # qs)" "untouched s t"
      "\<forall>x. PGROUNDDOWN x \<noteq> p \<longrightarrow> contents t x = contents s x"
    using free_push [of s qs p] by auto
  with Cons.prems obtain u where "free_seq free ps t = Inr u" "free_pages u (rev ps @ p # qs)"
      "untouched t u" "\<forall>x. PGROUNDDOWN x \<notin> set ps \<longrightarrow> contents u x = contents t x"
    using Cons.IH [of t "p # qs"] untouched_acceptable [of s t] by auto
  with t show ?case using untouched_trans [of s t u] by simp
qed

lemma alloc_then_free:
  assumes "free_pages s (p # ps)"
  shows "\<exists>t u. alloc s = Inr (p, t) \<and> free p t = Inr u \<and> free_pages u (p # ps) \<and> untouched s u"
proof -
  obtain t where t: "alloc s = Inr (p, t)" "free_pages t ps" "untouched s t"
    using alloc_pop [OF assms] by blast
  have "acceptable t p" "p \<notin> set ps"
    using free_pages_ok [OF assms] untouched_acceptable [OF t(3)] by auto
  with free_push [OF t(2)] t show ?thesis using untouched_trans by blast
qed

end

interpretation kmem_alloc: page_allocator kalloc kfree pool kpage ram kframe
proof unfold_locales
  fix s :: "'a kmem_scheme"
  assume "pool s []"
  from kalloc_pool_Nil [OF this]
  show "\<exists>t. kalloc s = Inr (0, t) \<and> pool t [] \<and> ram t = ram s \<and> kframe s t" by auto
next
  fix s :: "'a kmem_scheme" and p ps
  assume "pool s (p # ps)"
  from kalloc_pool_Cons [OF this]
  show "\<exists>t. kalloc s = Inr (p, t) \<and> pool t ps \<and> ram t = ram s \<and> kframe s t" by auto
next
  fix s :: "'a kmem_scheme" and p ps
  assume a: "pool s ps" "kpage s p" "p \<notin> set ps"
  let ?m = "store32 (fill (ram s) p 1 PGSIZE) p (freelist s)"
  have "?m x = ram s x" if "PGROUNDDOWN x \<noteq> p" for x
    using that kpage_aligned [OF a(2)]
    by (simp add: store32_page_frame aligned_aligned4 PGROUNDDOWN_aligned fill_page)
  with kfree_pool [OF a]
  show "\<exists>t. kfree p s = Inr t \<and> pool t (p # ps) \<and> kframe s t \<and>
      (\<forall>x. PGROUNDDOWN x \<noteq> p \<longrightarrow> ram t x = ram s x)"
    by auto
qed (auto simp: pool_def kframe_kpage dest: kpage_nonzero intro: kframe_trans)

section \<open>Freeing a range\<close>

definition page_range :: "uint \<Rightarrow> nat \<Rightarrow> uint list" where
  "page_range p n = map (\<lambda>i. p + of_nat (4096 * i)) [0..<n]"

lemma page_range_Suc: "page_range p (Suc n) = p # page_range (p + PGSIZE) n"
  by (simp add: page_range_def map_upt_Suc add.assoc del: upt_Suc)

lemma page_range_0 [simp]: "page_range p 0 = []"
  by (simp add: page_range_def)

lemma unat_page_range:
  fixes p :: uint
  assumes "unat p + 4096 * n < 2 ^ 32" and "i < n"
  shows "unat (p + of_nat (4096 * i)) = unat p + 4096 * i"
proof -
  have "4096 * i < 2 ^ 32" "unat p + 4096 * i < 2 ^ 32" using assms by auto
  then show ?thesis by (simp add: unat_word_ariths unat_of_nat)
qed

lemma distinct_page_range:
  assumes "unat p + 4096 * n < 2 ^ 32"
  shows "distinct (page_range p n)"
proof -
  have "inj_on (\<lambda>i. p + of_nat (4096 * i)) {0..<n}"
  proof (rule inj_onI)
    fix i j
    assume ij: "i \<in> {0..<n}" "j \<in> {0..<n}" and eq: "p + of_nat (4096 * i) = p + of_nat (4096 * j)"
    have "i < n" "j < n" using ij by auto
    then have "unat p + 4096 * i = unat p + 4096 * j"
      using unat_page_range [OF assms] arg_cong [OF eq, of unat] by (simp only:)
    then show "i = j" by simp
  qed
  then show ?thesis by (simp add: page_range_def distinct_map)
qed

lemma freerange_loop_seq:
  fixes s :: "'a kmem_scheme"
  assumes "unat p + 4096 * n \<le> unat vend" and "unat vend < unat p + 4096 * Suc n"
    and "unat vend + 4096 < 2 ^ 32"
  shows "freerange_loop p vend s = free_seq kfree (page_range p n) s"
  using assms
proof (induction n arbitrary: p s)
  case 0
  then have "unat (p + PGSIZE) = unat p + 4096" by (simp add: unat_word_ariths)
  with 0 have "\<not> p + PGSIZE \<le> vend" by (simp add: word_le_nat_alt)
  then show ?case by (simp add: freerange_loop.simps [of p])
next
  case (Suc n)
  then have u: "unat (p + PGSIZE) = unat p + 4096" by (simp add: unat_word_ariths)
  with Suc have "p + PGSIZE \<le> vend" by (simp add: word_le_nat_alt)
  moreover have "freerange_loop (p + PGSIZE) vend t = free_seq kfree (page_range (p + PGSIZE) n) t"
    for t :: "'a kmem_scheme"
    using Suc.prems u by (intro Suc.IH) auto
  ultimately show ?case by (simp add: freerange_loop.simps [of p] page_range_Suc cong: bindE_cong)
qed

text \<open>The number of whole pages between \<open>vstart\<close> and \<open>vend\<close>.\<close>

definition whole_pages :: "uint \<Rightarrow> uint \<Rightarrow> nat" where
  "whole_pages vstart vend = (unat vend - unat (PGROUNDUP vstart)) div 4096"

lemma kpage_in_range:
  assumes "unat vstart + 4095 < 2 ^ 32" and "sym_end s \<le> vstart" and "KERNBASE \<le> sym_end s"
    and "vend \<le> KERNBASE + PHYSTOP" and "PGROUNDUP vstart \<le> vend"
    and "p \<in> set (page_range (PGROUNDUP vstart) (whole_pages vstart vend))"
  shows "kpage s p"
proof -
  let ?b = "PGROUNDUP vstart"
  obtain i where i: "i < whole_pages vstart vend" and p: "p = ?b + of_nat (4096 * i)"
    using assms(6) by (auto simp: page_range_def)
  have vend: "unat vend \<le> 0x8E000000" using assms(4) by (simp add: word_le_nat_alt)
  have w: "unat ?b + 4096 * whole_pages vstart vend \<le> unat vend"
    using assms(5) by (simp add: whole_pages_def word_le_nat_alt)
  have u: "unat p = unat ?b + 4096 * i"
    unfolding p using w i vend by (intro unat_page_range) auto
  have b: "unat vstart \<le> unat ?b" using assms(1) by (simp add: unat_PGROUNDUP)
  have "aligned p"
    using u aligned_PGROUNDUP [of vstart] by (simp add: aligned_unat)
  moreover have "sym_end s \<le> p" using assms(2) b u by (simp add: word_le_nat_alt)
  moreover have "unat p + 4096 \<le> 0x8E000000" using w i u vend by linarith
  then have "v2p p < PHYSTOP"
    using assms(2,3) b u by (simp add: v2p_def word_less_nat_alt word_le_nat_alt unat_sub_if')
  ultimately show ?thesis by (simp add: kpage_def)
qed

lemma freerange_free_seq:
  assumes "vend \<le> KERNBASE + PHYSTOP" and "PGROUNDUP vstart \<le> vend"
  shows "freerange vstart vend s =
    free_seq kfree (page_range (PGROUNDUP vstart) (whole_pages vstart vend)) s"
  unfolding freerange_def
proof (rule freerange_loop_seq)
  have le: "unat (PGROUNDUP vstart) \<le> unat vend" using assms(2) by (simp add: word_le_nat_alt)
  have dm: "unat vend - unat (PGROUNDUP vstart) = 4096 * whole_pages vstart vend +
      (unat vend - unat (PGROUNDUP vstart)) mod 4096"
    by (simp add: whole_pages_def)
  have md: "(unat vend - unat (PGROUNDUP vstart)) mod 4096 < 4096" by simp
  show "unat (PGROUNDUP vstart) + 4096 * whole_pages vstart vend \<le> unat vend"
    using le dm by linarith
  show "unat vend < unat (PGROUNDUP vstart) + 4096 * Suc (whole_pages vstart vend)"
    using le dm md by simp
  show "unat vend + 4096 < 2 ^ 32" using assms(1) by (simp add: word_le_nat_alt)
qed

section \<open>Properties\<close>

text \<open>
  (C5) The allocator refines a stack of free pages. Allocation pops the stack, or returns the
  null pointer when it is empty, and changes no memory at all; freeing an acceptable page that is
  not already free pushes it and overwrites only that page; neither touches anything else of the
  kernel state beyond the lock bookkeeping.
\<close>

theorem kalloc_kfree_refine_stack:
  assumes "pool s ps"
  shows "(\<exists>t. kalloc s = Inr (case ps of [] \<Rightarrow> 0 | p # _ \<Rightarrow> p, t) \<and> pool t (tl ps) \<and>
      ram t = ram s \<and> kframe s t) \<and>
    (kpage s v \<longrightarrow> v \<notin> set ps \<longrightarrow> (\<exists>t. kfree v s = Inr t \<and> pool t (v # ps) \<and> kframe s t \<and>
      (\<forall>x. PGROUNDDOWN x \<noteq> v \<longrightarrow> ram t x = ram s x))) \<and>
    (\<not> kpage s v \<longrightarrow> kfree v s = Inl (Panic ''kfree''))"
proof (intro conjI impI)
  show "\<exists>t. kalloc s = Inr (case ps of [] \<Rightarrow> 0 | p # _ \<Rightarrow> p, t) \<and> pool t (tl ps) \<and> ram t = ram s \<and> kframe s t"
  proof (cases ps)
    case Nil
    with kmem_alloc.alloc_empty [of s] assms show ?thesis by simp
  next
    case (Cons p qs)
    with kmem_alloc.alloc_pop [of s p qs] assms show ?thesis by simp
  qed
qed (use kmem_alloc.free_push [OF assms] kfree_panic in blast)+

definition boot_mem :: kmem where
  "boot_mem = \<lparr>locks = (\<lambda>_. \<lparr>lk_locked = 0, lk_cpu = None\<rparr>),
     cpus = (\<lambda>_. \<lparr>cpu_ncli = 0, cpu_intena = False, cpu_if = True\<rparr>), mycpu = 0,
     ram = (\<lambda>_. 0), freelist = 0, use_lock = False, sym_end = 0x80110000\<rparr>"

lemma pool_boot_mem: "pool boot_mem []"
  by (simp add: pool_def kready_def boot_mem_def)

theorem kalloc_kfree_refine_stack_witness:
  "(\<exists>t. kalloc boot_mem = Inr (0, t)) \<and> (\<exists>t. kfree 0x80400000 boot_mem = Inr t \<and> pool t [0x80400000]) \<and>
   kfree 0x80400010 boot_mem = Inl (Panic ''kfree'')"
proof -
  have ok: "kpage boot_mem 0x80400000" and bad: "\<not> kpage boot_mem 0x80400010"
    by (simp_all add: kpage_def boot_mem_def aligned_def v2p_def)
  have "\<exists>t. kalloc boot_mem = Inr (0, t)"
    using kalloc_kfree_refine_stack [OF pool_boot_mem, THEN conjunct1] by auto
  moreover have "\<exists>t. kfree 0x80400000 boot_mem = Inr t \<and> pool t [0x80400000]"
    using kalloc_kfree_refine_stack [OF pool_boot_mem, THEN conjunct2, THEN conjunct1] ok by auto
  moreover have "kfree 0x80400010 boot_mem = Inl (Panic ''kfree'')"
    using kalloc_kfree_refine_stack [OF pool_boot_mem, THEN conjunct2, THEN conjunct2] bad by blast
  ultimately show ?thesis by blast
qed

text \<open>
  (C23) Boot-time initialisation: \<open>freerange\<close> over a range of physical memory terminates
  without a panic and adds to the pool exactly the whole pages of the range, each once; memory
  outside them is unchanged.
\<close>

theorem freerange_adds_whole_pages:
  assumes "pool s qs" and "unat vstart + 4095 < 2 ^ 32" and "sym_end s \<le> vstart"
    and "vend \<le> KERNBASE + PHYSTOP" and "PGROUNDUP vstart \<le> vend"
    and "set (page_range (PGROUNDUP vstart) (whole_pages vstart vend)) \<inter> set qs = {}"
  shows "\<exists>t. freerange vstart vend s = Inr t \<and>
    pool t (rev (page_range (PGROUNDUP vstart) (whole_pages vstart vend)) @ qs) \<and> kframe s t \<and>
    (\<forall>x. PGROUNDDOWN x \<notin> set (page_range (PGROUNDUP vstart) (whole_pages vstart vend)) \<longrightarrow>
      ram t x = ram s x)"
proof -
  let ?r = "page_range (PGROUNDUP vstart) (whole_pages vstart vend)"
  have "KERNBASE \<le> sym_end s" using assms(1) by (simp add: pool_def)
  then have ok: "\<forall>p\<in>set ?r. kpage s p" using assms kpage_in_range by blast
  have "unat vend < 2 ^ 32" using unsigned_less [of vend, where ?'a = nat] by simp
  moreover have "unat (PGROUNDUP vstart) + 4096 * whole_pages vstart vend \<le> unat vend"
    using assms(5) by (simp add: whole_pages_def word_le_nat_alt)
  ultimately have "distinct ?r" by (intro distinct_page_range) (rule le_less_trans)
  from kmem_alloc.free_many [OF assms(1) this assms(6) ok]
  show ?thesis by (simp add: freerange_free_seq [OF assms(4,5)])
qed

theorem freerange_adds_whole_pages_witness:
  "\<exists>t. freerange 0x80200123 0x80203fff boot_mem = Inr t \<and> pool t [0x80202000, 0x80201000]"
proof -
  have r: "PGROUNDUP 0x80200123 = 0x80201000" by (simp add: PGROUNDUP_def)
  have w: "whole_pages 0x80200123 0x80203fff = 2" by (simp add: whole_pages_def r)
  have p: "page_range 0x80201000 2 = [0x80201000, 0x80202000]"
    by (simp add: page_range_def upt_rec)
  have "sym_end boot_mem \<le> 0x80200123" by (simp add: boot_mem_def)
  then show ?thesis
    using freerange_adds_whole_pages [OF pool_boot_mem, where vstart = "0x80200123" and vend = "0x80203fff"]
    unfolding r w p by auto
qed

end
