(* ===== verification/Address_Space.thy ===== *)
theory Address_Space
  imports Vm
begin

text \<open>
  The meaning of the page tables that theory \<open>Vm\<close> manipulates: \<open>lookup\<close> reads
  the entry of a virtual address the way the paging hardware walks the two levels. The lemmas
  show that every operation of \<^verbatim>\<open>vm.c\<close> acts on this function as a point update, and
  that tables, mapped frames and free pages stay apart.
\<close>

section \<open>Looking up an address\<close>

definition present :: "uint \<Rightarrow> bool" where
  "present e \<longleftrightarrow> e AND PTE_P \<noteq> 0"

definition frame_of :: "uint \<Rightarrow> uint" where
  "frame_of e = p2v (PTE_ADDR e)"

definition pde_at :: "memory \<Rightarrow> uint \<Rightarrow> uint \<Rightarrow> uint" where
  "pde_at m d i = load32 m (d + 4 * i)"

definition lookup :: "memory \<Rightarrow> uint \<Rightarrow> uint \<Rightarrow> uint" where
  "lookup m d va =
     (let e = pde_at m d (PDX va)
      in if present e then load32 m (frame_of e + 4 * PTX va) else 0)"

text \<open>The pages that hold the directory and its tables.\<close>

definition tables :: "memory \<Rightarrow> uint \<Rightarrow> uint set" where
  "tables m d = {frame_of (pde_at m d i) | i. i < 1024 \<and> present (pde_at m d i)}"

definition footprint :: "memory \<Rightarrow> uint \<Rightarrow> uint set" where
  "footprint m d = insert d (tables m d)"

definition pt_wf :: "memory \<Rightarrow> uint \<Rightarrow> bool" where
  "pt_wf m d \<longleftrightarrow> aligned d \<and> d \<notin> tables m d \<and>
     (\<forall>i j. i < 1024 \<longrightarrow> j < 1024 \<longrightarrow> present (pde_at m d i) \<longrightarrow> present (pde_at m d j) \<longrightarrow>
        frame_of (pde_at m d i) = frame_of (pde_at m d j) \<longrightarrow> i = j)"

section \<open>Cells of a table page\<close>

lemma PDX_less: "PDX va < 1024" and PTX_less: "PTX va < 1024"
proof -
  have "unat va < 2 ^ 32" using unsigned_less [of va, where ?'a = nat] by simp
  then have "unat va div 2 ^ 22 < 1024" by (simp add: less_mult_imp_div_less)
  then show "PDX va < 1024" by (simp only: word_less_nat_alt unat_PDX) simp
  show "PTX va < 1024" by (simp only: word_less_nat_alt unat_PTX) simp
qed

lemma same_page_iff: "PGROUNDDOWN a = PGROUNDDOWN b \<longleftrightarrow> PDX a = PDX b \<and> PTX a = PTX b"
proof -
  have "PGROUNDDOWN a = PGROUNDDOWN b \<longleftrightarrow> unat a div 4096 = unat b div 4096"
    by (simp add: word_eq_iff_unsigned [where ?'a = nat] unat_PGROUNDDOWN)
  also have "\<dots> \<longleftrightarrow> PDX a = PDX b \<and> PTX a = PTX b"
  proof
    assume "unat a div 4096 = unat b div 4096"
    then have "unat (PDX a) = unat (PDX b)" "unat (PTX a) = unat (PTX b)"
      unfolding unat_PDX' unat_PTX by simp_all
    then show "PDX a = PDX b \<and> PTX a = PTX b" by (simp add: word_eqI_unat)
  qed (simp add: page_number)
  finally show ?thesis .
qed

lemma unat_mult4: "(i::uint) < 1024 \<Longrightarrow> unat (4 * i) = 4 * unat i"
  by (simp add: unat_word_ariths word_less_nat_alt)

lemma cell_page: "aligned d \<Longrightarrow> i < 1024 \<Longrightarrow> PGROUNDDOWN (d + 4 * i) = d"
proof -
  assume d: "aligned d" and i: "i < 1024"
  have "unat (4 * i) < 4096" using i by (simp add: unat_mult4) (simp add: word_less_nat_alt)
  then have "d + 4 * i - d < PGSIZE" by (simp add: word_less_nat_alt)
  with in_page_iff [OF d] show ?thesis by blast
qed

lemma cell_aligned4: "aligned d \<Longrightarrow> aligned4 (d + 4 * i)"
  by (intro aligned4_add aligned_aligned4 aligned4_mult4)

lemma cell_inj:
  assumes "(i::uint) < 1024" and "j < 1024"
  shows "d + 4 * i = d + 4 * j \<longleftrightarrow> i = j"
proof -
  have "4 * i = 4 * j \<longleftrightarrow> unat (4 * i) = unat (4 * j)" by (simp add: word_eq_iff_unsigned [where ?'a = nat])
  also have "\<dots> \<longleftrightarrow> i = j"
    using assms by (simp add: unat_mult4 word_eq_iff_unsigned [where ?'a = nat])
  finally show ?thesis by simp
qed

lemma aligned_frame_of [simp]: "aligned (frame_of e)"
  by (simp add: frame_of_def)

lemma load32_cell_cong:
  assumes "aligned p" and "i < 1024" and "\<And>x. PGROUNDDOWN x = p \<Longrightarrow> m' x = m x"
  shows "load32 m' (p + 4 * i) = load32 m (p + 4 * i)"
proof (rule load32_page_cong)
  show "aligned4 (p + 4 * i)" using assms(1) by (rule cell_aligned4)
  show "m' x = m x" if "PGROUNDDOWN x = PGROUNDDOWN (p + 4 * i)" for x
    using that assms(3) [of x] cell_page [OF assms(1,2)] by simp
qed

lemma load32_cell_store:
  assumes "aligned p" and "aligned q" and "i < 1024" and "j < 1024"
  shows "load32 (store32 m (p + 4 * i) v) (q + 4 * j) =
    (if p = q \<and> i = j then v else load32 m (q + 4 * j))"
proof (cases "p = q \<and> i = j")
  case False
  then have "p + 4 * i \<noteq> q + 4 * j"
    using assms cell_page [of p i] cell_page [of q j] cell_inj [of i j q] by auto
  with False show ?thesis
    using assms load32_store32_other [of "p + 4 * i" "q + 4 * j"] by (auto simp: cell_aligned4)
qed auto

section \<open>Changes to memory and the tables\<close>

lemma pde_at_cong:
  assumes "aligned d" and "i < 1024" and "\<And>x. PGROUNDDOWN x = d \<Longrightarrow> m' x = m x"
  shows "pde_at m' d i = pde_at m d i"
  unfolding pde_at_def using assms by (rule load32_cell_cong)

text \<open>Changes outside the footprint are invisible.\<close>

lemma lookup_frame:
  assumes "aligned d" and same: "\<And>x. PGROUNDDOWN x \<in> footprint m d \<Longrightarrow> m' x = m x"
  shows "lookup m' d = lookup m d" and "tables m' d = tables m d"
    and "footprint m' d = footprint m d" and "pt_wf m' d = pt_wf m d"
    and "\<And>i. i < 1024 \<Longrightarrow> pde_at m' d i = pde_at m d i"
proof -
  show pde: "pde_at m' d i = pde_at m d i" if "i < 1024" for i
    using assms(1) that by (rule pde_at_cong) (simp add: same footprint_def)
  then show tables: "tables m' d = tables m d"
    unfolding tables_def by (metis (no_types, lifting))
  then show "footprint m' d = footprint m d" by (simp add: footprint_def)
  show "pt_wf m' d = pt_wf m d"
    unfolding pt_wf_def tables using pde by (metis (no_types, lifting))
  show "lookup m' d = lookup m d"
  proof
    fix va
    have "load32 m' (frame_of e + 4 * PTX va) = load32 m (frame_of e + 4 * PTX va)"
      if "e = pde_at m d (PDX va)" "present e" for e
    proof (rule load32_cell_cong)
      have "frame_of e \<in> footprint m d"
        using that PDX_less [of va] by (auto simp: footprint_def tables_def)
      then show "m' x = m x" if "PGROUNDDOWN x = frame_of e" for x using that same by simp
    qed (simp_all add: PTX_less)
    then show "lookup m' d va = lookup m d va"
      by (simp add: lookup_def Let_def pde PDX_less)
  qed
qed

text \<open>Writing the entry of \<open>va\<close> in its table is a point update of \<open>lookup\<close>.\<close>

lemma pte_store:
  fixes v :: uint
  assumes wf: "pt_wf m d" and p: "present (pde_at m d (PDX va))"
  defines "m' \<equiv> store32 m (frame_of (pde_at m d (PDX va)) + 4 * PTX va) v"
  shows "lookup m' d va' = (if PGROUNDDOWN va' = PGROUNDDOWN va then v else lookup m d va')"
    and "tables m' d = tables m d" and "footprint m' d = footprint m d" and "pt_wf m' d"
    and "\<And>i. i < 1024 \<Longrightarrow> pde_at m' d i = pde_at m d i"
proof -
  let ?t = "frame_of (pde_at m d (PDX va))"
  have d: "aligned d" and dt: "?t \<noteq> d"
    using wf p PDX_less [of va] by (auto simp: pt_wf_def tables_def)
  show pde: "pde_at m' d i = pde_at m d i" if "i < 1024" for i
    using d dt that by (simp add: pde_at_def m'_def load32_cell_store PTX_less)
  then show tables: "tables m' d = tables m d"
    unfolding tables_def by (metis (no_types, lifting))
  then show "footprint m' d = footprint m d" by (simp add: footprint_def)
  show "pt_wf m' d"
    using wf unfolding pt_wf_def tables using pde by (metis (no_types, lifting))
  have same: "frame_of (pde_at m d (PDX va')) = ?t \<longleftrightarrow> PDX va' = PDX va"
    if "present (pde_at m d (PDX va'))"
    using wf that p PDX_less unfolding pt_wf_def by metis
  show "lookup m' d va' = (if PGROUNDDOWN va' = PGROUNDDOWN va then v else lookup m d va')"
  proof (cases "present (pde_at m d (PDX va'))")
    case True
    have "lookup m' d va' = (if ?t = frame_of (pde_at m d (PDX va')) \<and> PTX va = PTX va'
        then v else lookup m d va')"
      using True by (simp add: lookup_def Let_def pde PDX_less) (simp add: m'_def load32_cell_store PTX_less)
    then show ?thesis using same [OF True] same_page_iff [of va' va] by auto
  next
    case False
    then have "PDX va' \<noteq> PDX va" using p by auto
    then have "PGROUNDDOWN va' \<noteq> PGROUNDDOWN va" using same_page_iff [of va' va] by auto
    with False show ?thesis by (simp add: lookup_def Let_def pde PDX_less)
  qed
qed

section \<open>Entries\<close>

lemma present_bit: "present e \<longleftrightarrow> bit e 0"
  by (simp add: present_def bit_0 and_one_eq odd_iff_mod_2_eq_one)

lemma present_or [simp]: "present (v OR w OR PTE_P)"
  by (simp add: present_bit bit_or_iff)

lemma not_present_0 [simp]: "\<not> present 0"
  by (simp add: present_def)

lemma frame_of_or: "aligned p \<Longrightarrow> w < 4096 \<Longrightarrow> frame_of (v2p p OR w) = p"
  by (simp add: frame_of_def PTE_ADDR_or)

text \<open>The entry \<open>walkpgdir\<close> writes for a fresh table page.\<close>

lemma pde_entry:
  assumes "aligned q"
  shows "present (v2p q OR PTE_P OR PTE_W OR PTE_U)"
    and "frame_of (v2p q OR PTE_P OR PTE_W OR PTE_U) = q"
proof -
  have eq: "v2p q OR PTE_P OR PTE_W OR PTE_U = v2p q OR 7" by (simp add: or.assoc)
  show "frame_of (v2p q OR PTE_P OR PTE_W OR PTE_U) = q"
    unfolding eq using assms by (simp add: frame_of_or)
  show "present (v2p q OR PTE_P OR PTE_W OR PTE_U)"
    unfolding eq by (simp add: present_bit bit_or_iff bit_0 even_or_iff)
qed

section \<open>Adding a table\<close>

lemma new_table:
  assumes wf: "pt_wf m d" and absent: "\<not> present (pde_at m d (PDX va))"
    and q: "aligned q" "q \<notin> footprint m d"
  defines "m' \<equiv> store32 (fill m q 0 PGSIZE) (d + 4 * PDX va) (v2p q OR PTE_P OR PTE_W OR PTE_U)"
  shows "lookup m' d = lookup m d" and "footprint m' d = insert q (footprint m d)"
    and "pt_wf m' d" and "present (pde_at m' d (PDX va))" and "frame_of (pde_at m' d (PDX va)) = q"
proof -
  have d: "aligned d" and qd: "q \<noteq> d" using wf q by (auto simp: pt_wf_def footprint_def)
  have other: "load32 (fill m q 0 PGSIZE) (p + 4 * i) = load32 m (p + 4 * i)"
    if "aligned p" "i < 1024" "p \<noteq> q" for p i
    using that q(1) by (intro load32_fill_other) (auto simp: cell_page cell_aligned4)
  have pde: "pde_at m' d i = (if i = PDX va then v2p q OR PTE_P OR PTE_W OR PTE_U else pde_at m d i)"
    if "i < 1024" for i
    using that d qd PDX_less [of va]
    by (simp add: pde_at_def m'_def load32_cell_store other)
  note e = pde_entry [OF q(1)]
  show "present (pde_at m' d (PDX va))" "frame_of (pde_at m' d (PDX va)) = q"
    using e by (simp_all add: pde PDX_less)
  have tables: "tables m' d = insert q (tables m d)"
  proof (rule set_eqI)
    fix p
    have "p \<in> tables m' d \<longleftrightarrow> (\<exists>i<1024. present (pde_at m' d i) \<and> p = frame_of (pde_at m' d i))"
      by (auto simp: tables_def)
    also have "\<dots> \<longleftrightarrow> p = q \<or> (\<exists>i<1024. present (pde_at m d i) \<and> p = frame_of (pde_at m d i))"
      using e absent PDX_less [of va] by (auto simp: pde split: if_splits)
    also have "\<dots> \<longleftrightarrow> p \<in> insert q (tables m d)" by (auto simp: tables_def)
    finally show "p \<in> tables m' d \<longleftrightarrow> p \<in> insert q (tables m d)" .
  qed
  then show "footprint m' d = insert q (footprint m d)" by (auto simp: footprint_def)
  have fresh: "frame_of (pde_at m d i) \<noteq> q" if "i < 1024" "present (pde_at m d i)" for i
    using that q(2) by (auto simp: footprint_def tables_def)
  show "pt_wf m' d"
    unfolding pt_wf_def tables
  proof (intro conjI allI impI)
    show "d \<notin> insert q (tables m d)" using wf qd by (auto simp: pt_wf_def)
    fix i j :: uint
    assume "i < 1024" "j < 1024" "present (pde_at m' d i)" "present (pde_at m' d j)"
      "frame_of (pde_at m' d i) = frame_of (pde_at m' d j)"
    then show "i = j"
      using wf e fresh [of i] fresh [of j] unfolding pt_wf_def by (auto simp: pde split: if_splits)
  qed (rule d)
  show "lookup m' d = lookup m d"
  proof
    fix va'
    show "lookup m' d va' = lookup m d va'"
    proof (cases "PDX va' = PDX va")
      case True
      have "lookup m' d va' = load32 m' (q + 4 * PTX va')"
        using True e by (simp add: lookup_def Let_def pde PDX_less)
      also have "\<dots> = load32 (fill m q 0 PGSIZE) (q + 4 * PTX va')"
        using d q(1) qd by (simp add: m'_def load32_cell_store PTX_less PDX_less)
      also have "\<dots> = 0"
        using q(1) by (intro load32_zero_page) (simp_all add: cell_page PTX_less cell_aligned4)
      finally show ?thesis using True absent by (simp add: lookup_def Let_def)
    next
      case False
      let ?e = "pde_at m d (PDX va')"
      have "load32 m' (frame_of ?e + 4 * PTX va') = load32 m (frame_of ?e + 4 * PTX va')" if "present ?e"
      proof -
        have "frame_of ?e \<noteq> d" "frame_of ?e \<noteq> q"
          using that wf fresh PDX_less by (auto simp: pt_wf_def tables_def)
        then show ?thesis
          using d by (simp add: m'_def load32_cell_store PTX_less PDX_less other)
      qed
      then show ?thesis using False by (simp add: lookup_def Let_def pde PDX_less)
    qed
  qed
qed

section \<open>Page tables and the allocator\<close>

definition pt_ok :: "'a kmem_scheme \<Rightarrow> uint \<Rightarrow> uint list \<Rightarrow> bool" where
  "pt_ok s d ps \<longleftrightarrow> pool s ps \<and> pt_wf (ram s) d \<and> footprint (ram s) d \<inter> set ps = {} \<and>
     (\<forall>p\<in>footprint (ram s) d. kpage s p)"

text \<open>
  \<open>pt_ext d s ps t qs\<close>: from \<open>s\<close> to \<open>t\<close> the tables of \<open>d\<close>
  took some pages from the front of the pool; memory outside the tables is unchanged.
\<close>

definition pt_ext :: "uint \<Rightarrow> 'a kmem_scheme \<Rightarrow> uint list \<Rightarrow> 'a kmem_scheme \<Rightarrow> uint list \<Rightarrow> bool" where
  "pt_ext d s ps t qs \<longleftrightarrow> pt_ok t d qs \<and> kframe s t \<and>
     (\<exists>us. ps = us @ qs \<and> footprint (ram t) d = footprint (ram s) d \<union> set us) \<and>
     (\<forall>x. PGROUNDDOWN x \<notin> footprint (ram t) d \<longrightarrow> ram t x = ram s x)"

lemma pt_ext_refl: "pt_ok s d ps \<Longrightarrow> pt_ext d s ps s ps"
  by (simp add: pt_ext_def)

lemma pt_ext_trans: "pt_ext d s ps t qs \<Longrightarrow> pt_ext d t qs u rs \<Longrightarrow> pt_ext d s ps u rs"
  unfolding pt_ext_def by (auto intro: kframe_trans)

lemma pt_ext_ok: "pt_ext d s ps t qs \<Longrightarrow> pt_ok t d qs"
  by (simp add: pt_ext_def)

lemma table_in_footprint: "present (pde_at m d (PDX va)) \<Longrightarrow> frame_of (pde_at m d (PDX va)) \<in> footprint m d"
  using PDX_less [of va] by (auto simp: footprint_def tables_def)

lemma lookup_load:
  "present (pde_at m d (PDX va)) \<Longrightarrow>
     load32 m (frame_of (pde_at m d (PDX va)) + 4 * PTX va) = lookup m d va"
  by (simp add: lookup_def)

lemma walkpgdir_present:
  "present (pde_at (ram s) d (PDX va)) \<Longrightarrow>
     walkpgdir d va alloc s = Inr (frame_of (pde_at (ram s) d (PDX va)) + 4 * PTX va, s)"
  by (simp add: walkpgdir_def present_def pde_at_def frame_of_def Let_def)

lemma walkpgdir_absent:
  "\<not> present (pde_at (ram s) d (PDX va)) \<Longrightarrow> walkpgdir d va False s = Inr (0, s)"
  by (simp add: walkpgdir_def present_def pde_at_def)

lemma PGROUNDDOWN_0 [simp]: "PGROUNDDOWN 0 = 0"
  by (simp add: PGROUNDDOWN_def)

lemma pte_nonzero:
  assumes "pt_ok s d ps" and "present (pde_at (ram s) d (PDX va))"
  shows "frame_of (pde_at (ram s) d (PDX va)) + 4 * PTX va \<noteq> 0"
proof
  let ?f = "frame_of (pde_at (ram s) d (PDX va))"
  assume "?f + 4 * PTX va = 0"
  then have "?f = 0" using cell_page [of ?f "PTX va"] by (simp add: PTX_less)
  moreover have "kpage s ?f" "KERNBASE \<le> sym_end s"
    using assms table_in_footprint by (auto simp: pt_ok_def pool_def)
  ultimately show False using kpage_nonzero by metis
qed

lemma walkpgdir_alloc:
  assumes "pt_ok s d ps"
  shows "\<exists>r t qs. walkpgdir d va True s = Inr (r, t) \<and> pt_ext d s ps t qs \<and>
    lookup (ram t) d = lookup (ram s) d \<and>
    (r = 0 \<and> ps = [] \<and> qs = [] \<or>
     r \<noteq> 0 \<and> present (pde_at (ram t) d (PDX va)) \<and> r = frame_of (pde_at (ram t) d (PDX va)) + 4 * PTX va)"
proof (cases "present (pde_at (ram s) d (PDX va))")
  case True
  with assms show ?thesis
    by (auto simp: walkpgdir_present pte_nonzero intro!: pt_ext_refl)
next
  case absent: False
  then have walk: "walkpgdir d va True s = bindE (kalloc s) (\<lambda>(q, s).
      if q = 0 then Inr (0, s) else Inr (q + 4 * PTX va, s\<lparr>ram := store32 (fill (ram s) q 0 PGSIZE)
        (d + 4 * PDX va) (v2p q OR PTE_P OR PTE_W OR PTE_U)\<rparr>))"
    unfolding walkpgdir_def Let_def memset_fill
    by (simp add: present_def pde_at_def cong: if_cong)
  have ok: "pool s ps" "pt_wf (ram s) d" "footprint (ram s) d \<inter> set ps = {}"
    "\<forall>p\<in>footprint (ram s) d. kpage s p"
    using assms by (auto simp: pt_ok_def)
  show ?thesis
  proof (cases ps)
    case Nil
    then obtain t where t: "kalloc s = Inr (0, t)" "pool t []" "ram t = ram s" "kframe s t"
      using kmem_alloc.alloc_empty ok(1) by blast
    then have "pt_ext d s ps t []"
      using ok Nil by (simp add: pt_ext_def pt_ok_def kframe_kpage)
    with t Nil show ?thesis by (simp add: walk)
  next
    case (Cons q qs)
    then obtain u where u: "kalloc s = Inr (q, u)" "pool u qs" "ram u = ram s" "kframe s u"
      using kmem_alloc.alloc_pop ok(1) by blast
    have q: "kpage s q" "q \<noteq> 0" "q \<notin> set qs" "q \<notin> footprint (ram s) d" "aligned q"
      using ok Cons kmem_alloc.free_pages_ok [OF ok(1)] by (auto dest: kpage_aligned)
    let ?m = "store32 (fill (ram s) q 0 PGSIZE) (d + 4 * PDX va) (v2p q OR PTE_P OR PTE_W OR PTE_U)"
    let ?t = "u\<lparr>ram := ?m\<rparr>"
    note nt = new_table [OF ok(2) absent q(5,4)]
    have d: "aligned d" "d \<in> footprint (ram s) d" using ok(2) by (auto simp: pt_wf_def footprint_def)
    have out: "?m x = ram s x" if "PGROUNDDOWN x \<notin> insert q (footprint (ram s) d)" for x
      using that d q(5) by (subst store32_page_frame) (auto simp: cell_page PDX_less cell_aligned4 fill_page)
    have "pool ?t qs"
    proof (rule pool_ram_cong [OF u(2)])
      fix x
      assume "PGROUNDDOWN x \<in> set qs"
      then have "PGROUNDDOWN x \<notin> insert q (footprint (ram s) d)" using ok(3) Cons q(3) by auto
      then show "?m x = ram u x" unfolding u(3) by (rule out)
    qed
    then have "pt_ok ?t d qs"
      unfolding pt_ok_def using ok nt q u(4) Cons by (auto simp: kframe_kpage)
    moreover have "kframe s ?t" using u(4) by simp
    ultimately have "pt_ext d s ps ?t qs"
      unfolding pt_ext_def using Cons nt(2) out by (auto intro: exI [of _ "[q]"])
    moreover have "walkpgdir d va True s = Inr (q + 4 * PTX va, ?t)"
      using u q(2) by (simp add: walk)
    moreover have "q + 4 * PTX va \<noteq> 0"
      using q(2) cell_page [OF q(5) PTX_less, of va] by auto
    ultimately show ?thesis using nt by auto
  qed
qed

lemma store_pte_ext:
  fixes v :: uint
  assumes "pt_ok s d ps" and p: "present (pde_at (ram s) d (PDX va))"
  defines "t \<equiv> s\<lparr>ram := store32 (ram s) (frame_of (pde_at (ram s) d (PDX va)) + 4 * PTX va) v\<rparr>"
  shows "pt_ext d s ps t ps"
    and "lookup (ram t) d = (\<lambda>x. if PGROUNDDOWN x = PGROUNDDOWN va then v else lookup (ram s) d x)"
proof -
  let ?f = "frame_of (pde_at (ram s) d (PDX va))"
  let ?m = "store32 (ram s) (?f + 4 * PTX va) v"
  have ok: "pool s ps" "pt_wf (ram s) d" "footprint (ram s) d \<inter> set ps = {}"
    "\<forall>p\<in>footprint (ram s) d. kpage s p"
    using assms(1) by (auto simp: pt_ok_def)
  note st = pte_store [OF ok(2) p, of v]
  have out: "?m x = ram s x" if "PGROUNDDOWN x \<notin> footprint (ram s) d" for x
    using that table_in_footprint [OF p]
    by (intro store32_page_frame) (auto simp: cell_aligned4 cell_page PTX_less)
  have "pool t ps"
    unfolding t_def using ok(3) by (intro pool_ram_cong [OF ok(1)] out) auto
  then show "pt_ext d s ps t ps"
    using ok st out by (simp add: pt_ext_def pt_ok_def t_def)
  show "lookup (ram t) d = (\<lambda>x. if PGROUNDDOWN x = PGROUNDDOWN va then v else lookup (ram s) d x)"
    using st by (auto simp: t_def)
qed

section \<open>Mapping a range of pages\<close>

definition map_range :: "(uint \<Rightarrow> uint) \<Rightarrow> uint \<Rightarrow> nat \<Rightarrow> uint \<Rightarrow> uint \<Rightarrow> uint \<Rightarrow> uint" where
  "map_range L a n pa perm = (\<lambda>va. if unat (PGROUNDDOWN va - a) < 4096 * n
     then (pa + (PGROUNDDOWN va - a)) OR perm OR PTE_P else L va)"

lemma map_range_0 [simp]: "map_range L a 0 pa perm = L"
  by (simp add: map_range_def)

lemma aligned_diff: "aligned a \<Longrightarrow> aligned b \<Longrightarrow> aligned (a - b)"
proof -
  assume "aligned a" "aligned b"
  then have "4096 dvd unat a" "4096 dvd unat b" by (simp_all add: aligned_unat mod_eq_0_iff_dvd)
  moreover have "4096 dvd (2 :: nat) ^ 32" by simp
  ultimately have "4096 dvd unat (a - b)"
    unfolding unat_sub_if' by (simp add: dvd_diff_nat dvd_add)
  then show ?thesis by (simp add: aligned_unat mod_eq_0_iff_dvd)
qed

lemma page_offset_Suc:
  assumes "aligned z" and "n < 2 ^ 20"
  shows "unat z < 4096 * Suc n \<longleftrightarrow> z = 0 \<or> unat (z - PGSIZE) < 4096 * n"
proof (cases "z = 0")
  case False
  then have "unat z \<noteq> 0" by (simp add: unat_eq_0)
  with assms(1) have "4096 \<le> unat z" by (auto simp: aligned_unat)
  then have "unat (z - PGSIZE) = unat z - 4096" by (simp add: unat_sub word_le_nat_alt)
  with \<open>4096 \<le> unat z\<close> False show ?thesis by auto
qed simp

lemma map_range_Suc:
  assumes "aligned a" and "n < 2 ^ 20"
  shows "map_range (\<lambda>x. if PGROUNDDOWN x = PGROUNDDOWN a then pa OR perm OR PTE_P else L x)
      (a + PGSIZE) n (pa + PGSIZE) perm = map_range L a (Suc n) pa perm"
proof
  fix va
  let ?z = "PGROUNDDOWN va - a"
  have z: "aligned ?z" using assms(1) by (simp add: aligned_diff)
  have diff: "PGROUNDDOWN va - (a + PGSIZE) = ?z - PGSIZE" by simp
  have zero: "PGROUNDDOWN va = a \<longleftrightarrow> ?z = 0" by simp
  have first: "\<not> unat (0 - PGSIZE :: uint) < 4096 * n"
    using assms(2) by simp
  show "map_range (\<lambda>x. if PGROUNDDOWN x = PGROUNDDOWN a then pa OR perm OR PTE_P else L x)
      (a + PGSIZE) n (pa + PGSIZE) perm va = map_range L a (Suc n) pa perm va"
    unfolding map_range_def diff page_offset_Suc [OF z assms(2)] PGROUNDDOWN_aligned [OF assms(1)] zero
    using first by (cases "?z = 0") auto
qed

lemma mappages_step:
  fixes v :: uint
  assumes "pt_ok s d ps" and "\<not> present (lookup (ram s) d a)"
  obtains (full) t where "walkpgdir d a True s = Inr (0, t)" and "pt_ext d s ps t []"
      and "lookup (ram t) d = lookup (ram s) d"
  | (mapped) r t qs where "walkpgdir d a True s = Inr (r, t)" and "r \<noteq> 0"
      and "load32 (ram t) r AND PTE_P = 0" and "pt_ext d s ps (t\<lparr>ram := store32 (ram t) r v\<rparr>) qs"
      and "lookup (store32 (ram t) r v) d =
        (\<lambda>x. if PGROUNDDOWN x = PGROUNDDOWN a then v else lookup (ram s) d x)"
proof -
  obtain r t qs where w: "walkpgdir d a True s = Inr (r, t)" and e: "pt_ext d s ps t qs"
    and l: "lookup (ram t) d = lookup (ram s) d"
    and c: "r = 0 \<and> ps = [] \<and> qs = [] \<or> r \<noteq> 0 \<and> present (pde_at (ram t) d (PDX a)) \<and>
      r = frame_of (pde_at (ram t) d (PDX a)) + 4 * PTX a"
    using walkpgdir_alloc [OF assms(1)] by blast
  show ?thesis
  proof (cases "r = 0")
    case True
    with w e l c have "walkpgdir d a True s = Inr (0, t)" "pt_ext d s ps t []" by auto
    then show ?thesis using l by (rule full)
  next
    case False
    with c have p: "present (pde_at (ram t) d (PDX a))"
      and r: "r = frame_of (pde_at (ram t) d (PDX a)) + 4 * PTX a" by auto
    have z: "load32 (ram t) r AND PTE_P = 0"
      using assms(2) l lookup_load [OF p] by (simp add: r present_def)
    note st = store_pte_ext [OF pt_ext_ok [OF e] p, of v, folded r]
    have "lookup (store32 (ram t) r v) d =
        (\<lambda>x. if PGROUNDDOWN x = PGROUNDDOWN a then v else lookup (ram s) d x)"
      using st(2) unfolding l by simp
    then show ?thesis by (rule mapped [OF w False z pt_ext_trans [OF e st(1)]])
  qed
qed

lemma aligned_add_PGSIZE: "aligned a \<Longrightarrow> aligned (a + PGSIZE)"
  by (rule aligned_add) (simp_all add: aligned_def)

lemma page_steps_distinct:
  fixes a :: uint
  assumes "i \<le> n" and "Suc n < 2 ^ 20"
  shows "a + PGSIZE + of_nat (4096 * i) \<noteq> a"
proof -
  have "4096 + 4096 * i < 2 ^ 32" using assms by simp
  then have "unat (PGSIZE + of_nat (4096 * i) :: uint) = 4096 + 4096 * i"
    by (simp add: unat_word_ariths unat_of_nat)
  then show ?thesis by (auto simp: add.assoc)
qed

lemma aligned_of_nat: "aligned (of_nat (4096 * i))"
proof -
  have "unat (of_nat (4096 * i) :: uint) mod 4096 = 0"
    unfolding unat_of_nat by (simp add: mod_mod_cancel)
  then show ?thesis by (simp only: aligned_unat)
qed

lemma mappages_loop_ok:
  assumes "pt_ok s d ps" and "aligned a" and "n < 2 ^ 20"
    and "\<And>i. i \<le> n \<Longrightarrow> \<not> present (lookup (ram s) d (a + of_nat (4096 * i)))"
  shows "\<exists>r t qs. mappages_loop (Suc n) d a (a + of_nat (4096 * n)) pa perm s = Inr (r, t) \<and>
    pt_ext d s ps t qs \<and>
    (r = 0 \<and> lookup (ram t) d = map_range (lookup (ram s) d) a (Suc n) pa perm \<or>
     r = -1 \<and> qs = [] \<and> (\<exists>k\<le>n. lookup (ram t) d = map_range (lookup (ram s) d) a k pa perm))"
  using assms
proof (induction n arbitrary: s ps a pa)
  case (0 s ps a pa)
  let ?v = "pa OR perm OR PTE_P"
  have np: "\<not> present (lookup (ram s) d a)" using 0(4) [of 0] by simp
  note one = map_range_Suc [OF 0(2), of 0 pa perm "lookup (ram s) d"]
  show ?case
  proof (cases rule: mappages_step [OF 0(1) np, where v = ?v, case_names full mapped])
    case (full t)
    then show ?thesis by auto
  next
    case (mapped r t qs)
    then show ?thesis using one by (auto simp: Let_def)
  qed
next
  case (Suc n s ps a pa)
  let ?v = "pa OR perm OR PTE_P"
  have np: "\<not> present (lookup (ram s) d a)" using Suc.prems(4) [of 0] by simp
  show ?case
  proof (cases rule: mappages_step [OF Suc.prems(1) np, where v = ?v, case_names full mapped])
    case (full t)
    then show ?thesis by (auto intro!: exI [of _ 0])
  next
    case (mapped r t qs)
    let ?u = "t\<lparr>ram := store32 (ram t) r ?v\<rparr>"
    have a: "aligned (a + PGSIZE)" using Suc.prems(2) by (rule aligned_add_PGSIZE)
    have off: "a + of_nat (4096 * Suc i) = a + PGSIZE + of_nat (4096 * i)" for i by simp
    have ne: "PGROUNDDOWN (a + PGSIZE + of_nat (4096 * i)) \<noteq> PGROUNDDOWN a" if "i \<le> n" for i
      using page_steps_distinct [OF that, of a] Suc.prems(2,3) a
      by (simp only: PGROUNDDOWN_aligned aligned_add aligned_of_nat not_False_eq_True)
    have "\<not> present (lookup (ram ?u) d (a + PGSIZE + of_nat (4096 * i)))" if "i \<le> n" for i
      using Suc.prems(4) [of "Suc i"] that ne [OF that] mapped(5) unfolding off by simp
    from Suc.IH [OF pt_ext_ok [OF mapped(4)] a _ this, of "pa + PGSIZE"] Suc.prems(3)
    obtain r' w qs' where w: "mappages_loop (Suc n) d (a + PGSIZE) (a + PGSIZE + of_nat (4096 * n))
        (pa + PGSIZE) perm ?u = Inr (r', w)" "pt_ext d ?u qs w qs'"
      "r' = 0 \<and> lookup (ram w) d = map_range (lookup (ram ?u) d) (a + PGSIZE) (Suc n) (pa + PGSIZE) perm \<or>
       r' = -1 \<and> qs' = [] \<and>
         (\<exists>k\<le>n. lookup (ram w) d = map_range (lookup (ram ?u) d) (a + PGSIZE) k (pa + PGSIZE) perm)"
      by auto
    have range: "map_range (lookup (ram ?u) d) (a + PGSIZE) k (pa + PGSIZE) perm =
        map_range (lookup (ram s) d) a (Suc k) pa perm" if "k \<le> Suc n" for k
      using map_range_Suc [OF Suc.prems(2), of k pa perm "lookup (ram s) d"] that Suc.prems(3) mapped(5)
      by simp
    have "mappages_loop (Suc (Suc n)) d a (a + of_nat (4096 * Suc n)) pa perm s = Inr (r', w)"
      using mapped(1-3) w(1) page_steps_distinct [of n n a] Suc.prems(3) unfolding off
      by (simp add: Let_def)
    moreover have "pt_ext d s ps w qs'" using mapped(4) w(2) by (rule pt_ext_trans)
    ultimately show ?thesis using w(3) range by (metis Suc_le_mono le_SucI order_refl)
  qed
qed

text \<open>\<open>mappages\<close> on a page-aligned range of \<open>n + 1\<close> pages.\<close>

lemma mappages_loop_call:
  assumes "aligned va" and "n < 2 ^ 20" and "sz = of_nat (4096 * Suc n)"
  shows "mappages d va sz pa perm s = mappages_loop (Suc n) d va (va + of_nat (4096 * n)) pa perm s"
proof -
  let ?k = "of_nat (4096 * n) :: uint"
  let ?b = "va + ?k"
  have b: "aligned ?b" using assms(1) aligned_of_nat by (rule aligned_add)
  have "of_nat (4096 * Suc n) = ?k + PGSIZE" by simp
  then have "va + sz - 1 - ?b = 4095" unfolding assms(3) by (simp only: algebra_simps) simp
  then have "va + sz - 1 - ?b < PGSIZE" by (simp only:) simp
  then have l: "PGROUNDDOWN (va + sz - 1) = ?b" using in_page_iff [OF b] by blast
  have "4096 * n < 2 ^ 32" using assms(2) by simp
  then have "unat ?k = 4096 * n" by (simp only: unat_of_nat) simp
  moreover have "?b - va = ?k" by simp
  ultimately have "unat (?b - va) div 4096 = n" by simp
  then show ?thesis
    unfolding mappages_def Let_def l PGROUNDDOWN_aligned [OF assms(1)] by simp
qed

section \<open>Properties\<close>

text \<open>
  (C4) \<open>mappages\<close> on a page-aligned range of pages none of which is mapped: it never
  panics and always returns; on success every page of the range translates to the matching
  physical page with the given permissions; when the pool runs dry it returns \<open>-1\<close> and
  has mapped a prefix of the range. Every other translation is unchanged, the pages the new
  tables take come from the pool, and no memory outside the tables changes.
\<close>

theorem mappages_maps_range:
  assumes "pt_ok s d ps" and "aligned va" and "n < 2 ^ 20" and "sz = of_nat (4096 * Suc n)"
    and "\<And>i. i \<le> n \<Longrightarrow> \<not> present (lookup (ram s) d (va + of_nat (4096 * i)))"
  shows "\<exists>r t qs. mappages d va sz pa perm s = Inr (r, t) \<and> pt_ext d s ps t qs \<and>
    (r = 0 \<and> lookup (ram t) d = map_range (lookup (ram s) d) va (Suc n) pa perm \<or>
     r = -1 \<and> qs = [] \<and> (\<exists>k\<le>n. lookup (ram t) d = map_range (lookup (ram s) d) va k pa perm))"
  unfolding mappages_loop_call [OF assms(2-4)] using assms(1-3,5) by (rule mappages_loop_ok)

text \<open>A machine with one empty page directory and one free page.\<close>

definition one_dir :: kmem where
  "one_dir = boot_mem\<lparr>ram := store32 (fill (\<lambda>_. 0) 0x80300000 1 PGSIZE) 0x80300000 0,
     freelist := 0x80300000\<rparr>"

lemma zero_load32 [simp]: "load32 (\<lambda>_. 0) a = 0"
  by (simp add: load32_def)

lemma pool_one_dir: "pool one_dir [0x80300000]"
proof -
  have "kpage boot_mem 0x80300000"
    by (simp add: kpage_def boot_mem_def aligned_def v2p_def)
  from kfree_pool [OF pool_boot_mem this] show ?thesis
    by (simp add: one_dir_def visited_def boot_mem_def)
qed

lemma pde_one_dir: "i < 1024 \<Longrightarrow> pde_at (ram one_dir) 0x80400000 i = 0"
proof -
  assume i: "i < 1024"
  have al: "aligned 0x80400000" "aligned 0x80300000" by (simp_all add: aligned_def)
  have "pde_at (ram one_dir) 0x80400000 i = pde_at (\<lambda>_. 0) 0x80400000 i"
  proof (rule pde_at_cong [OF al(1) i])
    fix x
    assume "PGROUNDDOWN x = 0x80400000"
    then show "ram one_dir x = 0"
      using al by (simp add: one_dir_def store32_page_frame aligned_aligned4 PGROUNDDOWN_aligned fill_page)
  qed
  then show ?thesis by (simp add: pde_at_def)
qed

lemma pt_ok_one_dir: "pt_ok one_dir 0x80400000 [0x80300000]"
proof -
  have "tables (ram one_dir) 0x80400000 = {}" by (auto simp: tables_def pde_one_dir)
  moreover have "kpage one_dir 0x80400000"
    by (simp add: one_dir_def kpage_def boot_mem_def aligned_def v2p_def)
  ultimately show ?thesis
    using pool_one_dir by (simp add: pt_ok_def pt_wf_def footprint_def aligned_def pde_one_dir)
qed

theorem mappages_maps_range_witness:
  "\<exists>r t. mappages 0x80400000 0 4096 0x500000 6 one_dir = Inr (r, t)"
proof -
  have np: "\<not> present (lookup (ram one_dir) 0x80400000 (0 + of_nat (4096 * i)))" for i
    by (simp add: lookup_def pde_one_dir PDX_less)
  have "\<exists>r t qs. mappages 0x80400000 0 4096 0x500000 6 one_dir = Inr (r, t) \<and>
      pt_ext 0x80400000 one_dir [0x80300000] t qs \<and>
      (r = 0 \<and> lookup (ram t) 0x80400000 =
         map_range (lookup (ram one_dir) 0x80400000) 0 (Suc 0) 0x500000 6 \<or>
       r = -1 \<and> qs = [] \<and> (\<exists>k\<le>0. lookup (ram t) 0x80400000 =
         map_range (lookup (ram one_dir) 0x80400000) 0 k 0x500000 6))"
    by (rule mappages_maps_range [OF pt_ok_one_dir _ _ _ np]) (simp_all add: aligned_def)
  then show ?thesis by blast
qed

end
