(* ===== verification/Cstring.thy ===== *)
theory Cstring
  imports Memory
begin

text \<open>
  The NUL-terminated string routines of \<^verbatim>\<open>string.c\<close>: comparison, bounded copies and
  length, translated loop by loop over byte-addressed memory.
\<close>

section \<open>Strings (string.c)\<close>

text \<open>
  The comparison routine only reads, so it is stated over what its two pointers read at each
  offset; a pointer into memory and an array embedded in a structure are both instances.
\<close>

fun strncmp_at :: "(nat \<Rightarrow> uchar) \<Rightarrow> (nat \<Rightarrow> uchar) \<Rightarrow> nat \<Rightarrow> nat \<Rightarrow> int" where
  "strncmp_at p q i 0 = 0"
| "strncmp_at p q i (Suc k) =
     (if p i \<noteq> 0 \<and> p i = q i then strncmp_at p q (Suc i) k
      else uint (p i) - uint (q i))"

definition strncmp :: "memory \<Rightarrow> uint \<Rightarrow> uint \<Rightarrow> uint \<Rightarrow> int" where
  "strncmp m p q n =
     strncmp_at (\<lambda>i. m (p + of_nat i)) (\<lambda>i. m (q + of_nat i)) 0 (unat n)"

function strncpy_pad :: "memory \<Rightarrow> uint \<Rightarrow> int \<Rightarrow> memory" where
  "strncpy_pad m s n = (if n > 0 then strncpy_pad (m(s := 0)) (s + 1) (n - 1) else m)"
  by pat_completeness auto
termination
  by (relation "measure (\<lambda>(m, s, n). nat n)") auto

function strncpy :: "memory \<Rightarrow> uint \<Rightarrow> uint \<Rightarrow> int \<Rightarrow> memory" where
  "strncpy m s t n =
     (if n > 0 then
        if m t \<noteq> 0 then strncpy (m(s := m t)) (s + 1) (t + 1) (n - 1)
        else strncpy_pad (m(s := m t)) (s + 1) (n - 1)
      else strncpy_pad m s (n - 1))"
  by pat_completeness auto
termination
  by (relation "measure (\<lambda>(m, s, t, n). nat n)") auto

function safestrcpy_loop :: "memory \<Rightarrow> uint \<Rightarrow> uint \<Rightarrow> int \<Rightarrow> memory" where
  "safestrcpy_loop m s t n =
     (if n - 1 > 0 then
        if m t \<noteq> 0 then safestrcpy_loop (m(s := m t)) (s + 1) (t + 1) (n - 1)
        else m(s := m t, s + 1 := 0)
      else m(s := 0))"
  by pat_completeness auto
termination
  by (relation "measure (\<lambda>(m, s, t, n). nat n)") auto

definition safestrcpy :: "memory \<Rightarrow> uint \<Rightarrow> uint \<Rightarrow> int \<Rightarrow> memory" where
  "safestrcpy m s t n = (if n \<le> 0 then m else safestrcpy_loop m s t n)"

partial_function (option) strlen_from :: "memory \<Rightarrow> uint \<Rightarrow> int \<Rightarrow> int option" where
  "strlen_from m s n = (if m (s + of_int n) = 0 then Some n else strlen_from m s (n + 1))"

definition strlen :: "memory \<Rightarrow> uint \<Rightarrow> int option" where
  "strlen m s = strlen_from m s 0"

declare strncpy_pad.simps [simp del] strncpy.simps [simp del] safestrcpy_loop.simps [simp del]

section \<open>String routines\<close>

lemma strncmp_at_zero:
  "strncmp_at p q i k = 0 \<longleftrightarrow> (\<forall>j<k. (\<forall>l<j. p (i + l) \<noteq> 0) \<longrightarrow> p (i + j) = q (i + j))"
proof (induction k arbitrary: i)
  case (Suc k)
  show ?case
  proof (cases "p i \<noteq> 0 \<and> p i = q i")
    case True
    have "(\<forall>j<k. (\<forall>l<j. p (Suc i + l) \<noteq> 0) \<longrightarrow> p (Suc i + j) = q (Suc i + j))
      \<longleftrightarrow> (\<forall>j<Suc k. (\<forall>l<j. p (i + l) \<noteq> 0) \<longrightarrow> p (i + j) = q (i + j))"
      using True by (auto simp: All_less_Suc2)
    with True Suc show ?thesis by auto
  next
    case False
    then have "strncmp_at p q i (Suc k) = uint (p i) - uint (q i)" by auto
    also have "\<dots> = 0 \<longleftrightarrow> p i = q i"
      by (simp add: word_eq_iff_unsigned [where ?'a = int])
    also have "\<dots> \<longleftrightarrow> (\<forall>j<Suc k. (\<forall>l<j. p (i + l) \<noteq> 0) \<longrightarrow> p (i + j) = q (i + j))"
      using False by (auto simp: All_less_Suc2)
    finally show ?thesis .
  qed
qed simp

lemma strncpy_pad_stosb: "strncpy_pad m s (int k) = rep_stosb m s 0 k"
  by (induction k arbitrary: m s) (subst strncpy_pad.simps, simp)+

lemma strncpy_pad_nonpos: "n \<le> 0 \<Longrightarrow> strncpy_pad m s n = m"
  by (simp add: strncpy_pad.simps)

lemma unat_add_of_nat_diff:
  assumes "k \<le> 2 ^ 32" and "unat (x - s) < k"
  shows "\<exists>i<k. x = s + of_nat i"
proof -
  have "x = s + of_nat (unat (x - s))" by simp
  with assms(2) show ?thesis by blast
qed

lemma all_less_shift:
  "(\<forall>j<Suc n. P j) \<longleftrightarrow> P 0 \<and> (\<forall>j<n. P (Suc j))"
  by (auto simp: All_less_Suc2)

text \<open>
  \<open>strncpy\<close> of \<open>n\<close> bytes between blocks that do not overlap copies the
  source up to and including its NUL, pads with NUL, and leaves every other byte alone.
\<close>

lemma strncpy_apply:
  assumes "\<forall>i<k. \<forall>j<k. s + of_nat i \<noteq> t + of_nat j" and "k \<le> 2 ^ 32"
  shows "strncpy m s t (int k) x =
    (if unat (x - s) < k then
       if \<forall>j<unat (x - s). m (t + of_nat j) \<noteq> 0 then m (t + (x - s)) else 0
     else m x)"
  using assms
proof (induction k arbitrary: m s t)
  case 0
  then show ?case by (subst strncpy.simps) (simp add: strncpy_pad_nonpos)
next
  case (Suc k)
  let ?m = "m(s := m t)"
  have keep: "?m (t + of_nat j) = m (t + of_nat j)" if "j < Suc k" for j
  proof -
    have "s + of_nat 0 \<noteq> t + of_nat j" using Suc.prems(1) that by blast
    then show ?thesis by simp
  qed
  show ?case
  proof (cases "m t = 0")
    case True
    then have eq: "strncpy m s t (int (Suc k)) = rep_stosb ?m (s + 1) 0 k"
      by (subst strncpy.simps) (simp add: strncpy_pad_stosb)
    have r: "strncpy m s t (int (Suc k)) x = (if unat (x - (s + 1)) < k then 0 else ?m x)"
      unfolding eq using Suc.prems(2) by (subst rep_stosb_apply) simp_all
    show ?thesis
    proof (cases "x = s")
      case True
      then have "unat (x - (s + 1)) = 2 ^ 32 - 1"
        by (simp add: unsigned_minus_1_eq_mask mask_eq_exp_minus_1)
      with True Suc.prems(2) show ?thesis unfolding r by simp
    next
      case False
      have "\<not> (\<forall>j<unat (x - s). m (t + of_nat j) \<noteq> 0)"
        unfolding unat_diff_Suc [OF False] all_less_shift using \<open>m t = 0\<close> by simp
      with False show ?thesis unfolding r unat_diff_Suc [OF False] by auto
    qed
  next
    case False
    then have step: "strncpy m s t (int (Suc k)) = strncpy ?m (s + 1) (t + 1) (int k)"
      by (subst strncpy.simps) simp
    have IH: "strncpy ?m (s + 1) (t + 1) (int k) x =
      (if unat (x - (s + 1)) < k then
         if \<forall>j<unat (x - (s + 1)). ?m (t + 1 + of_nat j) \<noteq> 0 then ?m (t + 1 + (x - (s + 1))) else 0
       else ?m x)"
    proof (rule Suc.IH)
      show "\<forall>i<k. \<forall>j<k. s + 1 + of_nat i \<noteq> t + 1 + of_nat j"
        using Suc.prems(1) by auto
    qed (use Suc.prems(2) in simp)
    show ?thesis
    proof (cases "x = s")
      case True
      then have "unat (x - (s + 1)) = 2 ^ 32 - 1"
        by (simp add: unsigned_minus_1_eq_mask mask_eq_exp_minus_1)
      with True Suc.prems(2) show ?thesis unfolding step IH by simp
    next
      case neq: False
      let ?i = "unat (x - (s + 1))"
      have i: "unat (x - s) = Suc ?i" by (rule unat_diff_Suc [OF neq])
      have src: "?m (t + 1 + of_nat j) = m (t + of_nat (Suc j))" if "j < k" for j
        using keep [of "Suc j"] that by (simp add: add.assoc)
      have xs: "t + 1 + (x - (s + 1)) = t + 1 + of_nat ?i" "t + (x - s) = t + of_nat (Suc ?i)"
        using i by (simp_all only: i [symmetric] of_nat_unat ucast_id)
      have all: "(\<forall>j<unat (x - s). m (t + of_nat j) \<noteq> 0)
          \<longleftrightarrow> (\<forall>j<?i. ?m (t + 1 + of_nat j) \<noteq> 0)" if "?i < k"
        unfolding i all_less_shift using False src that by auto
      show ?thesis
      proof (cases "?i < k")
        case True
        show ?thesis
          unfolding step IH all [OF True] xs src [OF True]
          using True i by (simp only: Suc_less_eq if_True)
      next
        case False
        then show ?thesis unfolding step IH using i neq by simp
      qed
    qed
  qed
qed

text \<open>
  \<open>safestrcpy\<close> into a block of \<open>n\<close> bytes: \<open>len\<close> is the length of
  the source string, cut at \<open>n - 1\<close>.
\<close>

lemma safestrcpy_loop_apply:
  assumes "\<forall>i<k. \<forall>j<k. s + of_nat i \<noteq> t + of_nat j" and "k \<le> 2 ^ 32"
    and "len < k" and "\<forall>i<len. m (t + of_nat i) \<noteq> 0"
    and "Suc len = k \<or> m (t + of_nat len) = 0"
  shows "(\<forall>i<len. safestrcpy_loop m s t (int k) (s + of_nat i) = m (t + of_nat i))
    \<and> safestrcpy_loop m s t (int k) (s + of_nat len) = 0
    \<and> (\<forall>x. k \<le> unat (x - s) \<longrightarrow> safestrcpy_loop m s t (int k) x = m x)"
  using assms
proof (induction len arbitrary: m s t k)
  case 0
  show ?case
  proof (cases "k = 1")
    case True
    then show ?thesis by (subst (1 2 3) safestrcpy_loop.simps) auto
  next
    case False
    with 0 have "m t = 0" "1 < k" by auto
    moreover have "x \<noteq> s \<and> x \<noteq> s + 1" if "k \<le> unat (x - s)" for x
      using that \<open>1 < k\<close> by (auto simp: unat_word_ariths)
    ultimately show ?thesis by (subst (1 2 3) safestrcpy_loop.simps) auto
  qed
next
  case (Suc len)
  let ?m = "m(s := m t)"
  obtain k' where k: "k = Suc k'" using Suc.prems(3) by (cases k) auto
  have keep: "?m (t + of_nat j) = m (t + of_nat j)" if "j < k" for j
  proof -
    have "s + of_nat 0 \<noteq> t + of_nat j" using Suc.prems(1,3) that by blast
    then show ?thesis by simp
  qed
  have keep': "?m (t + 1 + of_nat j) = m (t + of_nat (Suc j))" if "Suc j < k" for j
    using keep [OF that] by (simp add: add.assoc)
  have "m t \<noteq> 0" using Suc.prems(4) [rule_format, of 0] by simp
  moreover have "int k - 1 = int k'" "0 < int k'" using Suc.prems(3) k by auto
  ultimately have step: "safestrcpy_loop m s t (int k) = safestrcpy_loop ?m (s + 1) (t + 1) (int k')"
    by (subst safestrcpy_loop.simps) (simp only: if_True simp_thms)
  have IH: "(\<forall>i<len. safestrcpy_loop ?m (s + 1) (t + 1) (int k') (s + 1 + of_nat i)
        = ?m (t + 1 + of_nat i))
    \<and> safestrcpy_loop ?m (s + 1) (t + 1) (int k') (s + 1 + of_nat len) = 0
    \<and> (\<forall>x. k' \<le> unat (x - (s + 1)) \<longrightarrow> safestrcpy_loop ?m (s + 1) (t + 1) (int k') x = ?m x)"
  proof (rule Suc.IH)
    show "\<forall>i<k'. \<forall>j<k'. s + 1 + of_nat i \<noteq> t + 1 + of_nat j"
      using Suc.prems(1) k by auto
    show "\<forall>i<len. ?m (t + 1 + of_nat i) \<noteq> 0"
      using keep' Suc.prems(3,4) k by auto
    show "Suc len = k' \<or> ?m (t + 1 + of_nat len) = 0"
      using keep' [of len] Suc.prems(3,5) k by auto
  qed (use Suc.prems k in auto)
  have base: "safestrcpy_loop ?m (s + 1) (t + 1) (int k') s = m t"
  proof -
    have "unat (s - (s + 1)) = 2 ^ 32 - 1"
      by (simp add: unsigned_minus_1_eq_mask mask_eq_exp_minus_1)
    then show ?thesis using IH Suc.prems(2) k by simp
  qed
  show ?case
    unfolding step
  proof (intro conjI allI impI)
    fix i
    assume "i < Suc len"
    then show "safestrcpy_loop ?m (s + 1) (t + 1) (int k') (s + of_nat i) = m (t + of_nat i)"
      using IH keep' Suc.prems(3) base by (cases i) (auto simp: add.assoc)
  next
    show "safestrcpy_loop ?m (s + 1) (t + 1) (int k') (s + of_nat (Suc len)) = 0"
      using IH by (simp add: add.assoc)
  next
    fix x
    assume x: "k \<le> unat (x - s)"
    then have "x \<noteq> s" using k by auto
    with x IH k show "safestrcpy_loop ?m (s + 1) (t + 1) (int k') x = m x"
      by (simp add: unat_diff_Suc)
  qed
qed

lemma strlen_from_eq:
  assumes "m (s + of_nat k) = 0" and "\<forall>i<k. i \<ge> j \<longrightarrow> m (s + of_nat i) \<noteq> 0" and "j \<le> k"
  shows "strlen_from m s (int j) = Some (int k)"
  using assms(2,3)
proof (induction "k - j" arbitrary: j)
  case 0
  then show ?case using assms(1) by (subst strlen_from.simps) simp
next
  case (Suc d)
  then have "m (s + of_nat j) \<noteq> 0" by auto
  moreover have "strlen_from m s (int (Suc j)) = Some (int k)"
    using Suc by (intro Suc.hyps(1)) auto
  ultimately show ?case by (subst strlen_from.simps) (simp add: add.commute)
qed

section \<open>Properties\<close>

text \<open>
  (C28) \<open>safestrcpy\<close> into \<open>n > 0\<close> bytes always leaves a terminated string
  there: the source string cut at \<open>n - 1\<close> characters, whose \<open>strlen\<close> is that
  length, and no byte outside the \<open>n\<close> changes.
\<close>

theorem safestrcpy_terminated:
  assumes "0 < k" and "k \<le> 2 ^ 32"
    and "\<forall>i<k. \<forall>j<k. s + of_nat i \<noteq> t + of_nat j"
    and "len < k" and "\<forall>i<len. m (t + of_nat i) \<noteq> 0"
    and "Suc len = k \<or> m (t + of_nat len) = 0"
  shows "strlen (safestrcpy m s t (int k)) s = Some (int len) \<and>
    (\<forall>i<len. safestrcpy m s t (int k) (s + of_nat i) = m (t + of_nat i)) \<and>
    (\<forall>x. k \<le> unat (x - s) \<longrightarrow> safestrcpy m s t (int k) x = m x)"
proof -
  have eq: "safestrcpy m s t (int k) = safestrcpy_loop m s t (int k)"
    using assms(1) by (simp add: safestrcpy_def)
  note loop = safestrcpy_loop_apply [OF assms(3,2,4,5,6)]
  have "strlen_from (safestrcpy_loop m s t (int k)) s (int 0) = Some (int len)"
    using loop assms(5) by (intro strlen_from_eq) auto
  with loop show ?thesis by (simp add: eq strlen_def)
qed

definition name_bytes :: memory where
  "name_bytes = (\<lambda>_. 0)(100 := 0x6c, 101 := 0x6f, 102 := 0x6e, 103 := 0x67)"

theorem safestrcpy_terminated_witness:
  "strlen (safestrcpy name_bytes 200 100 3) 200 = Some 2 \<and>
   strlen (safestrcpy name_bytes 200 100 8) 200 = Some 4"
proof -
  have d: "\<forall>i<k. \<forall>j<k. (200::uint) + of_nat i \<noteq> 100 + of_nat j" if "k \<le> 8" for k :: nat
    using that by (auto simp: word_eq_iff_unsigned [where ?'a = nat] unat_word_ariths unat_of_nat)
  have c: "name_bytes (100 + of_nat i) \<noteq> 0" if "i < 4" for i
  proof -
    from that consider "i = 0" | "i = 1" | "i = 2" | "i = 3" by linarith
    then show ?thesis by cases (simp_all add: name_bytes_def)
  qed
  have "strlen (safestrcpy name_bytes 200 100 (int 3)) 200 = Some (int 2)"
    by (rule safestrcpy_terminated [THEN conjunct1]) (use d [of 3] c in simp_all)
  moreover have "strlen (safestrcpy name_bytes 200 100 (int 8)) 200 = Some (int 4)"
    by (rule safestrcpy_terminated [THEN conjunct1]) (use d [of 8] c in \<open>simp_all add: name_bytes_def\<close>)
  ultimately show ?thesis by simp
qed

text \<open>
  (C29) \<open>strncpy\<close> between disjoint blocks writes exactly \<open>n\<close> bytes: the source
  string up to its NUL and NULs after it (no terminator when the source is longer).
\<close>

theorem strncpy_correct:
  assumes "\<forall>i<k. \<forall>j<k. s + of_nat i \<noteq> t + of_nat j" and "k \<le> 2 ^ 32"
  shows "strncpy m s t (int k) =
    (\<lambda>x. if unat (x - s) < k then
            if \<forall>j<unat (x - s). m (t + of_nat j) \<noteq> 0 then m (t + (x - s)) else 0
          else m x)"
  by (rule ext) (rule strncpy_apply [OF assms])

theorem strncpy_correct_witness:
  "strncpy name_bytes 200 101 2 201 = 0x6e \<and> strncpy name_bytes 200 101 2 202 = name_bytes 202"
proof -
  have "\<forall>i<2. \<forall>j<2. (200::uint) + of_nat i \<noteq> 101 + of_nat j"
    by (auto simp: word_eq_iff_unsigned [where ?'a = nat] unat_word_ariths unat_of_nat)
  then show ?thesis
    using strncpy_correct [of 2 200 101 name_bytes] by (simp add: name_bytes_def)
qed

end
