(* ===== verification/Ptable.thy ===== *)
theory Ptable
  imports Address_Space Cstring
begin

text \<open>
  The process table of \<^verbatim>\<open>proc.c\<close> and \<^verbatim>\<open>proc.h\<close> and the operations on it
  that do not reach into the file system: allocation, growing, waking, killing, waiting, the
  scheduler and its entry points. A pointer into \<^verbatim>\<open>ptable.proc\<close> is an index; the
  operations that open, close or swap files are in theory \<open>Process\<close>.

  A switch of stacks (\<^verbatim>\<open>swtch\<close>) ends the definition that makes it: what the process
  does when it is resumed is a definition of its own, named with \<open>resume\<close>.
\<close>

section \<open>State\<close>

datatype procstate =
  UNUSED | EMBRYO | SLEEPING | RUNNABLE | RUNNING | ZOMBIE | SLEEPING_SUSPENDED | RUNNABLE_SUSPENDED

text \<open>The addresses the kernel sleeps on, by what they point to.\<close>

datatype chan = ChNull | ChProc nat | ChTicks | ChInode nat | ChBuf nat | ChPipeR uint | ChPipeW uint | ChInput | ChSwapFlag

record proc =
  p_sz :: uint
  p_pgdir :: uint
  p_kstack :: uint
  p_state :: procstate
  p_pid :: int
  p_parent :: "nat option"
  p_tf :: uint
  p_context :: uint
  p_chan :: chan
  p_killed :: bool
  p_ofile :: "nat \<Rightarrow> nat option"
  p_cwd :: "nat option"
  p_name :: string
  p_swap :: "nat option"
  p_swapFileName :: string
  p_swappingOut :: bool
  p_wokenUp :: bool
  p_has_shm :: int

text \<open>
  \<open>curproc\<close> is the per-processor variable \<^verbatim>\<open>proc\<close>; \<open>sym_forkret\<close> and
  \<open>sym_trapret\<close> are the addresses of those two functions.
\<close>

record ptable = vm +
  procs :: "proc list"
  nextpid :: int
  initproc :: "nat option"
  inswapper :: "nat option"
  swapFlag :: bool
  swappedout :: int
  curproc :: "nat \<Rightarrow> nat option"
  ticks :: uint
  sym_forkret :: uint
  sym_trapret :: uint

definition upd_proc :: "nat \<Rightarrow> (proc \<Rightarrow> proc) \<Rightarrow> 'a ptable_scheme \<Rightarrow> 'a ptable_scheme" where
  "upd_proc i f s = s\<lparr>procs := (procs s)[i := f (procs s ! i)]\<rparr>"

text \<open>The current process; code that dereferences a null \<^verbatim>\<open>proc\<close> faults.\<close>

definition myproc :: "'a ptable_scheme \<Rightarrow> kerror + nat" where
  "myproc s = (case curproc s (mycpu s) of None \<Rightarrow> Inl (Fault ''proc'') | Some i \<Rightarrow> Inr i)"

text \<open>A loop that runs its body for each index in turn.\<close>

fun foldE :: "('i \<Rightarrow> 's \<Rightarrow> 'e + 's) \<Rightarrow> 'i list \<Rightarrow> 's \<Rightarrow> 'e + 's" where
  "foldE f [] s = Inr s"
| "foldE f (i # is) s = bindE (f i s) (foldE f is)"

definition find_proc :: "(proc \<Rightarrow> bool) \<Rightarrow> 'a ptable_scheme \<Rightarrow> nat option" where
  "find_proc p s = find (\<lambda>i. p (procs s ! i)) [0..<NPROC]"

section \<open>Creation\<close>

definition pinit :: "'a ptable_scheme \<Rightarrow> 'a ptable_scheme" where
  "pinit s = initlock WakeupLock (initlock SwapLock (initlock PtableLock s))"

text \<open>
  The swap file name of a process: a tens character and a units character computed from the pid,
  truncated to \<^verbatim>\<open>char\<close>, and the suffix, copied up to the first NUL by
  \<^verbatim>\<open>safestrcpy\<close>.
\<close>

definition swap_name :: "int \<Rightarrow> string" where
  "swap_name pid =
     takeWhile (\<lambda>c. c \<noteq> CHR 0x00)
       ([if pid div 10 = 0 then CHR ''0'' else char_of (nat ((48 + pid div 10) mod 256)),
         char_of (nat ((48 + pid mod 10) mod 256))] @ ''.swap'')"

definition allocproc :: "'a ptable_scheme \<Rightarrow> kerror + (nat option \<times> 'a ptable_scheme)" where
  "allocproc s =
     bindE (acquire PtableLock s) (\<lambda>s.
     case find_proc (\<lambda>p. p_state p = UNUSED) s of
       None \<Rightarrow> bindE (release PtableLock s) (\<lambda>s. Inr (None, s))
     | Some p \<Rightarrow>
         let s = upd_proc p (\<lambda>q. q\<lparr>p_state := EMBRYO, p_pid := nextpid s\<rparr>) s;
             s = s\<lparr>nextpid := nextpid s + 1\<rparr>
         in bindE (release PtableLock s) (\<lambda>s.
            bindE (kalloc s) (\<lambda>(ks, s).
            let s = upd_proc p (\<lambda>q. q\<lparr>p_kstack := ks\<rparr>) s
            in if ks = 0 then Inr (None, upd_proc p (\<lambda>q. q\<lparr>p_state := UNUSED\<rparr>) s)
               else
                 let sp = ks + KSTACKSIZE;
                     sp = sp - 76;
                     s = upd_proc p (\<lambda>q. q\<lparr>p_tf := sp\<rparr>) s;
                     sp = sp - 4;
                     s = s\<lparr>ram := store32 (ram s) sp (sym_trapret s)\<rparr>;
                     sp = sp - 20;
                     s = upd_proc p (\<lambda>q. q\<lparr>p_context := sp\<rparr>) s;
                     s = s\<lparr>ram := memset (ram s) sp 0 20\<rparr>;
                     s = s\<lparr>ram := store32 (ram s) (sp + 16) (sym_forkret s)\<rparr>
                 in Inr (Some p, upd_proc p (\<lambda>q. q\<lparr>p_swapFileName := swap_name (p_pid q)\<rparr>) s))))"

definition growproc :: "int \<Rightarrow> 'a ptable_scheme \<Rightarrow> kerror + (int \<times> 'a ptable_scheme)" where
  "growproc n s =
     bindE (myproc s) (\<lambda>p.
     let q = procs s ! p;
         sz = p_sz q
     in bindE
          (if n > 0 then allocuvm (p_pgdir q) sz (sz + of_int n) s
           else if n < 0 then deallocuvm (p_pgdir q) sz (sz + of_int n) s
           else Inr (sz, s)) (\<lambda>(sz', s).
        if n \<noteq> 0 \<and> sz' = 0 then Inr (-1, s)
        else
          let s = upd_proc p (\<lambda>q. q\<lparr>p_sz := sz'\<rparr>) s
          in bindE (switchuvm (p_kstack q) (p_pgdir q) s) (\<lambda>s. Inr (0, s))))"

section \<open>Waking and killing\<close>

definition wakeup1_body :: "chan \<Rightarrow> nat \<Rightarrow> 'a ptable_scheme \<Rightarrow> kerror + 'a ptable_scheme" where
  "wakeup1_body ch i s =
     (let p = procs s ! i
      in if p_state p = SLEEPING \<and> p_chan p = ch then
           if p_swappingOut p then Inr (upd_proc i (\<lambda>q. q\<lparr>p_wokenUp := True\<rparr>) s)
           else Inr (upd_proc i (\<lambda>q. q\<lparr>p_state := RUNNABLE\<rparr>) s)
         else if p_state p = SLEEPING_SUSPENDED \<and> p_chan p = ch then
           bindE (acquire SwapLock s) (\<lambda>s.
           let s = s\<lparr>swappedout := swappedout s + 1\<rparr>;
               s = upd_proc i (\<lambda>q. q\<lparr>p_state := RUNNABLE_SUSPENDED\<rparr>) s
           in case inswapper s of
                None \<Rightarrow> Inl (Fault ''inswapper'')
              | Some k \<Rightarrow> release SwapLock (upd_proc k (\<lambda>q. q\<lparr>p_state := RUNNABLE\<rparr>) s))
         else Inr s)"

definition wakeup1 :: "chan \<Rightarrow> 'a ptable_scheme \<Rightarrow> kerror + 'a ptable_scheme" where
  "wakeup1 ch s = foldE (wakeup1_body ch) [0..<NPROC] s"

definition wakeup :: "chan \<Rightarrow> 'a ptable_scheme \<Rightarrow> kerror + 'a ptable_scheme" where
  "wakeup ch s = bindE (acquire PtableLock s) (\<lambda>s. bindE (wakeup1 ch s) (release PtableLock))"

definition kill :: "int \<Rightarrow> 'a ptable_scheme \<Rightarrow> kerror + (int \<times> 'a ptable_scheme)" where
  "kill pid s =
     bindE (acquire PtableLock s) (\<lambda>s.
     case find_proc (\<lambda>p. p_pid p = pid) s of
       None \<Rightarrow> bindE (release PtableLock s) (\<lambda>s. Inr (-1, s))
     | Some i \<Rightarrow>
         let s = upd_proc i (\<lambda>q. q\<lparr>p_killed := True\<rparr>) s
         in bindE
              (if p_state (procs s ! i) = SLEEPING then Inr (upd_proc i (\<lambda>q. q\<lparr>p_state := RUNNABLE\<rparr>) s)
               else if p_state (procs s ! i) = SLEEPING_SUSPENDED then
                 bindE (acquire SwapLock s) (\<lambda>s.
                 let s = s\<lparr>swappedout := swappedout s + 1\<rparr>;
                     s = upd_proc i (\<lambda>q. q\<lparr>p_state := RUNNABLE_SUSPENDED\<rparr>) s
                 in case inswapper s of
                      None \<Rightarrow> Inl (Fault ''inswapper'')
                    | Some k \<Rightarrow> release SwapLock (upd_proc k (\<lambda>q. q\<lparr>p_state := RUNNABLE\<rparr>) s))
               else Inr s) (\<lambda>s.
            bindE (release PtableLock s) (\<lambda>s. Inr (0, s))))"

section \<open>Switching\<close>

text \<open>
  \<open>sched\<close> up to the switch; the saved \<open>intena\<close> is put back by
  \<open>sched_resume\<close> when the process runs again.
\<close>

definition sched :: "'a ptable_scheme \<Rightarrow> kerror + (bool \<times> 'a ptable_scheme)" where
  "sched s =
     (if \<not> holding PtableLock s then Inl (Panic ''sched ptable.lock'')
      else if cpu_ncli (cpus s (mycpu s)) \<noteq> 1 then Inl (Panic ''sched locks'')
      else bindE (myproc s) (\<lambda>p.
        if p_state (procs s ! p) = RUNNING then Inl (Panic ''sched running'')
        else if cpu_if (cpus s (mycpu s)) then Inl (Panic ''sched interruptible'')
        else Inr (cpu_intena (cpus s (mycpu s)), s)))"

definition sched_resume :: "bool \<Rightarrow> 'a ptable_scheme \<Rightarrow> 'a ptable_scheme" where
  "sched_resume intena s =
     s\<lparr>cpus := (cpus s)(mycpu s := (cpus s (mycpu s))\<lparr>cpu_intena := intena\<rparr>)\<rparr>"

definition yield :: "'a ptable_scheme \<Rightarrow> kerror + (bool \<times> 'a ptable_scheme)" where
  "yield s =
     bindE (acquire PtableLock s) (\<lambda>s.
     bindE (myproc s) (\<lambda>p. sched (upd_proc p (\<lambda>q. q\<lparr>p_state := RUNNABLE\<rparr>) s)))"

definition yield_resume :: "bool \<Rightarrow> 'a ptable_scheme \<Rightarrow> kerror + 'a ptable_scheme" where
  "yield_resume intena s = release PtableLock (sched_resume intena s)"

text \<open>
  The body of the scheduler's loop for one table slot, up to the switch to the process, and the
  part after the process has switched back.
\<close>

definition sched_dispatch :: "nat \<Rightarrow> 'a ptable_scheme \<Rightarrow> kerror + 'a ptable_scheme" where
  "sched_dispatch p s =
     (let s = s\<lparr>curproc := (curproc s)(mycpu s := Some p)\<rparr>
      in bindE (switchuvm (p_kstack (procs s ! p)) (p_pgdir (procs s ! p)) s) (\<lambda>s.
         Inr (upd_proc p (\<lambda>q. q\<lparr>p_state := RUNNING\<rparr>) s)))"

definition sched_return :: "'a ptable_scheme \<Rightarrow> 'a ptable_scheme" where
  "sched_return s = (switchkvm s)\<lparr>curproc := (curproc (switchkvm s))(mycpu s := None)\<rparr>"

definition sti :: "'a machine_scheme \<Rightarrow> 'a machine_scheme" where
  "sti s = s\<lparr>cpus := (cpus s)(mycpu s := (cpus s (mycpu s))\<lparr>cpu_if := True\<rparr>)\<rparr>"

text \<open>
  One pass of the scheduler over the table. \<open>run\<close> stands for everything that happens
  between switching to a process and its switching back.
\<close>

fun scheduler_pass ::
    "('a ptable_scheme \<Rightarrow> kerror + 'a ptable_scheme) \<Rightarrow> nat list \<Rightarrow> 'a ptable_scheme \<Rightarrow> kerror + 'a ptable_scheme" where
  "scheduler_pass run [] s = Inr s"
| "scheduler_pass run (p # ps) s =
     (if p_state (procs s ! p) \<noteq> RUNNABLE then scheduler_pass run ps s
      else bindE (sched_dispatch p s) (\<lambda>s.
           bindE (run s) (\<lambda>s. scheduler_pass run ps (sched_return s))))"

definition scheduler ::
    "('a ptable_scheme \<Rightarrow> kerror + 'a ptable_scheme) \<Rightarrow> 'a ptable_scheme \<Rightarrow> kerror + 'a ptable_scheme" where
  "scheduler run s =
     bindE (acquire PtableLock (sti s)) (\<lambda>s.
     bindE (scheduler_pass run [0..<NPROC] s) (release PtableLock))"

section \<open>Waiting for children\<close>

datatype wait_result = Reaped int | NoChildren | MustSleep

definition reap :: "nat \<Rightarrow> 'a ptable_scheme \<Rightarrow> kerror + 'a ptable_scheme" where
  "reap i s =
     bindE (kfree (p_kstack (procs s ! i)) s) (\<lambda>s.
     let s = upd_proc i (\<lambda>q. q\<lparr>p_kstack := 0\<rparr>) s
     in bindE (freevm (p_pgdir (procs s ! i)) s) (\<lambda>s.
        Inr (upd_proc i (\<lambda>q. q\<lparr>p_state := UNUSED, p_pid := 0, p_parent := None,
          p_name := [], p_killed := False\<rparr>) s)))"

text \<open>
  One round of \<open>wait\<close> with the table lock held: it reaps a zombie, gives up, or asks to
  sleep (which keeps the lock, since the caller sleeps on it and goes round again).
\<close>

definition wait_round :: "'a ptable_scheme \<Rightarrow> kerror + (wait_result \<times> 'a ptable_scheme)" where
  "wait_round s =
     bindE (myproc s) (\<lambda>me.
     case find_proc (\<lambda>p. p_parent p = Some me \<and> p_state p = ZOMBIE) s of
       Some i \<Rightarrow>
         let pid = p_pid (procs s ! i)
         in bindE (reap i s) (\<lambda>s. bindE (release PtableLock s) (\<lambda>s. Inr (Reaped pid, s)))
     | None \<Rightarrow>
         if find_proc (\<lambda>p. p_parent p = Some me) s = None \<or> p_killed (procs s ! me)
         then bindE (release PtableLock s) (\<lambda>s. Inr (NoChildren, s))
         else Inr (MustSleep, s))"

definition wait :: "'a ptable_scheme \<Rightarrow> kerror + (wait_result \<times> 'a ptable_scheme)" where
  "wait s = bindE (acquire PtableLock s) wait_round"

section \<open>Signals, debugging, accounting\<close>

definition register_handler :: "uint \<Rightarrow> 'a ptable_scheme \<Rightarrow> kerror + 'a ptable_scheme" where
  "register_handler sighandler s =
     bindE (myproc s) (\<lambda>p.
     let tf = p_tf (procs s ! p);
         esp = load32 (ram s) (tf + 68)
     in bindE (uva2ka (p_pgdir (procs s ! p)) esp s) (\<lambda>addr.
        if esp AND 0xFFF = 0 then Inl (Panic ''esp_offset == 0'')
        else
          let s = s\<lparr>ram := store32 (ram s) (addr + ((esp - 4) AND 0xFFF)) (load32 (ram s) (tf + 56))\<rparr>;
              s = s\<lparr>ram := store32 (ram s) (tf + 68) (esp - 4)\<rparr>
          in Inr (s\<lparr>ram := store32 (ram s) (tf + 56) sighandler\<rparr>)))"

fun state_name :: "procstate \<Rightarrow> string" where
  "state_name UNUSED = ''unused''"
| "state_name EMBRYO = ''embryo''"
| "state_name SLEEPING = ''sleep ''"
| "state_name RUNNABLE = ''runble''"
| "state_name RUNNING = ''run   ''"
| "state_name ZOMBIE = ''zombie''"
| "state_name SLEEPING_SUSPENDED = ''???''"
| "state_name RUNNABLE_SUSPENDED = ''???''"

text \<open>The lines \<open>procdump\<close> prints: pid, state, name and, for a sleeper, its call stack.\<close>

definition procdump :: "'a ptable_scheme \<Rightarrow> (int \<times> string \<times> string \<times> uint list) list" where
  "procdump s =
     map (\<lambda>p. (p_pid p, state_name (p_state p), p_name p,
            if p_state p = SLEEPING
            then takeWhile (\<lambda>pc. pc \<noteq> 0) (getcallerpcs (ram s) (load32 (ram s) (p_context p + 12) + 8))
            else []))
       (filter (\<lambda>p. p_state p \<noteq> UNUSED) (procs s))"

text \<open>
  \<open>getAllocatedPages\<close> scans every entry of every present table; with no process of that
  pid the loop variable is left one past the array.
\<close>

definition count_user :: "memory \<Rightarrow> uint \<Rightarrow> nat" where
  "count_user m pt = length (filter (\<lambda>k. load32 m (pt + 4 * of_nat k) AND PTE_U \<noteq> 0) [0..<1024])"

definition getAllocatedPages :: "int \<Rightarrow> 'a ptable_scheme \<Rightarrow> kerror + (int \<times> 'a ptable_scheme)" where
  "getAllocatedPages pid s =
     bindE (acquire PtableLock s) (\<lambda>s.
     let r = find_proc (\<lambda>p. p_pid p = pid) s
     in bindE (release PtableLock s) (\<lambda>s.
        case r of
          None \<Rightarrow> Inl (Fault ''getAllocatedPages'')
        | Some i \<Rightarrow>
            let d = p_pgdir (procs s ! i);
                pdes = (if d = 0 then [] else map (\<lambda>j. load32 (ram s) (d + 4 * of_nat j)) [0..<1024])
            in Inr (int (sum_list (map (\<lambda>e. count_user (ram s) (p2v (PTE_ADDR e)))
                 (filter (\<lambda>e. e AND PTE_P \<noteq> 0) pdes))), s)))"

end
