(* ===== verification/Bio.thy ===== *)
theory Bio
  imports Ptable
begin

text \<open>
  The disk driver and the buffer cache: \<^verbatim>\<open>ide.c\<close>, its in-memory variant
  \<^verbatim>\<open>memide.c\<close>, \<^verbatim>\<open>bio.c\<close> and \<^verbatim>\<open>buf.h\<close>. Buffers are indices into
  \<open>bufs\<close>; the recency list is kept as the two pointer functions \<open>bnext\<close> and
  \<open>bprev\<close> over the ten buffers and the list head, as in the code.
\<close>

section \<open>State\<close>

text \<open>The contents of a 512-byte sector, by offset.\<close>

type_synonym block = "nat \<Rightarrow> uchar"

abbreviation (input) BSIZE :: nat where "BSIZE \<equiv> 512"

text \<open>The three bits of \<^verbatim>\<open>flags\<close> are three fields.\<close>

record buf =
  b_busy :: bool
  b_valid :: bool
  b_dirty :: bool
  b_dev :: uint
  b_sector :: uint
  b_data :: block

datatype bref = Head | Buf nat

text \<open>
  The controller: \<open>disk\<close> is the contents of its two drives, \<open>ide_cmd\<close> the
  command last written to its ports (write flag, drive, sector), \<open>ide_fail\<close> whether its
  status shows an error, and \<open>writes\<close> the history of sectors written, oldest first.
  \<open>idequeue\<close> is the chain of requests through \<^verbatim>\<open>qnext\<close>.
\<close>

record bcache = ptable +
  bufs :: "buf list"
  bnext :: "bref \<Rightarrow> bref"
  bprev :: "bref \<Rightarrow> bref"
  idequeue :: "nat list"
  havedisk1 :: bool
  disk :: "uint \<Rightarrow> uint \<Rightarrow> block"
  ide_cmd :: "(bool \<times> uint \<times> uint) option"
  ide_fail :: bool
  writes :: "(uint \<times> uint \<times> block) list"

definition upd_buf :: "nat \<Rightarrow> (buf \<Rightarrow> buf) \<Rightarrow> 'a bcache_scheme \<Rightarrow> 'a bcache_scheme" where
  "upd_buf i f s = s\<lparr>bufs := (bufs s)[i := f (bufs s ! i)]\<rparr>"

section \<open>The driver (ide.c)\<close>

text \<open>Once the drive is ready, \<open>idewait\<close> reports its error bits if asked to.\<close>

definition idewait :: "bool \<Rightarrow> 'a bcache_scheme \<Rightarrow> int" where
  "idewait checkerr s = (if checkerr \<and> ide_fail s then -1 else 0)"

text \<open>\<open>have1\<close> is what probing the second drive reads.\<close>

definition ideinit :: "bool \<Rightarrow> 'a bcache_scheme \<Rightarrow> 'a bcache_scheme" where
  "ideinit have1 s = (let s = initlock IdeLock s in if have1 then s\<lparr>havedisk1 := True\<rparr> else s)"

definition ide_drive :: "buf \<Rightarrow> uint" where
  "ide_drive b = b_dev b AND 1"

definition ide_sector :: "buf \<Rightarrow> uint" where
  "ide_sector b = b_sector b AND 0x0FFFFFFF"

definition disk_write :: "uint \<Rightarrow> uint \<Rightarrow> block \<Rightarrow> 'a bcache_scheme \<Rightarrow> 'a bcache_scheme" where
  "disk_write dv sec d s =
     s\<lparr>disk := (disk s)(dv := (disk s dv)(sec := d)), writes := writes s @ [(dv, sec, d)]\<rparr>"

text \<open>Starting a write hands the data to the drive; starting a read only sends the command.\<close>

definition idestart :: "nat \<Rightarrow> 'a bcache_scheme \<Rightarrow> 'a bcache_scheme" where
  "idestart i s =
     (let b = bufs s ! i;
          s = s\<lparr>ide_cmd := Some (b_dirty b, ide_drive b, ide_sector b)\<rparr>
      in if b_dirty b then disk_write (ide_drive b) (ide_sector b) (b_data b) s else s)"

definition insl :: "nat \<Rightarrow> 'a bcache_scheme \<Rightarrow> kerror + 'a bcache_scheme" where
  "insl i s =
     (case ide_cmd s of
        Some (w, dv, sec) \<Rightarrow> Inr (upd_buf i (\<lambda>b. b\<lparr>b_data := disk s dv sec\<rparr>) s)
      | None \<Rightarrow> Inl (Fault ''insl''))"

definition ideintr :: "'a bcache_scheme \<Rightarrow> kerror + 'a bcache_scheme" where
  "ideintr s =
     bindE (acquire IdeLock s) (\<lambda>s.
     case idequeue s of
       [] \<Rightarrow> release IdeLock s
     | i # q \<Rightarrow>
         let s = s\<lparr>idequeue := q\<rparr>
         in bindE (if \<not> b_dirty (bufs s ! i) \<and> idewait True s \<ge> 0 then insl i s else Inr s) (\<lambda>s.
            let s = upd_buf i (\<lambda>b. b\<lparr>b_valid := True, b_dirty := False\<rparr>) s;
                s = (case q of [] \<Rightarrow> s | k # _ \<Rightarrow> idestart k s)
            in release IdeLock s))"

definition buf_done :: "nat \<Rightarrow> 'a bcache_scheme \<Rightarrow> bool" where
  "buf_done i s \<longleftrightarrow> b_valid (bufs s ! i) \<and> \<not> b_dirty (bufs s ! i)"

text \<open>
  The busy-wait of \<open>iderw\<close>: with the lock dropped and interrupts on, the completion
  interrupt of the request at the front of the queue arrives. There is one for every queued
  request, which bounds the number of rounds.
\<close>

fun iderw_wait :: "nat \<Rightarrow> nat \<Rightarrow> 'a bcache_scheme \<Rightarrow> kerror + 'a bcache_scheme" where
  "iderw_wait 0 i s = Inl OutOfFuel"
| "iderw_wait (Suc n) i s =
     (if buf_done i s then release IdeLock s
      else bindE (release IdeLock s) (\<lambda>s.
           bindE (ideintr (sti s)) (\<lambda>s.
           bindE (acquire IdeLock s) (iderw_wait n i))))"

definition iderw :: "nat \<Rightarrow> 'a bcache_scheme \<Rightarrow> kerror + 'a bcache_scheme" where
  "iderw i s =
     (let b = bufs s ! i
      in if \<not> b_busy b then Inl (Panic ''iderw: buf not busy'')
         else if b_valid b \<and> \<not> b_dirty b then Inl (Panic ''iderw: nothing to do'')
         else if b_dev b \<noteq> 0 \<and> \<not> havedisk1 s then Inl (Panic ''iderw: ide disk 1 not present'')
         else bindE (acquire IdeLock s) (\<lambda>s.
           let s = s\<lparr>idequeue := idequeue s @ [i]\<rparr>;
               s = (if hd (idequeue s) = i then idestart i s else s)
           in iderw_wait (Suc (length (idequeue s))) i s))"

section \<open>The in-memory driver (memide.c)\<close>

definition mem_iderw :: "uint \<Rightarrow> nat \<Rightarrow> 'a bcache_scheme \<Rightarrow> kerror + 'a bcache_scheme" where
  "mem_iderw disksize i s =
     (let b = bufs s ! i
      in if \<not> b_busy b then Inl (Panic ''iderw: buf not busy'')
         else if b_valid b \<and> \<not> b_dirty b then Inl (Panic ''iderw: nothing to do'')
         else if b_dev b \<noteq> 1 then Inl (Panic ''iderw: request not for disk 1'')
         else if b_sector b \<ge> disksize then Inl (Panic ''iderw: sector out of range'')
         else
           let s = (if b_dirty b
                    then disk_write 1 (b_sector b) (b_data b) (upd_buf i (\<lambda>b. b\<lparr>b_dirty := False\<rparr>) s)
                    else upd_buf i (\<lambda>b. b\<lparr>b_data := disk s 1 (b_sector b)\<rparr>) s)
           in Inr (upd_buf i (\<lambda>b. b\<lparr>b_valid := True\<rparr>) s))"

section \<open>The cache (bio.c)\<close>

definition binit_one :: "nat \<Rightarrow> 'a bcache_scheme \<Rightarrow> 'a bcache_scheme" where
  "binit_one i s =
     (let s = s\<lparr>bnext := (bnext s)(Buf i := bnext s Head), bprev := (bprev s)(Buf i := Head)\<rparr>;
          s = upd_buf i (\<lambda>b. b\<lparr>b_dev := -1\<rparr>) s;
          s = s\<lparr>bprev := (bprev s)(bnext s Head := Buf i)\<rparr>
      in s\<lparr>bnext := (bnext s)(Head := Buf i)\<rparr>)"

definition binit :: "'a bcache_scheme \<Rightarrow> 'a bcache_scheme" where
  "binit s =
     (let s = initlock BcacheLock s;
          s = s\<lparr>bprev := (bprev s)(Head := Head), bnext := (bnext s)(Head := Head)\<rparr>
      in fold binit_one [0..<NBUF] s)"

text \<open>Following a pointer function from \<open>a\<close> until the head or until \<open>p\<close> holds.\<close>

fun bscan :: "nat \<Rightarrow> (bref \<Rightarrow> bref) \<Rightarrow> (nat \<Rightarrow> bool) \<Rightarrow> bref \<Rightarrow> kerror + nat option" where
  "bscan 0 nxt p a = Inl OutOfFuel"
| "bscan (Suc n) nxt p a =
     (case a of
        Head \<Rightarrow> Inr None
      | Buf i \<Rightarrow> if p i then Inr (Some i) else bscan n nxt p (nxt a))"

definition bget :: "uint \<Rightarrow> uint \<Rightarrow> 'a bcache_scheme \<Rightarrow> kerror + (nat \<times> 'a bcache_scheme)" where
  "bget dv sec s =
     bindE (acquire BcacheLock s) (\<lambda>s.
     bindE (bscan (Suc NBUF) (bnext s) (\<lambda>i. b_dev (bufs s ! i) = dv \<and> b_sector (bufs s ! i) = sec)
       (bnext s Head)) (\<lambda>r.
     case r of
       Some i \<Rightarrow>
         if \<not> b_busy (bufs s ! i)
         then bindE (release BcacheLock (upd_buf i (\<lambda>b. b\<lparr>b_busy := True\<rparr>) s)) (\<lambda>s. Inr (i, s))
         else Inl (Sleeps ''bget'')
     | None \<Rightarrow>
         bindE (bscan (Suc NBUF) (bprev s) (\<lambda>i. \<not> b_busy (bufs s ! i) \<and> \<not> b_dirty (bufs s ! i))
           (bprev s Head)) (\<lambda>r.
         case r of
           Some i \<Rightarrow>
             bindE (release BcacheLock (upd_buf i (\<lambda>b. b\<lparr>b_dev := dv, b_sector := sec,
               b_busy := True, b_valid := False, b_dirty := False\<rparr>) s)) (\<lambda>s. Inr (i, s))
         | None \<Rightarrow> Inl (Panic ''bget: no buffers''))))"

definition bread :: "uint \<Rightarrow> uint \<Rightarrow> 'a bcache_scheme \<Rightarrow> kerror + (nat \<times> 'a bcache_scheme)" where
  "bread dv sec s =
     bindE (bget dv sec s) (\<lambda>(i, s).
     if \<not> b_valid (bufs s ! i) then bindE (iderw i s) (\<lambda>s. Inr (i, s)) else Inr (i, s))"

definition bwrite :: "nat \<Rightarrow> 'a bcache_scheme \<Rightarrow> kerror + 'a bcache_scheme" where
  "bwrite i s =
     (if \<not> b_busy (bufs s ! i) then Inl (Panic ''bwrite'')
      else iderw i (upd_buf i (\<lambda>b. b\<lparr>b_dirty := True\<rparr>) s))"

definition move_front :: "nat \<Rightarrow> 'a bcache_scheme \<Rightarrow> 'a bcache_scheme" where
  "move_front i s =
     (let s = s\<lparr>bprev := (bprev s)(bnext s (Buf i) := bprev s (Buf i))\<rparr>;
          s = s\<lparr>bnext := (bnext s)(bprev s (Buf i) := bnext s (Buf i))\<rparr>;
          s = s\<lparr>bnext := (bnext s)(Buf i := bnext s Head)\<rparr>;
          s = s\<lparr>bprev := (bprev s)(Buf i := Head)\<rparr>;
          s = s\<lparr>bprev := (bprev s)(bnext s Head := Buf i)\<rparr>
      in s\<lparr>bnext := (bnext s)(Head := Buf i)\<rparr>)"

definition brelse :: "nat \<Rightarrow> 'a bcache_scheme \<Rightarrow> kerror + 'a bcache_scheme" where
  "brelse i s =
     (if \<not> b_busy (bufs s ! i) then Inl (Panic ''brelse'')
      else bindE (acquire BcacheLock s) (\<lambda>s.
        let s = move_front i s;
            s = upd_buf i (\<lambda>b. b\<lparr>b_busy := False\<rparr>) s
        in bindE (wakeup (ChBuf i) s) (release BcacheLock)))"

end
