(* ===== verification/Log.thy ===== *)
theory Log
  imports Bio
begin

text \<open>
  The write-ahead log of \<^verbatim>\<open>log.c\<close>, with \<^verbatim>\<open>readsb\<close> of
  \<^verbatim>\<open>fs.c\<close>, which it needs at boot.
\<close>

section \<open>Fields inside a block\<close>

definition get16 :: "block \<Rightarrow> nat \<Rightarrow> ushort" where
  "get16 d k = ucast (d k) OR push_bit 8 (ucast (d (k + 1)))"

definition get32 :: "block \<Rightarrow> nat \<Rightarrow> uint" where
  "get32 d k = ucast (d k) OR push_bit 8 (ucast (d (k + 1)))
     OR push_bit 16 (ucast (d (k + 2))) OR push_bit 24 (ucast (d (k + 3)))"

definition put16 :: "nat \<Rightarrow> ushort \<Rightarrow> block \<Rightarrow> block" where
  "put16 k v d = d(k := ucast v, k + 1 := ucast (drop_bit 8 v))"

definition put32 :: "nat \<Rightarrow> uint \<Rightarrow> block \<Rightarrow> block" where
  "put32 k v d = d(k := ucast v, k + 1 := ucast (drop_bit 8 v),
     k + 2 := ucast (drop_bit 16 v), k + 3 := ucast (drop_bit 24 v))"

definition set_data :: "nat \<Rightarrow> (block \<Rightarrow> block) \<Rightarrow> 'a bcache_scheme \<Rightarrow> 'a bcache_scheme" where
  "set_data i f s = upd_buf i (\<lambda>b. b\<lparr>b_data := f (b_data b)\<rparr>) s"

section \<open>State\<close>

record superblock =
  sb_size :: uint
  sb_nblocks :: uint
  sb_ninodes :: uint
  sb_nlog :: uint

text \<open>\<open>lh_n\<close> and \<open>lh_sector\<close> are the in-memory log header.\<close>

record logst = bcache +
  log_start :: uint
  log_size :: uint
  log_busy :: bool
  log_dev :: uint
  lh_n :: int
  lh_sector :: "nat \<Rightarrow> uint"

section \<open>Operations\<close>

definition readsb :: "uint \<Rightarrow> 'a bcache_scheme \<Rightarrow> kerror + (superblock \<times> 'a bcache_scheme)" where
  "readsb dv s =
     bindE (bread dv 1 s) (\<lambda>(bp, s).
     let d = b_data (bufs s ! bp);
         sb = \<lparr>sb_size = get32 d 0, sb_nblocks = get32 d 4, sb_ninodes = get32 d 8, sb_nlog = get32 d 12\<rparr>
     in bindE (brelse bp s) (\<lambda>s. Inr (sb, s)))"

definition install_one :: "nat \<Rightarrow> 'a logst_scheme \<Rightarrow> kerror + 'a logst_scheme" where
  "install_one tail s =
     bindE (bread (log_dev s) (log_start s + of_nat tail + 1) s) (\<lambda>(lbuf, s).
     bindE (bread (log_dev s) (lh_sector s tail) s) (\<lambda>(dbuf, s).
     let s = set_data dbuf (\<lambda>_. b_data (bufs s ! lbuf)) s
     in bindE (bwrite dbuf s) (\<lambda>s.
        bindE (brelse lbuf s) (brelse dbuf))))"

definition install_trans :: "'a logst_scheme \<Rightarrow> kerror + 'a logst_scheme" where
  "install_trans s = foldE install_one [0..<nat (lh_n s)] s"

text \<open>The header array has room for \<open>LOGSIZE\<close> sectors; copying more leaves it.\<close>

definition read_head :: "'a logst_scheme \<Rightarrow> kerror + 'a logst_scheme" where
  "read_head s =
     bindE (bread (log_dev s) (log_start s) s) (\<lambda>(b, s).
     let lh = b_data (bufs s ! b);
         s = s\<lparr>lh_n := sint (get32 lh 0)\<rparr>
     in if lh_n s > int LOGSIZE then Inl (Fault ''read_head'')
        else brelse b (s\<lparr>lh_sector :=
               (\<lambda>i. if i < nat (lh_n s) then get32 lh (4 + 4 * i) else lh_sector s i)\<rparr>))"

definition head_block :: "int \<Rightarrow> (nat \<Rightarrow> uint) \<Rightarrow> block \<Rightarrow> block" where
  "head_block n sectors d =
     fold (\<lambda>i. put32 (4 + 4 * i) (sectors i)) [0..<nat n] (put32 0 (of_int n) d)"

definition write_head :: "'a logst_scheme \<Rightarrow> kerror + 'a logst_scheme" where
  "write_head s =
     bindE (bread (log_dev s) (log_start s) s) (\<lambda>(b, s).
     let s = set_data b (head_block (lh_n s) (lh_sector s)) s
     in bindE (bwrite b s) (brelse b))"

definition recover_from_log :: "'a logst_scheme \<Rightarrow> kerror + 'a logst_scheme" where
  "recover_from_log s =
     bindE (read_head s) (\<lambda>s.
     bindE (install_trans s) (\<lambda>s.
     write_head (s\<lparr>lh_n := 0\<rparr>)))"

definition initlog :: "'a logst_scheme \<Rightarrow> kerror + 'a logst_scheme" where
  "initlog s =
     (if 4 + 4 * LOGSIZE \<ge> BSIZE then Inl (Panic ''initlog: too big logheader'')
      else
        bindE (readsb ROOTDEV (initlock LogLock s)) (\<lambda>(sb, s).
        recover_from_log (s\<lparr>log_start := sb_size sb - sb_nlog sb, log_size := sb_nlog sb,
          log_dev := ROOTDEV\<rparr>)))"

text \<open>While another transaction is open, \<open>begin_trans\<close> polls without giving up.\<close>

definition begin_trans :: "'a logst_scheme \<Rightarrow> kerror + 'a logst_scheme" where
  "begin_trans s =
     bindE (acquire LogLock s) (\<lambda>s.
     if log_busy s then Inl (Spins ''begin_trans'')
     else release LogLock (s\<lparr>log_busy := True\<rparr>))"

definition commit_trans :: "'a logst_scheme \<Rightarrow> kerror + 'a logst_scheme" where
  "commit_trans s =
     bindE
       (if lh_n s > 0 then
          bindE (write_head s) (\<lambda>s.
          bindE (install_trans s) (\<lambda>s.
          write_head (s\<lparr>lh_n := 0\<rparr>)))
        else Inr s) (\<lambda>s.
     bindE (acquire LogLock s) (\<lambda>s.
     release LogLock (s\<lparr>log_busy := False\<rparr>)))"

definition log_slot :: "uint \<Rightarrow> 'a logst_scheme \<Rightarrow> nat" where
  "log_slot sec s =
     (case find (\<lambda>i. lh_sector s i = sec) [0..<nat (lh_n s)] of Some i \<Rightarrow> i | None \<Rightarrow> nat (lh_n s))"

definition log_write :: "nat \<Rightarrow> 'a logst_scheme \<Rightarrow> kerror + 'a logst_scheme" where
  "log_write b s =
     (if lh_n s \<ge> int LOGSIZE \<or> lh_n s \<ge> sint (log_size s) - 1 then Inl (Panic ''too big a transaction'')
      else if \<not> log_busy s then Inl (Panic ''write outside of trans'')
      else
        let sec = b_sector (bufs s ! b);
            i = log_slot sec s;
            s = s\<lparr>lh_sector := (lh_sector s)(i := sec)\<rparr>
        in bindE (bread (b_dev (bufs s ! b)) (log_start s + of_nat i + 1) s) (\<lambda>(lbuf, s).
           let s = set_data lbuf (\<lambda>_. b_data (bufs s ! b)) s
           in bindE (bwrite lbuf s) (\<lambda>s.
              bindE (brelse lbuf s) (\<lambda>s.
              let s = (if int i = lh_n s then s\<lparr>lh_n := lh_n s + 1\<rparr> else s)
              in Inr (upd_buf b (\<lambda>b. b\<lparr>b_dirty := True\<rparr>) s)))))"

end
