(* ===== verification/Fs.thy ===== *)
theory Fs
  imports Log
begin

text \<open>
  The file system proper, \<^verbatim>\<open>fs.c\<close>: block allocation in the bitmap, the inode cache,
  inode contents through direct and indirect blocks, directories and path names. Bytes moved to
  or from a caller's buffer are passed as lists. A path or file name is a string without its NUL;
  a name taken from a directory entry is all fourteen bytes of it.
\<close>

section \<open>State\<close>

abbreviation (input) NDIRECT :: nat where "NDIRECT \<equiv> 12"
abbreviation (input) NINDIRECT :: nat where "NINDIRECT \<equiv> 128"
abbreviation (input) MAXFILE :: nat where "MAXFILE \<equiv> 140"
abbreviation (input) IPB :: uint where "IPB \<equiv> 8"
abbreviation (input) BPB :: uint where "BPB \<equiv> 4096"
abbreviation (input) DIRSIZ :: nat where "DIRSIZ \<equiv> 14"
abbreviation (input) T_DIR :: ushort where "T_DIR \<equiv> 1"
abbreviation (input) T_FILE :: ushort where "T_FILE \<equiv> 2"
abbreviation (input) T_DEV :: ushort where "T_DEV \<equiv> 3"
abbreviation (input) ROOTINO :: uint where "ROOTINO \<equiv> 1"

definition IBLOCK :: "uint \<Rightarrow> uint" where
  "IBLOCK i = i div IPB + 2"

definition BBLOCK :: "uint \<Rightarrow> uint \<Rightarrow> uint" where
  "BBLOCK b ninodes = b div BPB + ninodes div IPB + 3"

record inode =
  i_dev :: uint
  i_inum :: uint
  i_ref :: int
  i_busy :: bool
  i_valid :: bool
  i_type :: ushort
  i_major :: ushort
  i_minor :: ushort
  i_nlink :: ushort
  i_size :: uint
  i_addrs :: "nat \<Rightarrow> uint"

record icache = logst +
  inodes :: "inode list"

definition upd_inode :: "nat \<Rightarrow> (inode \<Rightarrow> inode) \<Rightarrow> 'a icache_scheme \<Rightarrow> 'a icache_scheme" where
  "upd_inode i f s = s\<lparr>inodes := (inodes s)[i := f (inodes s ! i)]\<rparr>"

section \<open>Blocks\<close>

definition bzero :: "uint \<Rightarrow> uint \<Rightarrow> 'a icache_scheme \<Rightarrow> kerror + 'a icache_scheme" where
  "bzero dv bno s =
     bindE (bread dv bno s) (\<lambda>(bp, s).
     bindE (log_write bp (set_data bp (\<lambda>_ _. 0) s)) (brelse bp))"

definition bit_mask :: "nat \<Rightarrow> uchar" where
  "bit_mask bi = push_bit (bi mod 8) 1"

definition free_bit :: "block \<Rightarrow> nat \<Rightarrow> bool" where
  "free_bit d bi \<longleftrightarrow> d (bi div 8) AND bit_mask bi = 0"

text \<open>The bitmap blocks in turn; in each, the first clear bit that stands for a block.\<close>

fun balloc_loop :: "uint \<Rightarrow> superblock \<Rightarrow> nat list \<Rightarrow> 'a icache_scheme \<Rightarrow> kerror + (uint \<times> 'a icache_scheme)" where
  "balloc_loop dv sb [] s = Inl (Panic ''balloc: out of blocks'')"
| "balloc_loop dv sb (b # bs) s =
     bindE (bread dv (BBLOCK (of_nat b) (sb_ninodes sb)) s) (\<lambda>(bp, s).
     case find (\<lambda>bi. b + bi < unat (sb_size sb) \<and> free_bit (b_data (bufs s ! bp)) bi) [0..<4096] of
       Some bi \<Rightarrow>
         let s = set_data bp (\<lambda>d. d(bi div 8 := d (bi div 8) OR bit_mask bi)) s
         in bindE (log_write bp s) (\<lambda>s.
            bindE (brelse bp s) (\<lambda>s.
            bindE (bzero dv (of_nat (b + bi)) s) (\<lambda>s.
            Inr (of_nat (b + bi), s))))
     | None \<Rightarrow> bindE (brelse bp s) (balloc_loop dv sb bs))"

definition bitmap_starts :: "uint \<Rightarrow> nat list" where
  "bitmap_starts sz = map (\<lambda>k. 4096 * k) [0..<(unat sz + 4095) div 4096]"

definition balloc :: "uint \<Rightarrow> 'a icache_scheme \<Rightarrow> kerror + (uint \<times> 'a icache_scheme)" where
  "balloc dv s =
     bindE (readsb dv s) (\<lambda>(sb, s). balloc_loop dv sb (bitmap_starts (sb_size sb)) s)"

definition bfree :: "uint \<Rightarrow> uint \<Rightarrow> 'a icache_scheme \<Rightarrow> kerror + 'a icache_scheme" where
  "bfree dv b s =
     bindE (readsb dv s) (\<lambda>(sb, s).
     bindE (bread dv (BBLOCK b (sb_ninodes sb)) s) (\<lambda>(bp, s).
     let bi = unat b mod 4096
     in if free_bit (b_data (bufs s ! bp)) bi then Inl (Panic ''freeing free block'')
        else
          let s = set_data bp (\<lambda>d. d(bi div 8 := d (bi div 8) AND NOT (bit_mask bi))) s
          in bindE (log_write bp s) (brelse bp)))"

section \<open>Inodes\<close>

definition iinit :: "'a icache_scheme \<Rightarrow> 'a icache_scheme" where
  "iinit s = initlock IcacheLock s"

text \<open>The offset of an inode in its block, and reading and writing the 64-byte structure there.\<close>

definition dinode_off :: "uint \<Rightarrow> nat" where
  "dinode_off inum = 64 * unat (inum mod IPB)"

definition get_dinode :: "block \<Rightarrow> nat \<Rightarrow> inode \<Rightarrow> inode" where
  "get_dinode d k ip =
     ip\<lparr>i_type := get16 d k, i_major := get16 d (k + 2), i_minor := get16 d (k + 4),
        i_nlink := get16 d (k + 6), i_size := get32 d (k + 8),
        i_addrs := (\<lambda>j. if j < NDIRECT + 1 then get32 d (k + 12 + 4 * j) else i_addrs ip j)\<rparr>"

definition put_dinode :: "nat \<Rightarrow> inode \<Rightarrow> block \<Rightarrow> block" where
  "put_dinode k ip d =
     fold (\<lambda>j. put32 (k + 12 + 4 * j) (i_addrs ip j)) [0..<NDIRECT + 1]
       (put32 (k + 8) (i_size ip) (put16 (k + 6) (i_nlink ip) (put16 (k + 4) (i_minor ip)
         (put16 (k + 2) (i_major ip) (put16 k (i_type ip) d)))))"

definition iget :: "uint \<Rightarrow> uint \<Rightarrow> 'a icache_scheme \<Rightarrow> kerror + (nat \<times> 'a icache_scheme)" where
  "iget dv inum s =
     bindE (acquire IcacheLock s) (\<lambda>s.
     case find (\<lambda>i. i_ref (inodes s ! i) > 0 \<and> i_dev (inodes s ! i) = dv \<and> i_inum (inodes s ! i) = inum)
            [0..<NINODE] of
       Some i \<Rightarrow>
         bindE (release IcacheLock (upd_inode i (\<lambda>ip. ip\<lparr>i_ref := i_ref ip + 1\<rparr>) s)) (\<lambda>s. Inr (i, s))
     | None \<Rightarrow>
         (case find (\<lambda>i. i_ref (inodes s ! i) = 0) [0..<NINODE] of
            None \<Rightarrow> Inl (Panic ''iget: no inodes'')
          | Some i \<Rightarrow>
              bindE (release IcacheLock (upd_inode i (\<lambda>ip. ip\<lparr>i_dev := dv, i_inum := inum, i_ref := 1,
                i_busy := False, i_valid := False\<rparr>) s)) (\<lambda>s. Inr (i, s))))"

fun ialloc_loop :: "uint \<Rightarrow> ushort \<Rightarrow> nat list \<Rightarrow> 'a icache_scheme \<Rightarrow> kerror + (nat \<times> 'a icache_scheme)" where
  "ialloc_loop dv typ [] s = Inl (Panic ''ialloc: no inodes'')"
| "ialloc_loop dv typ (inum # ns) s =
     bindE (bread dv (IBLOCK (of_nat inum)) s) (\<lambda>(bp, s).
     let k = dinode_off (of_nat inum)
     in if get16 (b_data (bufs s ! bp)) k = 0 then
          let s = set_data bp (\<lambda>d. put16 k typ (\<lambda>j. if k \<le> j \<and> j < k + 64 then 0 else d j)) s
          in bindE (log_write bp s) (\<lambda>s.
             bindE (brelse bp s) (iget dv (of_nat inum)))
        else bindE (brelse bp s) (ialloc_loop dv typ ns))"

definition ialloc :: "uint \<Rightarrow> ushort \<Rightarrow> 'a icache_scheme \<Rightarrow> kerror + (nat \<times> 'a icache_scheme)" where
  "ialloc dv typ s =
     bindE (readsb dv s) (\<lambda>(sb, s). ialloc_loop dv typ [1..<unat (sb_ninodes sb)] s)"

definition iupdate :: "nat \<Rightarrow> 'a icache_scheme \<Rightarrow> kerror + 'a icache_scheme" where
  "iupdate i s =
     bindE (bread (i_dev (inodes s ! i)) (IBLOCK (i_inum (inodes s ! i))) s) (\<lambda>(bp, s).
     let s = set_data bp (put_dinode (dinode_off (i_inum (inodes s ! i))) (inodes s ! i)) s
     in bindE (log_write bp s) (brelse bp))"

definition idup :: "nat \<Rightarrow> 'a icache_scheme \<Rightarrow> kerror + (nat \<times> 'a icache_scheme)" where
  "idup i s =
     bindE (acquire IcacheLock s) (\<lambda>s.
     bindE (release IcacheLock (upd_inode i (\<lambda>ip. ip\<lparr>i_ref := i_ref ip + 1\<rparr>) s)) (\<lambda>s.
     Inr (i, s)))"

definition ilock :: "nat option \<Rightarrow> 'a icache_scheme \<Rightarrow> kerror + 'a icache_scheme" where
  "ilock ipo s =
     (case ipo of
        None \<Rightarrow> Inl (Panic ''ilock'')
      | Some i \<Rightarrow>
          if i_ref (inodes s ! i) < 1 then Inl (Panic ''ilock'')
          else bindE (acquire IcacheLock s) (\<lambda>s.
            if i_busy (inodes s ! i) then Inl (Sleeps ''ilock'')
            else bindE (release IcacheLock (upd_inode i (\<lambda>ip. ip\<lparr>i_busy := True\<rparr>) s)) (\<lambda>s.
              if \<not> i_valid (inodes s ! i) then
                bindE (bread (i_dev (inodes s ! i)) (IBLOCK (i_inum (inodes s ! i))) s) (\<lambda>(bp, s).
                let s = upd_inode i (get_dinode (b_data (bufs s ! bp)) (dinode_off (i_inum (inodes s ! i)))) s
                in bindE (brelse bp s) (\<lambda>s.
                   let s = upd_inode i (\<lambda>ip. ip\<lparr>i_valid := True\<rparr>) s
                   in if i_type (inodes s ! i) = 0 then Inl (Panic ''ilock: no type'') else Inr s))
              else Inr s)))"

definition iunlock :: "nat option \<Rightarrow> 'a icache_scheme \<Rightarrow> kerror + 'a icache_scheme" where
  "iunlock ipo s =
     (case ipo of
        None \<Rightarrow> Inl (Panic ''iunlock'')
      | Some i \<Rightarrow>
          if \<not> i_busy (inodes s ! i) \<or> i_ref (inodes s ! i) < 1 then Inl (Panic ''iunlock'')
          else bindE (acquire IcacheLock s) (\<lambda>s.
            bindE (wakeup (ChInode i) (upd_inode i (\<lambda>ip. ip\<lparr>i_busy := False\<rparr>) s)) (release IcacheLock)))"

section \<open>Contents\<close>

text \<open>
  Only the array bounds of \<^verbatim>\<open>addrs\<close> and of the indirect block are checked by the code.
\<close>

definition bmap :: "nat \<Rightarrow> uint \<Rightarrow> 'a icache_scheme \<Rightarrow> kerror + (uint \<times> 'a icache_scheme)" where
  "bmap i bn s =
     (if bn < 12 then
        let addr = i_addrs (inodes s ! i) (unat bn)
        in if addr = 0 then
             bindE (balloc (i_dev (inodes s ! i)) s) (\<lambda>(addr, s).
             Inr (addr, upd_inode i (\<lambda>ip. ip\<lparr>i_addrs := (i_addrs ip)(unat bn := addr)\<rparr>) s))
           else Inr (addr, s)
      else if bn - 12 < 128 then
        let k = unat (bn - 12)
        in bindE
             (if i_addrs (inodes s ! i) NDIRECT = 0 then
                bindE (balloc (i_dev (inodes s ! i)) s) (\<lambda>(addr, s).
                Inr (upd_inode i (\<lambda>ip. ip\<lparr>i_addrs := (i_addrs ip)(NDIRECT := addr)\<rparr>) s))
              else Inr s) (\<lambda>s.
           bindE (bread (i_dev (inodes s ! i)) (i_addrs (inodes s ! i) NDIRECT) s) (\<lambda>(bp, s).
           let addr = get32 (b_data (bufs s ! bp)) (4 * k)
           in if addr = 0 then
                bindE (balloc (i_dev (inodes s ! i)) s) (\<lambda>(addr, s).
                bindE (log_write bp (set_data bp (put32 (4 * k) addr) s)) (\<lambda>s.
                bindE (brelse bp s) (\<lambda>s. Inr (addr, s))))
              else bindE (brelse bp s) (\<lambda>s. Inr (addr, s))))
      else Inl (Panic ''bmap: out of range''))"

definition itrunc_direct :: "nat \<Rightarrow> nat \<Rightarrow> 'a icache_scheme \<Rightarrow> kerror + 'a icache_scheme" where
  "itrunc_direct i k s =
     (if i_addrs (inodes s ! i) k \<noteq> 0 then
        bindE (bfree (i_dev (inodes s ! i)) (i_addrs (inodes s ! i) k) s) (\<lambda>s.
        Inr (upd_inode i (\<lambda>ip. ip\<lparr>i_addrs := (i_addrs ip)(k := 0)\<rparr>) s))
      else Inr s)"

definition itrunc :: "nat \<Rightarrow> 'a icache_scheme \<Rightarrow> kerror + 'a icache_scheme" where
  "itrunc i s =
     bindE (foldE (itrunc_direct i) [0..<NDIRECT] s) (\<lambda>s.
     bindE
       (if i_addrs (inodes s ! i) NDIRECT \<noteq> 0 then
          bindE (bread (i_dev (inodes s ! i)) (i_addrs (inodes s ! i) NDIRECT) s) (\<lambda>(bp, s).
          bindE (foldE (\<lambda>j s.
            let a = get32 (b_data (bufs s ! bp)) (4 * j)
            in if a \<noteq> 0 then bfree (i_dev (inodes s ! i)) a s else Inr s) [0..<NINDIRECT] s) (\<lambda>s.
          bindE (brelse bp s) (\<lambda>s.
          bindE (bfree (i_dev (inodes s ! i)) (i_addrs (inodes s ! i) NDIRECT) s) (\<lambda>s.
          Inr (upd_inode i (\<lambda>ip. ip\<lparr>i_addrs := (i_addrs ip)(NDIRECT := 0)\<rparr>) s)))))
        else Inr s) (\<lambda>s.
     iupdate i (upd_inode i (\<lambda>ip. ip\<lparr>i_size := 0\<rparr>) s)))"

definition iput :: "nat \<Rightarrow> 'a icache_scheme \<Rightarrow> kerror + 'a icache_scheme" where
  "iput i s =
     bindE (acquire IcacheLock s) (\<lambda>s.
     let ip = inodes s ! i
     in bindE
          (if i_ref ip = 1 \<and> i_valid ip \<and> i_nlink ip = 0 then
             if i_busy ip then Inl (Panic ''iput busy'')
             else
               bindE (release IcacheLock (upd_inode i (\<lambda>ip. ip\<lparr>i_busy := True\<rparr>) s)) (\<lambda>s.
               bindE (itrunc i s) (\<lambda>s.
               bindE (iupdate i (upd_inode i (\<lambda>ip. ip\<lparr>i_type := 0\<rparr>) s)) (\<lambda>s.
               bindE (acquire IcacheLock s) (\<lambda>s.
               wakeup (ChInode i) (upd_inode i (\<lambda>ip. ip\<lparr>i_busy := False, i_valid := False\<rparr>) s)))))
           else Inr s) (\<lambda>s.
        release IcacheLock (upd_inode i (\<lambda>ip. ip\<lparr>i_ref := i_ref ip - 1\<rparr>) s)))"

definition iunlockput :: "nat \<Rightarrow> 'a icache_scheme \<Rightarrow> kerror + 'a icache_scheme" where
  "iunlockput i s = bindE (iunlock (Some i) s) (iput i)"

record stat =
  st_type :: ushort
  st_dev :: uint
  st_ino :: uint
  st_nlink :: ushort
  st_size :: uint

definition stati :: "inode \<Rightarrow> stat" where
  "stati ip = \<lparr>st_type = i_type ip, st_dev = i_dev ip, st_ino = i_inum ip,
     st_nlink = i_nlink ip, st_size = i_size ip\<rparr>"

text \<open>Copying \<open>n\<close> bytes block by block from offset \<open>off\<close>.\<close>

function readi_loop :: "nat \<Rightarrow> nat \<Rightarrow> nat \<Rightarrow> 'a icache_scheme \<Rightarrow> kerror + (uchar list \<times> 'a icache_scheme)" where
  "readi_loop i off n s =
     (if n = 0 then Inr ([], s)
      else
        bindE (bmap i (of_nat (off div BSIZE)) s) (\<lambda>(addr, s).
        bindE (bread (i_dev (inodes s ! i)) addr s) (\<lambda>(bp, s).
        let m = min n (BSIZE - off mod BSIZE);
            bytes = map (b_data (bufs s ! bp)) [off mod BSIZE..<off mod BSIZE + m]
        in bindE (brelse bp s) (\<lambda>s.
           bindE (readi_loop i (off + m) (n - m) s) (\<lambda>(rest, s). Inr (bytes @ rest, s))))))"
  by pat_completeness auto
termination
  by (relation "measure (\<lambda>(i, off, n, s). n)") auto

declare readi_loop.simps [simp del]

definition readi_file :: "nat \<Rightarrow> uint \<Rightarrow> uint \<Rightarrow> 'a icache_scheme \<Rightarrow> kerror + (int \<times> uchar list \<times> 'a icache_scheme)" where
  "readi_file i off n s =
     (let sz = i_size (inodes s ! i)
      in if off > sz \<or> off + n < off then Inr (-1, [], s)
         else
           let n = (if off + n > sz then sz - off else n)
           in bindE (readi_loop i (unat off) (unat n) s) (\<lambda>(bytes, s). Inr (int (unat n), bytes, s)))"

text \<open>
  \<open>devsw\<close> is the device table: for a major number the device's read routine, if it has
  one, applied to the inode and the byte count.
\<close>

definition readi ::
    "(nat \<Rightarrow> (nat \<Rightarrow> uint \<Rightarrow> 'a icache_scheme \<Rightarrow> kerror + (int \<times> uchar list \<times> 'a icache_scheme)) option) \<Rightarrow>
     nat \<Rightarrow> uint \<Rightarrow> uint \<Rightarrow> 'a icache_scheme \<Rightarrow> kerror + (int \<times> uchar list \<times> 'a icache_scheme)" where
  "readi devsw i off n s =
     (if i_type (inodes s ! i) = T_DEV then
        let major = sint (i_major (inodes s ! i))
        in if major < 0 \<or> major \<ge> NDEV then Inr (-1, [], s)
           else (case devsw (nat major) of None \<Rightarrow> Inr (-1, [], s) | Some rd \<Rightarrow> rd i n s)
      else readi_file i off n s)"

function writei_loop :: "nat \<Rightarrow> nat \<Rightarrow> uchar list \<Rightarrow> 'a icache_scheme \<Rightarrow> kerror + (nat \<times> 'a icache_scheme)" where
  "writei_loop i off src s =
     (if src = [] then Inr (off, s)
      else
        bindE (bmap i (of_nat (off div BSIZE)) s) (\<lambda>(addr, s).
        bindE (bread (i_dev (inodes s ! i)) addr s) (\<lambda>(bp, s).
        let m = min (length src) (BSIZE - off mod BSIZE);
            o' = off mod BSIZE;
            s = set_data bp (\<lambda>d k. if o' \<le> k \<and> k < o' + m then src ! (k - o') else d k) s
        in bindE (log_write bp s) (\<lambda>s.
           bindE (brelse bp s) (\<lambda>s.
           writei_loop i (off + m) (drop m src) s)))))"
  by pat_completeness auto
termination
  by (relation "measure (\<lambda>(i, off, src, s). length src)") auto

declare writei_loop.simps [simp del]

definition writei_file :: "nat \<Rightarrow> uchar list \<Rightarrow> uint \<Rightarrow> 'a icache_scheme \<Rightarrow> kerror + (int \<times> 'a icache_scheme)" where
  "writei_file i src off s =
     (let n = of_nat (length src) :: uint
      in if off > i_size (inodes s ! i) \<or> off + n < off then Inr (-1, s)
         else if unat (off + n) > MAXFILE * BSIZE then Inr (-1, s)
         else
           bindE (writei_loop i (unat off) src s) (\<lambda>(off, s).
           if n > 0 \<and> of_nat off > i_size (inodes s ! i) then
             bindE (iupdate i (upd_inode i (\<lambda>ip. ip\<lparr>i_size := of_nat off\<rparr>) s)) (\<lambda>s.
             Inr (int (unat n), s))
           else Inr (int (unat n), s)))"

definition writei ::
    "(nat \<Rightarrow> (nat \<Rightarrow> uchar list \<Rightarrow> 'a icache_scheme \<Rightarrow> kerror + (int \<times> 'a icache_scheme)) option) \<Rightarrow>
     nat \<Rightarrow> uchar list \<Rightarrow> uint \<Rightarrow> 'a icache_scheme \<Rightarrow> kerror + (int \<times> 'a icache_scheme)" where
  "writei devsw i src off s =
     (if i_type (inodes s ! i) = T_DEV then
        let major = sint (i_major (inodes s ! i))
        in if major < 0 \<or> major \<ge> NDEV then Inr (-1, s)
           else (case devsw (nat major) of None \<Rightarrow> Inr (-1, s) | Some wr \<Rightarrow> wr i src s)
      else writei_file i src off s)"

section \<open>Directories\<close>

definition name_byte :: "string \<Rightarrow> nat \<Rightarrow> uchar" where
  "name_byte s i = (if i < length s then of_char (s ! i) else 0)"

definition namecmp :: "string \<Rightarrow> string \<Rightarrow> int" where
  "namecmp s t = strncmp_at (name_byte s) (name_byte t) 0 DIRSIZ"

text \<open>A directory entry as its sixteen bytes.\<close>

definition de_inum :: "uchar list \<Rightarrow> ushort" where
  "de_inum de = ucast (de ! 0) OR push_bit 8 (ucast (de ! 1))"

definition de_name :: "uchar list \<Rightarrow> string" where
  "de_name de = map (\<lambda>b. char_of (unat b)) (drop 2 de)"

definition make_dirent :: "ushort \<Rightarrow> string \<Rightarrow> uchar list" where
  "make_dirent inum name =
     [ucast inum, ucast (drop_bit 8 inum)] @
     map (\<lambda>k. if \<forall>j<k. name_byte name j \<noteq> 0 then name_byte name k else 0) [0..<DIRSIZ]"

definition dirent_offs :: "uint \<Rightarrow> nat list" where
  "dirent_offs sz = map (\<lambda>k. 16 * k) [0..<(unat sz + 15) div 16]"

fun dirlookup_loop ::
    "nat \<Rightarrow> string \<Rightarrow> nat list \<Rightarrow> 'a icache_scheme \<Rightarrow> kerror + ((nat \<times> uint) option \<times> 'a icache_scheme)" where
  "dirlookup_loop dp name [] s = Inr (None, s)"
| "dirlookup_loop dp name (off # offs) s =
     bindE (readi_file dp (of_nat off) 16 s) (\<lambda>(r, de, s).
     if r \<noteq> 16 then Inl (Panic ''dirlink read'')
     else if de_inum de = 0 then dirlookup_loop dp name offs s
     else if namecmp name (de_name de) = 0 then
       bindE (iget (i_dev (inodes s ! dp)) (ucast (de_inum de)) s) (\<lambda>(ip, s).
       Inr (Some (ip, of_nat off), s))
     else dirlookup_loop dp name offs s)"

definition dirlookup ::
    "nat \<Rightarrow> string \<Rightarrow> 'a icache_scheme \<Rightarrow> kerror + ((nat \<times> uint) option \<times> 'a icache_scheme)" where
  "dirlookup dp name s =
     (if i_type (inodes s ! dp) \<noteq> T_DIR then Inl (Panic ''dirlookup not DIR'')
      else dirlookup_loop dp name (dirent_offs (i_size (inodes s ! dp))) s)"

text \<open>The first free entry, or the offset just past the last one.\<close>

fun find_empty :: "nat \<Rightarrow> nat list \<Rightarrow> nat \<Rightarrow> 'a icache_scheme \<Rightarrow> kerror + (nat \<times> 'a icache_scheme)" where
  "find_empty dp [] end_off s = Inr (end_off, s)"
| "find_empty dp (off # offs) end_off s =
     bindE (readi_file dp (of_nat off) 16 s) (\<lambda>(r, de, s).
     if r \<noteq> 16 then Inl (Panic ''dirlink read'')
     else if de_inum de = 0 then Inr (off, s)
     else find_empty dp offs end_off s)"

definition dirlink :: "nat \<Rightarrow> string \<Rightarrow> uint \<Rightarrow> 'a icache_scheme \<Rightarrow> kerror + (int \<times> 'a icache_scheme)" where
  "dirlink dp name inum s =
     bindE (dirlookup dp name s) (\<lambda>(r, s).
     case r of
       Some (ip, _) \<Rightarrow> bindE (iput ip s) (\<lambda>s. Inr (-1, s))
     | None \<Rightarrow>
         let offs = dirent_offs (i_size (inodes s ! dp))
         in bindE (find_empty dp offs (16 * length offs) s) (\<lambda>(off, s).
            bindE (writei_file dp (make_dirent (ucast inum) name) (of_nat off) s) (\<lambda>(n, s).
            if n \<noteq> 16 then Inl (Panic ''dirlink'') else Inr (0, s))))"

section \<open>Paths\<close>

definition skip_slashes :: "string \<Rightarrow> string" where
  "skip_slashes path = dropWhile (\<lambda>c. c = CHR ''/'') path"

text \<open>The element copied out and the rest of the path, or nothing when no element is left.\<close>

definition skipelem :: "string \<Rightarrow> (string \<times> string) option" where
  "skipelem path =
     (let path = skip_slashes path
      in if path = [] then None
         else
           let e = takeWhile (\<lambda>c. c \<noteq> CHR ''/'') path;
               rest = dropWhile (\<lambda>c. c \<noteq> CHR ''/'') path
           in Some (take DIRSIZ e, skip_slashes rest))"

lemma skipelem_shorter: "skipelem path = Some (e, rest) \<Longrightarrow> length rest < length path"
proof -
  assume a: "skipelem path = Some (e, rest)"
  let ?p = "skip_slashes path"
  have ne: "?p \<noteq> []" and rest: "rest = skip_slashes (dropWhile (\<lambda>c. c \<noteq> CHR ''/'') ?p)"
    using a by (auto simp: skipelem_def Let_def split: if_splits)
  have "hd ?p \<noteq> CHR ''/''"
    using ne hd_dropWhile [of "\<lambda>c. c = CHR ''/''" path] by (auto simp: skip_slashes_def)
  then have "length (dropWhile (\<lambda>c. c \<noteq> CHR ''/'') ?p) < length ?p"
    using ne by (cases ?p) (auto simp: le_imp_less_Suc length_dropWhile_le)
  moreover have "length rest \<le> length (dropWhile (\<lambda>c. c \<noteq> CHR ''/'') ?p)"
    unfolding rest skip_slashes_def by (rule length_dropWhile_le)
  moreover have "length ?p \<le> length path" unfolding skip_slashes_def by (rule length_dropWhile_le)
  ultimately show ?thesis by linarith
qed

function namex_loop ::
    "string \<Rightarrow> bool \<Rightarrow> string \<Rightarrow> nat \<Rightarrow> 'a icache_scheme \<Rightarrow> kerror + ((nat \<times> string) option \<times> 'a icache_scheme)" where
  "namex_loop path parent name i s =
     (case skipelem path of
        None \<Rightarrow>
          if parent then bindE (iput i s) (\<lambda>s. Inr (None, s)) else Inr (Some (i, name), s)
      | Some (name, path) \<Rightarrow>
          bindE (ilock (Some i) s) (\<lambda>s.
          if i_type (inodes s ! i) \<noteq> T_DIR then bindE (iunlockput i s) (\<lambda>s. Inr (None, s))
          else if parent \<and> path = [] then bindE (iunlock (Some i) s) (\<lambda>s. Inr (Some (i, name), s))
          else bindE (dirlookup i name s) (\<lambda>(r, s).
            case r of
              None \<Rightarrow> bindE (iunlockput i s) (\<lambda>s. Inr (None, s))
            | Some (nxt, _) \<Rightarrow> bindE (iunlockput i s) (\<lambda>s. namex_loop path parent name nxt s))))"
  by pat_completeness auto
termination
  by (relation "measure (\<lambda>(path, parent, name, i, s). length path)") (auto dest: skipelem_shorter)

declare namex_loop.simps [simp del]

text \<open>
  The result is the inode with, for \<open>parent\<close>, the final element. A null
  \<^verbatim>\<open>cwd\<close> is dereferenced by \<^verbatim>\<open>idup\<close>.
\<close>

definition namex :: "string \<Rightarrow> bool \<Rightarrow> 'a icache_scheme \<Rightarrow> kerror + ((nat \<times> string) option \<times> 'a icache_scheme)" where
  "namex path parent s =
     bindE
       (if path \<noteq> [] \<and> hd path = CHR ''/'' then iget ROOTDEV ROOTINO s
        else bindE (myproc s) (\<lambda>p.
             case p_cwd (procs s ! p) of None \<Rightarrow> Inl (Fault ''cwd'') | Some i \<Rightarrow> idup i s)) (\<lambda>(i, s).
     namex_loop path parent [] i s)"

definition namei :: "string \<Rightarrow> 'a icache_scheme \<Rightarrow> kerror + (nat option \<times> 'a icache_scheme)" where
  "namei path s = bindE (namex path False s) (\<lambda>(r, s). Inr (map_option fst r, s))"

definition nameiparent :: "string \<Rightarrow> 'a icache_scheme \<Rightarrow> kerror + ((nat \<times> string) option \<times> 'a icache_scheme)" where
  "nameiparent path s = namex path True s"

end
