(* ===== verification/File.thy ===== *)
theory File
  imports Fs
begin

text \<open>
  Open files and pipes: \<^verbatim>\<open>file.c\<close>, \<^verbatim>\<open>file.h\<close> and \<^verbatim>\<open>pipe.c\<close>.
  A pipe structure lives in a page from the page allocator; \<open>pipes\<close> is its typed view by
  page address. A pipe operation that has to sleep ends with \<open>PBlocked\<close>, still holding
  the pipe's lock, and is resumed from the position it reached.
\<close>

section \<open>State\<close>

datatype ftype = FD_NONE | FD_PIPE | FD_INODE

record kfile =
  f_type :: ftype
  f_ref :: int
  f_readable :: bool
  f_writable :: bool
  f_pipe :: uint
  f_ip :: "nat option"
  f_off :: uint

abbreviation (input) PIPESIZE :: uint where "PIPESIZE \<equiv> 512"

record pipe =
  pi_data :: "nat \<Rightarrow> uchar"
  pi_nread :: uint
  pi_nwrite :: uint
  pi_readopen :: bool
  pi_writeopen :: bool

record ftable = icache +
  files :: "kfile list"
  pipes :: "uint \<Rightarrow> pipe"

definition upd_file :: "nat \<Rightarrow> (kfile \<Rightarrow> kfile) \<Rightarrow> 'a ftable_scheme \<Rightarrow> 'a ftable_scheme" where
  "upd_file i f s = s\<lparr>files := (files s)[i := f (files s ! i)]\<rparr>"

definition upd_pipe :: "uint \<Rightarrow> (pipe \<Rightarrow> pipe) \<Rightarrow> 'a ftable_scheme \<Rightarrow> 'a ftable_scheme" where
  "upd_pipe p f s = s\<lparr>pipes := (pipes s)(p := f (pipes s p))\<rparr>"

section \<open>Pipes\<close>

datatype pipe_result = PDone int | PBlocked nat

definition pipeclose :: "uint \<Rightarrow> bool \<Rightarrow> 'a ftable_scheme \<Rightarrow> kerror + 'a ftable_scheme" where
  "pipeclose p writable s =
     bindE (acquire (PipeLock p) s) (\<lambda>s.
     bindE
       (if writable then wakeup (ChPipeR p) (upd_pipe p (\<lambda>q. q\<lparr>pi_writeopen := False\<rparr>) s)
        else wakeup (ChPipeW p) (upd_pipe p (\<lambda>q. q\<lparr>pi_readopen := False\<rparr>) s)) (\<lambda>s.
     if \<not> pi_readopen (pipes s p) \<and> \<not> pi_writeopen (pipes s p)
     then bindE (release (PipeLock p) s) (kfree p)
     else release (PipeLock p) s))"

definition pipe_put :: "uchar \<Rightarrow> pipe \<Rightarrow> pipe" where
  "pipe_put c q =
     q\<lparr>pi_data := (pi_data q)(unat (pi_nwrite q mod PIPESIZE) := c), pi_nwrite := pi_nwrite q + 1\<rparr>"

definition pipe_full :: "pipe \<Rightarrow> bool" where
  "pipe_full q \<longleftrightarrow> pi_nwrite q = pi_nread q + PIPESIZE"

text \<open>
  The loop of \<open>pipewrite\<close>, entered with \<open>i\<close> bytes already written; \<open>n\<close>
  is the count the caller asked for, of which a negative one means no bytes.
\<close>

fun pipewrite_loop ::
    "uint \<Rightarrow> int \<Rightarrow> uchar list \<Rightarrow> nat \<Rightarrow> 'a ftable_scheme \<Rightarrow> kerror + (pipe_result \<times> 'a ftable_scheme)" where
  "pipewrite_loop p n [] i s =
     bindE (wakeup (ChPipeR p) s) (\<lambda>s.
     bindE (release (PipeLock p) s) (\<lambda>s. Inr (PDone n, s)))"
| "pipewrite_loop p n (c # cs) i s =
     (if pipe_full (pipes s p) then
        bindE (myproc s) (\<lambda>me.
        if \<not> pi_readopen (pipes s p) \<or> p_killed (procs s ! me)
        then bindE (release (PipeLock p) s) (\<lambda>s. Inr (PDone (-1), s))
        else bindE (wakeup (ChPipeR p) s) (\<lambda>s. Inr (PBlocked i, s)))
      else pipewrite_loop p n cs (i + 1) (upd_pipe p (pipe_put c) s))"

definition pipewrite ::
    "uint \<Rightarrow> int \<Rightarrow> uchar list \<Rightarrow> 'a ftable_scheme \<Rightarrow> kerror + (pipe_result \<times> 'a ftable_scheme)" where
  "pipewrite p n bytes s = bindE (acquire (PipeLock p) s) (pipewrite_loop p n bytes 0)"

definition pipe_empty :: "pipe \<Rightarrow> bool" where
  "pipe_empty q \<longleftrightarrow> pi_nread q = pi_nwrite q"

fun piperead_copy :: "nat \<Rightarrow> pipe \<Rightarrow> uchar list \<times> pipe" where
  "piperead_copy 0 q = ([], q)"
| "piperead_copy (Suc n) q =
     (if pipe_empty q then ([], q)
      else
        let c = pi_data q (unat (pi_nread q mod PIPESIZE));
            (cs, q') = piperead_copy n (q\<lparr>pi_nread := pi_nread q + 1\<rparr>)
        in (c # cs, q'))"

text \<open>From the emptiness test on, with the lock held.\<close>

definition piperead_locked ::
    "uint \<Rightarrow> nat \<Rightarrow> 'a ftable_scheme \<Rightarrow> kerror + (pipe_result \<times> uchar list \<times> 'a ftable_scheme)" where
  "piperead_locked p n s =
     (if pipe_empty (pipes s p) \<and> pi_writeopen (pipes s p) then
        bindE (myproc s) (\<lambda>me.
        if p_killed (procs s ! me)
        then bindE (release (PipeLock p) s) (\<lambda>s. Inr (PDone (-1), [], s))
        else Inr (PBlocked 0, [], s))
      else
        let (bytes, q) = piperead_copy n (pipes s p);
            s = upd_pipe p (\<lambda>_. q) s
        in bindE (wakeup (ChPipeW p) s) (\<lambda>s.
           bindE (release (PipeLock p) s) (\<lambda>s. Inr (PDone (int (length bytes)), bytes, s))))"

definition piperead ::
    "uint \<Rightarrow> nat \<Rightarrow> 'a ftable_scheme \<Rightarrow> kerror + (pipe_result \<times> uchar list \<times> 'a ftable_scheme)" where
  "piperead p n s = bindE (acquire (PipeLock p) s) (piperead_locked p n)"

section \<open>Files\<close>

definition fileinit :: "'a ftable_scheme \<Rightarrow> 'a ftable_scheme" where
  "fileinit s = initlock FtableLock s"

definition filealloc :: "'a ftable_scheme \<Rightarrow> kerror + (nat option \<times> 'a ftable_scheme)" where
  "filealloc s =
     bindE (acquire FtableLock s) (\<lambda>s.
     case find (\<lambda>i. f_ref (files s ! i) = 0) [0..<NFILE] of
       Some i \<Rightarrow> bindE (release FtableLock (upd_file i (\<lambda>f. f\<lparr>f_ref := 1\<rparr>) s)) (\<lambda>s. Inr (Some i, s))
     | None \<Rightarrow> bindE (release FtableLock s) (\<lambda>s. Inr (None, s)))"

definition filedup :: "nat \<Rightarrow> 'a ftable_scheme \<Rightarrow> kerror + (nat \<times> 'a ftable_scheme)" where
  "filedup i s =
     bindE (acquire FtableLock s) (\<lambda>s.
     if f_ref (files s ! i) < 1 then Inl (Panic ''filedup'')
     else bindE (release FtableLock (upd_file i (\<lambda>f. f\<lparr>f_ref := f_ref f + 1\<rparr>) s)) (\<lambda>s. Inr (i, s)))"

definition fileclose :: "nat \<Rightarrow> 'a ftable_scheme \<Rightarrow> kerror + 'a ftable_scheme" where
  "fileclose i s =
     bindE (acquire FtableLock s) (\<lambda>s.
     if f_ref (files s ! i) < 1 then Inl (Panic ''fileclose'')
     else
       let s = upd_file i (\<lambda>f. f\<lparr>f_ref := f_ref f - 1\<rparr>) s
       in if f_ref (files s ! i) > 0 then release FtableLock s
          else
            let ff = files s ! i
            in bindE (release FtableLock (upd_file i (\<lambda>f. f\<lparr>f_ref := 0, f_type := FD_NONE\<rparr>) s)) (\<lambda>s.
               case f_type ff of
                 FD_PIPE \<Rightarrow> pipeclose (f_pipe ff) (f_writable ff) s
               | FD_INODE \<Rightarrow>
                   bindE (begin_trans s) (\<lambda>s.
                   bindE (case f_ip ff of None \<Rightarrow> Inl (Fault ''fileclose'') | Some ip \<Rightarrow> iput ip s) commit_trans)
               | FD_NONE \<Rightarrow> Inr s))"

definition pipealloc :: "'a ftable_scheme \<Rightarrow> kerror + (int \<times> nat option \<times> nat option \<times> 'a ftable_scheme)" where
  "pipealloc s =
     bindE (filealloc s) (\<lambda>(f0, s).
     bindE (if f0 = None then Inr (None, s) else filealloc s) (\<lambda>(f1, s).
     bindE (if f0 = None \<or> f1 = None then Inr (0, s) else kalloc s) (\<lambda>(p, s).
     case (f0, f1) of
       (Some r, Some w) \<Rightarrow>
         if p \<noteq> 0 then
           let s = upd_pipe p (\<lambda>q. q\<lparr>pi_readopen := True, pi_writeopen := True, pi_nwrite := 0, pi_nread := 0\<rparr>) s;
               s = initlock (PipeLock p) s;
               s = upd_file r (\<lambda>f. f\<lparr>f_type := FD_PIPE, f_readable := True, f_writable := False, f_pipe := p\<rparr>) s;
               s = upd_file w (\<lambda>f. f\<lparr>f_type := FD_PIPE, f_readable := False, f_writable := True, f_pipe := p\<rparr>) s
           in Inr (0, f0, f1, s)
         else
           bindE (fileclose r s) (\<lambda>s. bindE (fileclose w s) (\<lambda>s. Inr (-1, f0, f1, s)))
     | (Some r, None) \<Rightarrow> bindE (fileclose r s) (\<lambda>s. Inr (-1, f0, f1, s))
     | (None, _) \<Rightarrow> Inr (-1, f0, f1, s))))"

definition filestat :: "nat \<Rightarrow> 'a ftable_scheme \<Rightarrow> kerror + (int \<times> stat option \<times> 'a ftable_scheme)" where
  "filestat i s =
     (let f = files s ! i
      in if f_type f = FD_INODE then
           bindE (ilock (f_ip f) s) (\<lambda>s.
           let st = stati (inodes s ! the (f_ip f))
           in bindE (iunlock (f_ip f) s) (\<lambda>s. Inr (0, Some st, s)))
         else Inr (-1, None, s))"

type_synonym 's devread = "nat \<Rightarrow> (nat \<Rightarrow> uint \<Rightarrow> 's \<Rightarrow> kerror + (int \<times> uchar list \<times> 's)) option"
type_synonym 's devwrite = "nat \<Rightarrow> (nat \<Rightarrow> uchar list \<Rightarrow> 's \<Rightarrow> kerror + (int \<times> 's)) option"

definition fileread ::
    "'a ftable_scheme devread \<Rightarrow> nat \<Rightarrow> int \<Rightarrow> 'a ftable_scheme \<Rightarrow> kerror + (int \<times> uchar list \<times> 'a ftable_scheme)" where
  "fileread dr i n s =
     (let f = files s ! i
      in if \<not> f_readable f then Inr (-1, [], s)
         else
           case f_type f of
             FD_PIPE \<Rightarrow>
               bindE (piperead (f_pipe f) (nat n) s) (\<lambda>(r, bytes, s).
               case r of PDone k \<Rightarrow> Inr (k, bytes, s) | PBlocked _ \<Rightarrow> Inl (Sleeps ''piperead''))
           | FD_INODE \<Rightarrow>
               bindE (ilock (f_ip f) s) (\<lambda>s.
               bindE (readi dr (the (f_ip f)) (f_off f) (of_int n) s) (\<lambda>(r, bytes, s).
               let s = (if r > 0 then upd_file i (\<lambda>f. f\<lparr>f_off := f_off f + of_int r\<rparr>) s else s)
               in bindE (iunlock (f_ip f) s) (\<lambda>s. Inr (r, bytes, s))))
           | FD_NONE \<Rightarrow> Inl (Panic ''fileread''))"

text \<open>
  The loop of \<open>filewrite\<close> over chunks of three blocks, each its own transaction;
  \<open>i\<close> counts the bytes written. The last component says whether all were.
\<close>

function filewrite_loop ::
    "'a ftable_scheme devwrite \<Rightarrow> nat \<Rightarrow> uchar list \<Rightarrow> 'a ftable_scheme \<Rightarrow> kerror + (bool \<times> 'a ftable_scheme)" where
  "filewrite_loop dw i bytes s =
     (if bytes = [] then Inr (True, s)
      else
        let n1 = min (length bytes) (((LOGSIZE - 1 - 1 - 2) div 2) * 512);
            ipo = f_ip (files s ! i)
        in bindE (begin_trans s) (\<lambda>s.
           bindE (ilock ipo s) (\<lambda>s.
           bindE (writei dw (the ipo) (take n1 bytes) (f_off (files s ! i)) s) (\<lambda>(r, s).
           let s = (if r > 0 then upd_file i (\<lambda>f. f\<lparr>f_off := f_off f + of_int r\<rparr>) s else s)
           in bindE (iunlock ipo s) (\<lambda>s.
              bindE (commit_trans s) (\<lambda>s.
              if r < 0 then Inr (False, s)
              else if r \<noteq> int n1 then Inl (Panic ''short filewrite'')
              else filewrite_loop dw i (drop n1 bytes) s))))))"
  by pat_completeness auto
termination
  by (relation "measure (\<lambda>(dw, i, bytes, s). length bytes)") auto

declare filewrite_loop.simps [simp del]

definition filewrite ::
    "'a ftable_scheme devwrite \<Rightarrow> nat \<Rightarrow> int \<Rightarrow> uchar list \<Rightarrow> 'a ftable_scheme \<Rightarrow> kerror + (int \<times> 'a ftable_scheme)" where
  "filewrite dw i n bytes s =
     (let f = files s ! i
      in if \<not> f_writable f then Inr (-1, s)
         else
           case f_type f of
             FD_PIPE \<Rightarrow>
               bindE (pipewrite (f_pipe f) n bytes s) (\<lambda>(r, s).
               case r of PDone k \<Rightarrow> Inr (k, s) | PBlocked _ \<Rightarrow> Inl (Sleeps ''pipewrite''))
           | FD_INODE \<Rightarrow>
               bindE (filewrite_loop dw i bytes s) (\<lambda>(ok, s).
               Inr (if ok \<and> int (length bytes) = n then n else -1, s))
           | FD_NONE \<Rightarrow> Inl (Panic ''filewrite''))"

end
