(* ===== verification/Shm.thy ===== *)
theory Shm
  imports File
begin

text \<open>
  System V style shared memory, the second half of \<^verbatim>\<open>kalloc.c\<close>. The two arrays of the
  structure \<^verbatim>\<open>shm\<close> keep their C dimensions: an index outside them, an uninitialised
  result and a store through a null page table entry are faults of the model.
\<close>

section \<open>State\<close>

abbreviation (input) numOfSegs :: nat where "numOfSegs \<equiv> 100"

text \<open>
  \<open>shm_refs key 0 64\<close> counts the attachments of a segment, \<open>shm_refs key 0 pid\<close> marks an
  attached process and \<open>shm_refs key 1 64\<close> is the number of pages.
\<close>

record shm = ftable +
  shm_seg :: "nat \<Rightarrow> nat \<Rightarrow> uint"
  shm_refs :: "nat \<Rightarrow> nat \<Rightarrow> nat \<Rightarrow> int"

definition set_seg :: "nat \<Rightarrow> nat \<Rightarrow> uint \<Rightarrow> 'a shm_scheme \<Rightarrow> 'a shm_scheme" where
  "set_seg key i v s = s\<lparr>shm_seg := (shm_seg s)(key := (shm_seg s key)(i := v))\<rparr>"

definition set_refs :: "nat \<Rightarrow> nat \<Rightarrow> nat \<Rightarrow> int \<Rightarrow> 'a shm_scheme \<Rightarrow> 'a shm_scheme" where
  "set_refs key a b v s =
     s\<lparr>shm_refs := (shm_refs s)(key := (shm_refs s key)(a := (shm_refs s key a)(b := v)))\<rparr>"

text \<open>The index a pid makes into the last dimension.\<close>

definition pid_index :: "int \<Rightarrow> kerror + nat" where
  "pid_index pid = (if 0 \<le> pid \<and> pid < 65 then Inr (nat pid) else Inl (Fault ''shm.refs''))"

section \<open>Segments\<close>

text \<open>The allocation loop; the result is the number of pages obtained.\<close>

fun shm_alloc :: "nat \<Rightarrow> nat \<Rightarrow> nat \<Rightarrow> 'a shm_scheme \<Rightarrow> kerror + (nat \<times> 'a shm_scheme)" where
  "shm_alloc key i 0 s = Inr (i, s)"
| "shm_alloc key i (Suc n) s =
     (if i \<ge> numOfSegs then Inl (Fault ''shm.seg'')
      else bindE (kalloc s) (\<lambda>(mem, s).
        let s = set_seg key i mem s
        in if mem = 0 then Inr (i, s) else shm_alloc key (i + 1) n s))"

definition shmget :: "int \<Rightarrow> uint \<Rightarrow> int \<Rightarrow> 'a shm_scheme \<Rightarrow> kerror + (int \<times> 'a shm_scheme)" where
  "shmget key sz shmflg s =
     (if key < 0 \<or> key > 1023 then Inr (-1, s)
      else
        let k = nat key
        in if shmflg = 20 then
             if k \<ge> numOfSegs then Inl (Fault ''shm.refs'')
             else if shm_refs s k 1 64 = 0 then
               let n = unat (PGROUNDUP sz) div 4096
               in bindE (shm_alloc k 0 n s) (\<lambda>(i, s).
                  if i = n then Inr (sint (shm_seg s k 0), set_refs k 1 64 (int n) s)
                  else bindE (foldE (\<lambda>j s. kfree (shm_seg s k j) s) [0..<i] s) (\<lambda>s. Inr (-1, s)))
             else Inr (-1, s)
           else if shmflg = 21 then
             if k \<ge> numOfSegs then Inl (Fault ''shm.refs'')
             else if shm_refs s k 1 64 = 0 then Inr (-1, s)
             else Inr (sint (shm_seg s k 0), s)
           else Inl (Fault ''shmget: ans''))"

definition find_seg :: "uint \<Rightarrow> 'a shm_scheme \<Rightarrow> nat option" where
  "find_seg a s = find (\<lambda>key. shm_seg s key 0 = a) [0..<numOfSegs]"

definition shmdel :: "int \<Rightarrow> 'a shm_scheme \<Rightarrow> kerror + (int \<times> 'a shm_scheme)" where
  "shmdel shmid s =
     (case find_seg (of_int shmid) s of
        None \<Rightarrow> Inr (-1, s)
      | Some key \<Rightarrow>
          if shm_refs s key 0 64 > 0 then Inr (-1, s)
          else
            let n = shm_refs s key 1 64
            in bindE
                 (foldE (\<lambda>i s.
                    bindE (kfree (shm_seg s key i) s) (\<lambda>s.
                    Inr (set_refs key 1 64 (shm_refs s key 1 64 - 1) s))) [0..<nat n] s) (\<lambda>s.
               Inr (n, s)))"

section \<open>Attaching and detaching\<close>

text \<open>
  The mapping loop of \<open>shmat\<close> from page \<open>i\<close>: the address after the last page and whether
  the flag was a valid one.
\<close>

fun shmat_loop ::
    "uint \<Rightarrow> nat \<Rightarrow> int \<Rightarrow> nat list \<Rightarrow> uint \<Rightarrow> bool \<Rightarrow> 'a shm_scheme \<Rightarrow> kerror + (uint \<times> bool \<times> 'a shm_scheme)" where
  "shmat_loop d key shmflg [] a ok s = Inr (a, ok, s)"
| "shmat_loop d key shmflg (i # is) a ok s =
     (if \<not> a < KERNBASE then Inr (a, ok, s)
      else
        let mem = shm_seg s key i
        in if shmflg = 22 then
             bindE (mappages d a PGSIZE (v2p mem) PTE_U s) (\<lambda>(_, s).
             shmat_loop d key shmflg is (a + PGSIZE) True s)
           else if shmflg = 23 then
             bindE (mappages d a PGSIZE (v2p mem) (PTE_W OR PTE_U) s) (\<lambda>(_, s).
             shmat_loop d key shmflg is (a + PGSIZE) True s)
           else shmat_loop d key shmflg is (a + PGSIZE) False s)"

definition shmat_attach :: "nat \<Rightarrow> nat \<Rightarrow> int \<Rightarrow> uint \<Rightarrow> 'a shm_scheme \<Rightarrow> kerror + (uint \<times> 'a shm_scheme)" where
  "shmat_attach me key shmflg a s =
     bindE (pid_index (p_pid (procs s ! me))) (\<lambda>pid.
     let s = set_refs key 0 64 (shm_refs s key 0 64 + 1) s;
         s = set_refs key 0 pid 1 s;
         s = upd_proc me (\<lambda>q. q\<lparr>p_has_shm := p_has_shm q + 1\<rparr>) s
     in bindE (shmat_loop (p_pgdir (procs s ! me)) key shmflg [0..<nat (shm_refs s key 1 64)] a False s) (\<lambda>(e, ok, s).
        if ok then Inr (a, upd_proc me (\<lambda>q. q\<lparr>p_sz := e\<rparr>) s) else Inr (0xFFFFFFFF, s)))"

definition shmat :: "int \<Rightarrow> int \<Rightarrow> 'a shm_scheme \<Rightarrow> kerror + (uint \<times> 'a shm_scheme)" where
  "shmat shmid shmflg s =
     bindE (acquire ShmLock s) (\<lambda>s.
     bindE
       (case find_seg (of_int shmid) s of
          None \<Rightarrow> Inr (0xFFFFFFFF, s)
        | Some key \<Rightarrow>
            if shm_refs s key 1 64 > 0 then
              bindE (myproc s) (\<lambda>me.
              let a = PGROUNDUP (p_sz (procs s ! me))
              in if a + PGSIZE \<ge> KERNBASE then Inr (0xFFFFFFFF, s)
                 else shmat_attach me key shmflg a s)
            else Inr (0xFFFFFFFF, s)) (\<lambda>(ans, s).
     bindE (release ShmLock s) (\<lambda>s. Inr (ans, s))))"

text \<open>
  The loop that clears the entries of \<open>n\<close> pages from \<open>b\<close>, below \<open>lim\<close>; it stores
  through the entry pointer even when there is no page table.
\<close>

fun clear_entries :: "uint \<Rightarrow> nat \<Rightarrow> uint \<Rightarrow> uint \<Rightarrow> 'a kmem_scheme \<Rightarrow> kerror + 'a kmem_scheme" where
  "clear_entries d 0 b lim s = Inr s"
| "clear_entries d (Suc n) b lim s =
     (if b < lim then
        bindE (walkpgdir d b False s) (\<lambda>(pte, s).
        if pte = 0 then Inl (Fault ''null pte'')
        else clear_entries d n (b + PGSIZE) lim (s\<lparr>ram := store32 (ram s) pte 0\<rparr>))
      else Inr s)"

text \<open>Both error returns of the search leave \<^verbatim>\<open>shm.lock\<close> held, as the code does.\<close>

definition shmdt :: "uint \<Rightarrow> 'a shm_scheme \<Rightarrow> kerror + (int \<times> 'a shm_scheme)" where
  "shmdt shmaddr s =
     bindE (myproc s) (\<lambda>me.
     bindE (walkpgdir (p_pgdir (procs s ! me)) shmaddr False s) (\<lambda>(pte, s).
     if pte = 0 then Inl (Fault ''null pte'')
     else
       let r = p2v (PTE_ADDR (load32 (ram s) pte))
       in bindE (acquire ShmLock s) (\<lambda>s.
          case find_seg r s of
            None \<Rightarrow> bindE (release ShmLock s) (\<lambda>s. Inr (-1, s))
          | Some key \<Rightarrow>
              if shm_refs s key 1 64 > 0 then
                if shm_refs s key 0 64 \<le> 0 then Inr (-1, s)
                else
                  bindE (pid_index (p_pid (procs s ! me))) (\<lambda>pid.
                  let s = set_refs key 0 64 (shm_refs s key 0 64 - 1) s;
                      s = set_refs key 0 pid 0 s;
                      s = upd_proc me (\<lambda>q. q\<lparr>p_has_shm := p_has_shm q - 1\<rparr>) s;
                      n = nat (shm_refs s key 1 64)
                  in bindE (release ShmLock s) (\<lambda>s.
                     bindE (clear_entries (p_pgdir (procs s ! me)) n shmaddr (shmaddr + of_nat n * PGSIZE) s) (\<lambda>s.
                     Inr (0, s))))
              else Inr (-1, s))))"

text \<open>
  The search of \<open>deallocshm\<close> for one key, from address \<open>a\<close>: the address where it stops is
  where the search for the next key starts.
\<close>

fun deallocshm_scan ::
    "nat \<Rightarrow> nat \<Rightarrow> nat \<Rightarrow> uint \<Rightarrow> 'a shm_scheme \<Rightarrow> kerror + (uint \<times> 'a shm_scheme)" where
  "deallocshm_scan 0 me key a s = Inl OutOfFuel"
| "deallocshm_scan (Suc fuel) me key a s =
     (if a < p_sz (procs s ! me) then
        bindE (walkpgdir (p_pgdir (procs s ! me)) a False s) (\<lambda>(pte, s).
        if pte = 0 then deallocshm_scan fuel me key (a + (NPTENTRIES - 1) * PGSIZE + PGSIZE) s
        else if load32 (ram s) pte AND PTE_P \<noteq> 0 \<and> shm_seg s key 0 = p2v (PTE_ADDR (load32 (ram s) pte)) then
          let n = nat (shm_refs s key 1 64)
          in bindE (clear_entries (p_pgdir (procs s ! me)) n a (a + of_nat n * PGSIZE) s) (\<lambda>s.
             Inr (a, if shm_refs s key 0 64 > 0 then set_refs key 0 64 (shm_refs s key 0 64 - 1) s else s))
        else deallocshm_scan fuel me key (a + PGSIZE) s)
      else Inr (a, s))"

fun deallocshm_loop :: "nat \<Rightarrow> nat list \<Rightarrow> uint \<Rightarrow> 'a shm_scheme \<Rightarrow> kerror + 'a shm_scheme" where
  "deallocshm_loop me [] a s = Inr s"
| "deallocshm_loop me (key # keys) a s =
     bindE (pid_index (p_pid (procs s ! me))) (\<lambda>pid.
     if shm_refs s key 0 pid \<noteq> 0 then
       bindE (deallocshm_scan (page_fuel (p_sz (procs s ! me))) me key a s) (\<lambda>(a, s). deallocshm_loop me keys a s)
     else deallocshm_loop me keys a s)"

definition deallocshm :: "'a shm_scheme \<Rightarrow> kerror + 'a shm_scheme" where
  "deallocshm s =
     bindE (acquire ShmLock s) (\<lambda>s.
     bindE (myproc s) (\<lambda>me.
     bindE (deallocshm_loop me [0..<numOfSegs] 0 s) (release ShmLock)))"

end
