(* ===== verification/Sysfile.thy ===== *)
theory Sysfile
  imports File Address_Space
begin

text \<open>
  The file system calls: fetching arguments from the user's memory (\<^verbatim>\<open>syscall.c\<close>
  up to \<^verbatim>\<open>argstr\<close>) and the handlers of \<^verbatim>\<open>sysfile.c\<close>. The kernel
  reads and writes user addresses through the page table of the current process; an address that is
  not mapped, or a store to a read-only page, is a page fault inside the kernel.
\<close>

section \<open>User memory\<close>

definition user_load8 :: "uint \<Rightarrow> uint \<Rightarrow> 'a vm_scheme \<Rightarrow> kerror + uchar" where
  "user_load8 d va s =
     (let e = lookup (ram s) d va
      in if present e then Inr (ram s (frame_of e + (va AND 0xFFF))) else Inl (Fault ''page fault''))"

definition user_store8 :: "uint \<Rightarrow> uint \<Rightarrow> uchar \<Rightarrow> 'a vm_scheme \<Rightarrow> kerror + 'a vm_scheme" where
  "user_store8 d va b s =
     (let e = lookup (ram s) d va
      in if present e \<and> e AND PTE_W \<noteq> 0
         then Inr (s\<lparr>ram := (ram s)(frame_of e + (va AND 0xFFF) := b)\<rparr>) else Inl (Fault ''page fault''))"

fun user_bytes :: "uint \<Rightarrow> uint \<Rightarrow> nat \<Rightarrow> 'a vm_scheme \<Rightarrow> kerror + uchar list" where
  "user_bytes d va 0 s = Inr []"
| "user_bytes d va (Suc n) s =
     bindE (user_load8 d va s) (\<lambda>b. bindE (user_bytes d (va + 1) n s) (\<lambda>bs. Inr (b # bs)))"

fun user_put :: "uint \<Rightarrow> uint \<Rightarrow> uchar list \<Rightarrow> 'a vm_scheme \<Rightarrow> kerror + 'a vm_scheme" where
  "user_put d va [] s = Inr s"
| "user_put d va (b # bs) s = bindE (user_store8 d va b s) (user_put d (va + 1) bs)"

definition le16 :: "ushort \<Rightarrow> uchar list" where
  "le16 v = [ucast v, ucast (drop_bit 8 v)]"

definition le32 :: "uint \<Rightarrow> uchar list" where
  "le32 v = [ucast v, ucast (drop_bit 8 v), ucast (drop_bit 16 v), ucast (drop_bit 24 v)]"

definition user_load32 :: "uint \<Rightarrow> uint \<Rightarrow> 'a vm_scheme \<Rightarrow> kerror + uint" where
  "user_load32 d va s = bindE (user_bytes d va 4 s) (\<lambda>bs. Inr (get32 (\<lambda>k. bs ! k) 0))"

section \<open>Arguments\<close>

text \<open>An argument the kernel refuses is \<open>None\<close>, the return value -1 of the code.\<close>

definition fetchint :: "nat \<Rightarrow> uint \<Rightarrow> 'a ptable_scheme \<Rightarrow> kerror + int option" where
  "fetchint p addr s =
     (let q = procs s ! p
      in if addr \<ge> p_sz q \<or> addr + 4 > p_sz q then Inr None
         else bindE (user_load32 (p_pgdir q) addr s) (\<lambda>v. Inr (Some (sint v))))"

text \<open>The scan for the terminating NUL, over the bytes left below the end of the process.\<close>

fun fetchstr_from :: "uint \<Rightarrow> nat \<Rightarrow> uint \<Rightarrow> 'a vm_scheme \<Rightarrow> kerror + string option" where
  "fetchstr_from d 0 va s = Inr None"
| "fetchstr_from d (Suc n) va s =
     bindE (user_load8 d va s) (\<lambda>b.
     if b = 0 then Inr (Some [])
     else bindE (fetchstr_from d n (va + 1) s) (\<lambda>r. Inr (map_option ((#) (char_of (unat b))) r)))"

definition fetchstr :: "nat \<Rightarrow> uint \<Rightarrow> 'a ptable_scheme \<Rightarrow> kerror + string option" where
  "fetchstr p addr s =
     (let q = procs s ! p
      in if addr \<ge> p_sz q then Inr None
         else fetchstr_from (p_pgdir q) (unat (p_sz q) - unat addr) addr s)"

definition argint :: "nat \<Rightarrow> 'a ptable_scheme \<Rightarrow> kerror + int option" where
  "argint n s =
     bindE (myproc s) (\<lambda>me.
     fetchint me (load32 (ram s) (p_tf (procs s ! me) + 68) + 4 + 4 * of_nat n) s)"

definition argptr :: "nat \<Rightarrow> int \<Rightarrow> 'a ptable_scheme \<Rightarrow> kerror + uint option" where
  "argptr n size_arg s =
     bindE (argint n s) (\<lambda>r.
     bindE (myproc s) (\<lambda>me.
     case r of
       None \<Rightarrow> Inr None
     | Some i \<Rightarrow>
         let a = of_int i; sz = p_sz (procs s ! me)
         in if a \<ge> sz \<or> a + of_int size_arg > sz then Inr None else Inr (Some a)))"

definition argstr :: "nat \<Rightarrow> 'a ptable_scheme \<Rightarrow> kerror + string option" where
  "argstr n s =
     bindE (argint n s) (\<lambda>r.
     bindE (myproc s) (\<lambda>me.
     case r of None \<Rightarrow> Inr None | Some a \<Rightarrow> fetchstr me (of_int a) s))"

text \<open>A descriptor argument with its file.\<close>

definition argfd :: "nat \<Rightarrow> 'a ptable_scheme \<Rightarrow> kerror + (nat \<times> nat) option" where
  "argfd n s =
     bindE (argint n s) (\<lambda>r.
     bindE (myproc s) (\<lambda>me.
     case r of
       None \<Rightarrow> Inr None
     | Some fd \<Rightarrow>
         if fd < 0 \<or> fd \<ge> int NOFILE then Inr None
         else Inr (map_option (\<lambda>f. (nat fd, f)) (p_ofile (procs s ! me) (nat fd)))))"

definition fdalloc :: "nat \<Rightarrow> 'a ptable_scheme \<Rightarrow> kerror + (int \<times> 'a ptable_scheme)" where
  "fdalloc f s =
     bindE (myproc s) (\<lambda>me.
     case find (\<lambda>fd. p_ofile (procs s ! me) fd = None) [0..<NOFILE] of
       Some fd \<Rightarrow> Inr (int fd, upd_proc me (\<lambda>q. q\<lparr>p_ofile := (p_ofile q)(fd := Some f)\<rparr>) s)
     | None \<Rightarrow> Inr (-1, s))"

definition fdclear :: "nat \<Rightarrow> 'a ptable_scheme \<Rightarrow> kerror + 'a ptable_scheme" where
  "fdclear fd s =
     bindE (myproc s) (\<lambda>me. Inr (upd_proc me (\<lambda>q. q\<lparr>p_ofile := (p_ofile q)(fd := None)\<rparr>) s))"

section \<open>Descriptors\<close>

definition sys_dup :: "'a ftable_scheme \<Rightarrow> kerror + (int \<times> 'a ftable_scheme)" where
  "sys_dup s =
     bindE (argfd 0 s) (\<lambda>a.
     case a of
       None \<Rightarrow> Inr (-1, s)
     | Some (_, f) \<Rightarrow>
         bindE (fdalloc f s) (\<lambda>(fd, s).
         if fd < 0 then Inr (-1, s) else bindE (filedup f s) (\<lambda>(_, s). Inr (fd, s))))"

definition arg_rw :: "'a ptable_scheme \<Rightarrow> kerror + (nat \<times> int \<times> uint) option" where
  "arg_rw s =
     bindE (argfd 0 s) (\<lambda>a.
     case a of
       None \<Rightarrow> Inr None
     | Some (_, f) \<Rightarrow>
         bindE (argint 2 s) (\<lambda>b.
         case b of
           None \<Rightarrow> Inr None
         | Some n \<Rightarrow>
             bindE (argptr 1 n s) (\<lambda>c.
             case c of None \<Rightarrow> Inr None | Some p \<Rightarrow> Inr (Some (f, n, p)))))"

definition sys_read :: "'a ftable_scheme devread \<Rightarrow> 'a ftable_scheme \<Rightarrow> kerror + (int \<times> 'a ftable_scheme)" where
  "sys_read dr s =
     bindE (arg_rw s) (\<lambda>a.
     case a of
       None \<Rightarrow> Inr (-1, s)
     | Some (f, n, p) \<Rightarrow>
         bindE (fileread dr f n s) (\<lambda>(r, bytes, s).
         bindE (myproc s) (\<lambda>me.
         bindE (user_put (p_pgdir (procs s ! me)) p bytes s) (\<lambda>s. Inr (r, s)))))"

definition sys_write :: "'a ftable_scheme devwrite \<Rightarrow> 'a ftable_scheme \<Rightarrow> kerror + (int \<times> 'a ftable_scheme)" where
  "sys_write dw s =
     bindE (arg_rw s) (\<lambda>a.
     case a of
       None \<Rightarrow> Inr (-1, s)
     | Some (f, n, p) \<Rightarrow>
         bindE (myproc s) (\<lambda>me.
         bindE (user_bytes (p_pgdir (procs s ! me)) p (nat n) s) (\<lambda>bytes.
         filewrite dw f n bytes s)))"

definition sys_close :: "'a ftable_scheme \<Rightarrow> kerror + (int \<times> 'a ftable_scheme)" where
  "sys_close s =
     bindE (argfd 0 s) (\<lambda>a.
     case a of
       None \<Rightarrow> Inr (-1, s)
     | Some (fd, f) \<Rightarrow> bindE (fdclear fd s) (\<lambda>s. bindE (fileclose f s) (\<lambda>s. Inr (0, s))))"

text \<open>The fields of \<^verbatim>\<open>struct stat\<close> stored one by one; the padding is not written.\<close>

definition put_stat :: "uint \<Rightarrow> uint \<Rightarrow> stat \<Rightarrow> 'a vm_scheme \<Rightarrow> kerror + 'a vm_scheme" where
  "put_stat d p st s =
     bindE (user_put d (p + 4) (le32 (st_dev st)) s) (\<lambda>s.
     bindE (user_put d (p + 8) (le32 (st_ino st)) s) (\<lambda>s.
     bindE (user_put d p (le16 (st_type st)) s) (\<lambda>s.
     bindE (user_put d (p + 12) (le16 (st_nlink st)) s) (\<lambda>s.
     user_put d (p + 16) (le32 (st_size st)) s))))"

definition sys_fstat :: "'a ftable_scheme \<Rightarrow> kerror + (int \<times> 'a ftable_scheme)" where
  "sys_fstat s =
     bindE (argfd 0 s) (\<lambda>a.
     case a of
       None \<Rightarrow> Inr (-1, s)
     | Some (_, f) \<Rightarrow>
         bindE (argptr 1 20 s) (\<lambda>b.
         case b of
           None \<Rightarrow> Inr (-1, s)
         | Some p \<Rightarrow>
             bindE (filestat f s) (\<lambda>(r, sto, s).
             bindE (myproc s) (\<lambda>me.
             case sto of
               None \<Rightarrow> Inr (r, s)
             | Some st \<Rightarrow> bindE (put_stat (p_pgdir (procs s ! me)) p st s) (\<lambda>s. Inr (r, s))))))"

section \<open>Names\<close>

abbreviation (input) upd_nlink :: "nat \<Rightarrow> ushort \<Rightarrow> 'a icache_scheme \<Rightarrow> 'a icache_scheme" where
  "upd_nlink i d s \<equiv> upd_inode i (\<lambda>ip. ip\<lparr>i_nlink := i_nlink ip + d\<rparr>) s"

text \<open>The common exit of \<open>sys_link\<close> when the new name cannot be made.\<close>

definition link_bad :: "nat \<Rightarrow> 'a icache_scheme \<Rightarrow> kerror + (int \<times> 'a icache_scheme)" where
  "link_bad ip s =
     bindE (ilock (Some ip) s) (\<lambda>s.
     bindE (iupdate ip (upd_nlink ip (- 1) s)) (\<lambda>s.
     bindE (iunlockput ip s) (\<lambda>s.
     bindE (commit_trans s) (\<lambda>s. Inr (-1, s)))))"

definition link_new :: "nat \<Rightarrow> string \<Rightarrow> 'a icache_scheme \<Rightarrow> kerror + (int \<times> 'a icache_scheme)" where
  "link_new ip new s =
     bindE (nameiparent new s) (\<lambda>(r, s).
     case r of
       None \<Rightarrow> link_bad ip s
     | Some (dp, name) \<Rightarrow>
         bindE (ilock (Some dp) s) (\<lambda>s.
         bindE (if i_dev (inodes s ! dp) \<noteq> i_dev (inodes s ! ip) then Inr (-1, s)
                else dirlink dp name (i_inum (inodes s ! ip)) s) (\<lambda>(k, s).
         bindE (iunlockput dp s) (\<lambda>s.
         if k < 0 then link_bad ip s
         else bindE (iput ip s) (\<lambda>s. bindE (commit_trans s) (\<lambda>s. Inr (0, s)))))))"

definition link :: "string \<Rightarrow> string \<Rightarrow> 'a icache_scheme \<Rightarrow> kerror + (int \<times> 'a icache_scheme)" where
  "link old new s =
     bindE (namei old s) (\<lambda>(r, s).
     case r of
       None \<Rightarrow> Inr (-1, s)
     | Some ip \<Rightarrow>
         bindE (begin_trans s) (\<lambda>s.
         bindE (ilock (Some ip) s) (\<lambda>s.
         if i_type (inodes s ! ip) = T_DIR
         then bindE (iunlockput ip s) (\<lambda>s. bindE (commit_trans s) (\<lambda>s. Inr (-1, s)))
         else
           bindE (iupdate ip (upd_nlink ip 1 s)) (\<lambda>s.
           bindE (iunlock (Some ip) s) (link_new ip new)))))"

definition sys_link :: "'a icache_scheme \<Rightarrow> kerror + (int \<times> 'a icache_scheme)" where
  "sys_link s =
     bindE (argstr 0 s) (\<lambda>a.
     case a of
       None \<Rightarrow> Inr (-1, s)
     | Some old \<Rightarrow>
         bindE (argstr 1 s) (\<lambda>b.
         case b of None \<Rightarrow> Inr (-1, s) | Some new \<Rightarrow> link old new s))"

fun isdirempty_loop :: "nat \<Rightarrow> nat list \<Rightarrow> 'a icache_scheme \<Rightarrow> kerror + (bool \<times> 'a icache_scheme)" where
  "isdirempty_loop dp [] s = Inr (True, s)"
| "isdirempty_loop dp (off # offs) s =
     bindE (readi_file dp (of_nat off) 16 s) (\<lambda>(r, de, s).
     if r \<noteq> 16 then Inl (Panic ''isdirempty: readi'')
     else if de_inum de \<noteq> 0 then Inr (False, s)
     else isdirempty_loop dp offs s)"

definition isdirempty :: "nat \<Rightarrow> 'a icache_scheme \<Rightarrow> kerror + (bool \<times> 'a icache_scheme)" where
  "isdirempty dp s = isdirempty_loop dp (drop 2 (dirent_offs (i_size (inodes s ! dp)))) s"

definition unlink_bad :: "nat \<Rightarrow> 'a icache_scheme \<Rightarrow> kerror + (int \<times> 'a icache_scheme)" where
  "unlink_bad dp s =
     bindE (iunlockput dp s) (\<lambda>s. bindE (commit_trans s) (\<lambda>s. Inr (-1, s)))"

text \<open>From the erasure of the entry at \<open>off\<close> on, with both inodes locked.\<close>

definition unlink_entry :: "nat \<Rightarrow> nat \<Rightarrow> uint \<Rightarrow> 'a icache_scheme \<Rightarrow> kerror + (int \<times> 'a icache_scheme)" where
  "unlink_entry dp ip off s =
     bindE (writei_file dp (replicate 16 0) off s) (\<lambda>(n, s).
     if n \<noteq> 16 then Inl (Panic ''unlink: writei'')
     else
       bindE (if i_type (inodes s ! ip) = T_DIR then iupdate dp (upd_nlink dp (- 1) s) else Inr s) (\<lambda>s.
       bindE (iunlockput dp s) (\<lambda>s.
       bindE (iupdate ip (upd_nlink ip (- 1) s)) (\<lambda>s.
       bindE (iunlockput ip s) (\<lambda>s.
       bindE (commit_trans s) (\<lambda>s. Inr (0, s)))))))"

definition unlink :: "string \<Rightarrow> 'a icache_scheme \<Rightarrow> kerror + (int \<times> 'a icache_scheme)" where
  "unlink path s =
     bindE (nameiparent path s) (\<lambda>(r, s).
     case r of
       None \<Rightarrow> Inr (-1, s)
     | Some (dp, name) \<Rightarrow>
         bindE (begin_trans s) (\<lambda>s.
         bindE (ilock (Some dp) s) (\<lambda>s.
         if namecmp name ''.'' = 0 \<or> namecmp name ''..'' = 0 then unlink_bad dp s
         else
           bindE (dirlookup dp name s) (\<lambda>(e, s).
           case e of
             None \<Rightarrow> unlink_bad dp s
           | Some (ip, off) \<Rightarrow>
               bindE (ilock (Some ip) s) (\<lambda>s.
               if sint (i_nlink (inodes s ! ip)) < 1 then Inl (Panic ''unlink: nlink < 1'')
               else
                 bindE (if i_type (inodes s ! ip) = T_DIR then isdirempty ip s else Inr (True, s)) (\<lambda>(empty, s).
                 if \<not> empty then bindE (iunlockput ip s) (unlink_bad dp)
                 else unlink_entry dp ip off s))))))"

text \<open>\<open>sys_unlink\<close> repeats the body of \<open>unlink\<close> after fetching the path.\<close>

definition sys_unlink :: "'a icache_scheme \<Rightarrow> kerror + (int \<times> 'a icache_scheme)" where
  "sys_unlink s =
     bindE (argstr 0 s) (\<lambda>a. case a of None \<Rightarrow> Inr (-1, s) | Some path \<Rightarrow> unlink path s)"

definition create ::
    "string \<Rightarrow> ushort \<Rightarrow> ushort \<Rightarrow> ushort \<Rightarrow> 'a icache_scheme \<Rightarrow> kerror + (nat option \<times> 'a icache_scheme)" where
  "create path typ maj mnr s =
     bindE (nameiparent path s) (\<lambda>(r, s).
     case r of
       None \<Rightarrow> Inr (None, s)
     | Some (dp, name) \<Rightarrow>
         bindE (ilock (Some dp) s) (\<lambda>s.
         bindE (dirlookup dp name s) (\<lambda>(e, s).
         case e of
           Some (ip, _) \<Rightarrow>
             bindE (iunlockput dp s) (\<lambda>s.
             bindE (ilock (Some ip) s) (\<lambda>s.
             if typ = T_FILE \<and> i_type (inodes s ! ip) = T_FILE then Inr (Some ip, s)
             else bindE (iunlockput ip s) (\<lambda>s. Inr (None, s))))
         | None \<Rightarrow>
             bindE (ialloc (i_dev (inodes s ! dp)) typ s) (\<lambda>(ip, s).
             bindE (ilock (Some ip) s) (\<lambda>s.
             bindE (iupdate ip (upd_inode ip (\<lambda>n. n\<lparr>i_major := maj, i_minor := mnr, i_nlink := 1\<rparr>) s)) (\<lambda>s.
             bindE
               (if typ = T_DIR then
                  bindE (iupdate dp (upd_nlink dp 1 s)) (\<lambda>s.
                  bindE (dirlink ip ''.'' (i_inum (inodes s ! ip)) s) (\<lambda>(k, s).
                  if k < 0 then Inl (Panic ''create dots'')
                  else
                    bindE (dirlink ip ''..'' (i_inum (inodes s ! dp)) s) (\<lambda>(k, s).
                    if k < 0 then Inl (Panic ''create dots'') else Inr s)))
                else Inr s) (\<lambda>s.
             bindE (dirlink dp name (i_inum (inodes s ! ip)) s) (\<lambda>(k, s).
             if k < 0 then Inl (Panic ''create: dirlink'')
             else bindE (iunlockput dp s) (\<lambda>s. Inr (Some ip, s))))))))))"

section \<open>Opening\<close>

abbreviation (input) O_CREATE :: uint where "O_CREATE \<equiv> 0x200"
abbreviation (input) O_WRONLY :: uint where "O_WRONLY \<equiv> 1"
abbreviation (input) O_RDWR :: uint where "O_RDWR \<equiv> 2"
abbreviation (input) O_RDONLY :: uint where "O_RDONLY \<equiv> 0"

text \<open>The first part of opening, shared by both callers: the locked inode of the path.\<close>

definition open_inode :: "string \<Rightarrow> uint \<Rightarrow> 'a icache_scheme \<Rightarrow> kerror + (nat option \<times> 'a icache_scheme)" where
  "open_inode path omode s =
     (if omode AND O_CREATE \<noteq> 0 then
        bindE (begin_trans s) (\<lambda>s.
        bindE (create path T_FILE 0 0 s) (\<lambda>(r, s).
        bindE (commit_trans s) (\<lambda>s. Inr (r, s))))
      else
        bindE (namei path s) (\<lambda>(r, s).
        case r of
          None \<Rightarrow> Inr (None, s)
        | Some ip \<Rightarrow>
            bindE (ilock (Some ip) s) (\<lambda>s.
            if i_type (inodes s ! ip) = T_DIR \<and> omode \<noteq> O_RDONLY
            then bindE (iunlockput ip s) (\<lambda>s. Inr (None, s))
            else Inr (Some ip, s))))"

definition open_file :: "nat \<Rightarrow> nat \<Rightarrow> uint \<Rightarrow> 'a ftable_scheme \<Rightarrow> 'a ftable_scheme" where
  "open_file f ip omode s =
     upd_file f (\<lambda>x. x\<lparr>f_type := FD_INODE, f_ip := Some ip, f_off := 0,
       f_readable := (omode AND O_WRONLY = 0),
       f_writable := (omode AND O_WRONLY \<noteq> 0 \<or> omode AND O_RDWR \<noteq> 0)\<rparr>) s"

definition fileopen :: "string \<Rightarrow> uint \<Rightarrow> 'a ftable_scheme \<Rightarrow> kerror + (nat option \<times> 'a ftable_scheme)" where
  "fileopen path omode s =
     bindE (open_inode path omode s) (\<lambda>(r, s).
     case r of
       None \<Rightarrow> Inr (None, s)
     | Some ip \<Rightarrow>
         bindE (filealloc s) (\<lambda>(fo, s).
         case fo of
           None \<Rightarrow> bindE (iunlockput ip s) (\<lambda>s. Inr (None, s))
         | Some f \<Rightarrow> bindE (iunlock (Some ip) s) (\<lambda>s. Inr (Some f, open_file f ip omode s))))"

definition sys_open :: "'a ftable_scheme \<Rightarrow> kerror + (int \<times> 'a ftable_scheme)" where
  "sys_open s =
     bindE (argstr 0 s) (\<lambda>a.
     case a of
       None \<Rightarrow> Inr (-1, s)
     | Some path \<Rightarrow>
         bindE (argint 1 s) (\<lambda>b.
         case b of
           None \<Rightarrow> Inr (-1, s)
         | Some m \<Rightarrow>
             bindE (open_inode path (of_int m) s) (\<lambda>(r, s).
             case r of
               None \<Rightarrow> Inr (-1, s)
             | Some ip \<Rightarrow>
                 bindE (filealloc s) (\<lambda>(fo, s).
                 case fo of
                   None \<Rightarrow> bindE (iunlockput ip s) (\<lambda>s. Inr (-1, s))
                 | Some f \<Rightarrow>
                     bindE (fdalloc f s) (\<lambda>(fd, s).
                     if fd < 0 then
                       bindE (fileclose f s) (\<lambda>s. bindE (iunlockput ip s) (\<lambda>s. Inr (-1, s)))
                     else
                       bindE (iunlock (Some ip) s) (\<lambda>s. Inr (fd, open_file f ip (of_int m) s)))))))"

text \<open>The end of \<open>sys_mkdir\<close> and \<open>sys_mknod\<close>.\<close>

definition finish_create :: "nat option \<Rightarrow> 'a icache_scheme \<Rightarrow> kerror + (int \<times> 'a icache_scheme)" where
  "finish_create r s =
     (case r of
        None \<Rightarrow> bindE (commit_trans s) (\<lambda>s. Inr (-1, s))
      | Some ip \<Rightarrow> bindE (iunlockput ip s) (\<lambda>s. bindE (commit_trans s) (\<lambda>s. Inr (0, s))))"

definition sys_mkdir :: "'a icache_scheme \<Rightarrow> kerror + (int \<times> 'a icache_scheme)" where
  "sys_mkdir s =
     bindE (begin_trans s) (\<lambda>s.
     bindE (argstr 0 s) (\<lambda>a.
     bindE (case a of None \<Rightarrow> Inr (None, s) | Some path \<Rightarrow> create path T_DIR 0 0 s) (\<lambda>(r, s).
     finish_create r s)))"

definition sys_mknod :: "'a icache_scheme \<Rightarrow> kerror + (int \<times> 'a icache_scheme)" where
  "sys_mknod s =
     bindE (begin_trans s) (\<lambda>s.
     bindE (argstr 0 s) (\<lambda>a.
     bindE (if a = None then Inr None else argint 1 s) (\<lambda>b.
     bindE (if b = None then Inr None else argint 2 s) (\<lambda>c.
     bindE
       (case (a, b, c) of
          (Some path, Some maj, Some mnr) \<Rightarrow> create path T_DEV (of_int maj) (of_int mnr) s
        | _ \<Rightarrow> Inr (None, s)) (\<lambda>(r, s).
     finish_create r s)))))"

definition sys_chdir :: "'a icache_scheme \<Rightarrow> kerror + (int \<times> 'a icache_scheme)" where
  "sys_chdir s =
     bindE (argstr 0 s) (\<lambda>a.
     case a of
       None \<Rightarrow> Inr (-1, s)
     | Some path \<Rightarrow>
         bindE (namei path s) (\<lambda>(r, s).
         case r of
           None \<Rightarrow> Inr (-1, s)
         | Some ip \<Rightarrow>
             bindE (ilock (Some ip) s) (\<lambda>s.
             if i_type (inodes s ! ip) \<noteq> T_DIR then bindE (iunlockput ip s) (\<lambda>s. Inr (-1, s))
             else
               bindE (iunlock (Some ip) s) (\<lambda>s.
               bindE (myproc s) (\<lambda>me.
               bindE (case p_cwd (procs s ! me) of None \<Rightarrow> Inl (Fault ''cwd'') | Some c \<Rightarrow> iput c s) (\<lambda>s.
               Inr (0, upd_proc me (\<lambda>q. q\<lparr>p_cwd := Some ip\<rparr>) s)))))))"

definition sys_pipe :: "'a ftable_scheme \<Rightarrow> kerror + (int \<times> 'a ftable_scheme)" where
  "sys_pipe s =
     bindE (argptr 0 8 s) (\<lambda>a.
     case a of
       None \<Rightarrow> Inr (-1, s)
     | Some p \<Rightarrow>
         bindE (pipealloc s) (\<lambda>(r, rfo, wfo, s).
         case (rfo, wfo) of
           (Some rfile, Some wfile) \<Rightarrow>
             if r < 0 then Inr (-1, s)
             else
               bindE (fdalloc rfile s) (\<lambda>(fd0, s).
               bindE (if fd0 < 0 then Inr (-1, s) else fdalloc wfile s) (\<lambda>(fd1, s).
               if fd0 < 0 \<or> fd1 < 0 then
                 bindE (if fd0 \<ge> 0 then fdclear (nat fd0) s else Inr s) (\<lambda>s.
                 bindE (fileclose rfile s) (\<lambda>s.
                 bindE (fileclose wfile s) (\<lambda>s. Inr (-1, s))))
               else
                 bindE (myproc s) (\<lambda>me.
                 bindE (user_put (p_pgdir (procs s ! me)) p (le32 (of_int fd0) @ le32 (of_int fd1)) s) (\<lambda>s.
                 Inr (0, s)))))
         | _ \<Rightarrow> Inr (-1, s)))"

end
