(* ===== verification/Exec.thy ===== *)
theory Exec
  imports Sysfile
begin

text \<open>
  Loading programs: \<^verbatim>\<open>loaduvm\<close> of \<^verbatim>\<open>vm.c\<close>, \<^verbatim>\<open>exec.c\<close> over the
  layout of \<^verbatim>\<open>elf.h\<close>, and the system call that reads its arguments.
\<close>

section \<open>Filling pages\<close>

fun ram_put :: "uint \<Rightarrow> uchar list \<Rightarrow> 'a kmem_scheme \<Rightarrow> 'a kmem_scheme" where
  "ram_put a [] s = s"
| "ram_put a (b # bs) s = ram_put (a + 1) bs (s\<lparr>ram := (ram s)(a := b)\<rparr>)"

fun loaduvm_loop ::
    "'a icache_scheme devread \<Rightarrow> nat \<Rightarrow> uint \<Rightarrow> uint \<Rightarrow> nat \<Rightarrow> uint \<Rightarrow> uint \<Rightarrow> uint \<Rightarrow> 'a icache_scheme \<Rightarrow>
     kerror + (int \<times> 'a icache_scheme)" where
  "loaduvm_loop dr 0 pgdir addr ip offset sz i s = Inl OutOfFuel"
| "loaduvm_loop dr (Suc fuel) pgdir addr ip offset sz i s =
     (if i < sz then
        bindE (walkpgdir pgdir (addr + i) False s) (\<lambda>(pte, s).
        if pte = 0 then Inl (Panic ''loaduvm: address should exist'')
        else
          let pa = PTE_ADDR (load32 (ram s) pte);
              n = (if sz - i < PGSIZE then sz - i else PGSIZE)
          in bindE (readi dr ip (offset + i) n s) (\<lambda>(r, bytes, s).
             let s = ram_put (p2v pa) bytes s
             in if of_int r \<noteq> n then Inr (-1, s)
                else loaduvm_loop dr fuel pgdir addr ip offset sz (i + PGSIZE) s))
      else Inr (0, s))"

definition loaduvm ::
    "'a icache_scheme devread \<Rightarrow> uint \<Rightarrow> uint \<Rightarrow> nat \<Rightarrow> uint \<Rightarrow> uint \<Rightarrow> 'a icache_scheme \<Rightarrow>
     kerror + (int \<times> 'a icache_scheme)" where
  "loaduvm dr pgdir addr ip offset sz s =
     (if addr mod PGSIZE \<noteq> 0 then Inl (Panic ''loaduvm: addr must be page aligned'')
      else loaduvm_loop dr (page_fuel sz) pgdir addr ip offset sz 0 s)"

text \<open>\<open>copyout\<close> with its source given as bytes, for a source that is not in kernel memory.\<close>

function copyout_bytes :: "uint \<Rightarrow> uint \<Rightarrow> uchar list \<Rightarrow> 'a kmem_scheme \<Rightarrow> kerror + (int \<times> 'a kmem_scheme)" where
  "copyout_bytes pgdir va bytes s =
     (if bytes \<noteq> [] then
        let va0 = PGROUNDDOWN va
        in bindE (uva2ka pgdir va0 s) (\<lambda>pa0.
           if pa0 = 0 then Inr (-1, s)
           else
             let n = 4096 - unat va mod 4096
             in copyout_bytes pgdir (va0 + PGSIZE) (drop n bytes) (ram_put (pa0 + (va - va0)) (take n bytes) s))
      else Inr (0, s))"
  by pat_completeness auto
termination
proof (relation "measure (\<lambda>(pgdir, va, bytes, s). length bytes)")
  fix va :: uint and bytes :: "uchar list" and n :: nat
  assume "bytes \<noteq> []" and n: "n = 4096 - unat va mod 4096"
  then have "0 < length bytes" by simp
  moreover have "0 < n" using mod_less_divisor [of 4096 "unat va"] unfolding n by linarith
  ultimately show "((pgdir, va0 + PGSIZE, drop n bytes, ram_put b (take n bytes) s), pgdir, va, bytes, s)
      \<in> measure (\<lambda>(pgdir, va, bytes, s). length bytes)" for pgdir va0 b s by simp
qed simp

declare copyout_bytes.simps [simp del]

section \<open>The program image\<close>

definition bytes16 :: "uchar list \<Rightarrow> nat \<Rightarrow> ushort" where
  "bytes16 bs k = get16 (\<lambda>i. bs ! i) k"

definition bytes32 :: "uchar list \<Rightarrow> nat \<Rightarrow> uint" where
  "bytes32 bs k = get32 (\<lambda>i. bs ! i) k"

text \<open>The loop over the program headers; \<open>None\<close> is the jump to \<^verbatim>\<open>bad\<close>.\<close>

fun exec_load ::
    "'a icache_scheme devread \<Rightarrow> nat \<Rightarrow> uint \<Rightarrow> nat \<Rightarrow> uint \<Rightarrow> uint \<Rightarrow> 'a icache_scheme \<Rightarrow>
     kerror + (uint option \<times> 'a icache_scheme)" where
  "exec_load dr ip pgdir 0 off sz s = Inr (Some sz, s)"
| "exec_load dr ip pgdir (Suc k) off sz s =
     bindE (readi dr ip off 32 s) (\<lambda>(r, ph, s).
     if r \<noteq> 32 then Inr (None, s)
     else if bytes32 ph 0 \<noteq> 1 then exec_load dr ip pgdir k (off + 32) sz s
     else if bytes32 ph 20 < bytes32 ph 16 then Inr (None, s)
     else
       bindE (allocuvm pgdir sz (bytes32 ph 8 + bytes32 ph 20) s) (\<lambda>(sz, s).
       if sz = 0 then Inr (None, s)
       else
         bindE (loaduvm dr pgdir (bytes32 ph 8) ip (bytes32 ph 4) (bytes32 ph 16) s) (\<lambda>(r, s).
         if r < 0 then Inr (None, s) else exec_load dr ip pgdir k (off + 32) sz s)))"

text \<open>The loop that pushes the argument strings; \<open>ptrs\<close> are the addresses so far.\<close>

fun exec_push ::
    "uint \<Rightarrow> string list \<Rightarrow> uint \<Rightarrow> uint list \<Rightarrow> 'a kmem_scheme \<Rightarrow> kerror + ((uint \<times> uint list) option \<times> 'a kmem_scheme)" where
  "exec_push pgdir [] sp ptrs s = Inr (Some (sp, ptrs), s)"
| "exec_push pgdir (arg # args) sp ptrs s =
     (if length ptrs \<ge> MAXARG then Inr (None, s)
      else
        let sp = (sp - (of_nat (length arg) + 1)) AND NOT 3
        in bindE (copyout_bytes pgdir sp (map of_char arg @ [0]) s) (\<lambda>(r, s).
           if r < 0 then Inr (None, s) else exec_push pgdir args sp (ptrs @ [sp]) s))"

definition exec_bad :: "uint \<Rightarrow> nat option \<Rightarrow> 'a icache_scheme \<Rightarrow> kerror + (int \<times> 'a icache_scheme)" where
  "exec_bad pgdir ipo s =
     bindE (if pgdir \<noteq> 0 then freevm pgdir s else Inr s) (\<lambda>s.
     bindE (case ipo of None \<Rightarrow> Inr s | Some ip \<Rightarrow> iunlockput ip s) (\<lambda>s. Inr (-1, s)))"

definition base_name :: "string \<Rightarrow> string" where
  "base_name path = rev (takeWhile (\<lambda>c. c \<noteq> CHR ''/'') (rev path))"

text \<open>From the choice of the program name on.\<close>

definition exec_commit ::
    "string \<Rightarrow> uint \<Rightarrow> uint \<Rightarrow> uint \<Rightarrow> uint \<Rightarrow> 'a ptable_scheme \<Rightarrow> kerror + (int \<times> 'a ptable_scheme)" where
  "exec_commit path pgdir sz entry sp s =
     bindE (myproc s) (\<lambda>me.
     let oldpgdir = p_pgdir (procs s ! me);
         s = upd_proc me (\<lambda>q. q\<lparr>p_name := take 15 (base_name path), p_pgdir := pgdir, p_sz := sz\<rparr>) s;
         s = s\<lparr>ram := store32 (ram s) (p_tf (procs s ! me) + 56) entry\<rparr>;
         s = s\<lparr>ram := store32 (ram s) (p_tf (procs s ! me) + 68) sp\<rparr>
     in bindE (switchuvm (p_kstack (procs s ! me)) pgdir s) (\<lambda>s.
        bindE (freevm oldpgdir s) (\<lambda>s. Inr (0, s))))"

text \<open>From the allocation of the stack on, with the inode released.\<close>

definition exec_stack ::
    "string \<Rightarrow> string list \<Rightarrow> uint \<Rightarrow> uint \<Rightarrow> uint \<Rightarrow> 'a icache_scheme \<Rightarrow> kerror + (int \<times> 'a icache_scheme)" where
  "exec_stack path argv pgdir sz entry s =
     (let sz = PGROUNDUP sz
      in bindE (allocuvm pgdir sz (sz + 2 * PGSIZE) s) (\<lambda>(sz, s).
         if sz = 0 then exec_bad pgdir None s
         else
           bindE (clearpteu pgdir (sz - 2 * PGSIZE) s) (\<lambda>s.
           bindE (exec_push pgdir argv sz [] s) (\<lambda>(r, s).
           case r of
             None \<Rightarrow> exec_bad pgdir None s
           | Some (sp, ptrs) \<Rightarrow>
               let argc = of_nat (length ptrs);
                   ustack = [0xFFFFFFFF, argc, sp - (argc + 1) * 4] @ ptrs @ [0];
                   sp = sp - (3 + argc + 1) * 4
               in bindE (copyout_bytes pgdir sp (concat (map le32 ustack)) s) (\<lambda>(r, s).
                  if r < 0 then exec_bad pgdir None s else exec_commit path pgdir sz entry sp s)))))"

text \<open>
  The length test of the header compares the result of \<open>readi\<close> as unsigned, so an error passes
  it; the header is then not initialised.
\<close>

definition exec :: "'a icache_scheme devread \<Rightarrow> string \<Rightarrow> string list \<Rightarrow> 'a icache_scheme \<Rightarrow> kerror + (int \<times> 'a icache_scheme)" where
  "exec dr path argv s =
     bindE (namei path s) (\<lambda>(r, s).
     case r of
       None \<Rightarrow> Inr (-1, s)
     | Some ip \<Rightarrow>
         bindE (ilock (Some ip) s) (\<lambda>s.
         bindE (readi dr ip 0 52 s) (\<lambda>(r, elf, s).
         if of_int r < (52 :: uint) then exec_bad 0 (Some ip) s
         else if length elf < 52 then Inl (Fault ''exec: elf'')
         else if bytes32 elf 0 \<noteq> 0x464C457F then exec_bad 0 (Some ip) s
         else
           bindE (setupkvm s) (\<lambda>(pgdir, s).
           if pgdir = 0 then exec_bad 0 (Some ip) s
           else
             bindE (exec_load dr ip pgdir (unat (bytes16 elf 44)) (bytes32 elf 28) 0 s) (\<lambda>(r, s).
             case r of
               None \<Rightarrow> exec_bad pgdir (Some ip) s
             | Some sz \<Rightarrow>
                 bindE (iunlockput ip s) (exec_stack path argv pgdir sz (bytes32 elf 24)))))))"

section \<open>The system call\<close>

fun exec_args :: "nat \<Rightarrow> nat \<Rightarrow> uint \<Rightarrow> 'a ptable_scheme \<Rightarrow> kerror + string list option" where
  "exec_args me 0 uargv s = Inr None"
| "exec_args me (Suc n) uargv s =
     bindE (fetchint me uargv s) (\<lambda>a.
     case a of
       None \<Rightarrow> Inr None
     | Some uarg \<Rightarrow>
         if uarg = 0 then Inr (Some [])
         else
           bindE (fetchstr me (of_int uarg) s) (\<lambda>b.
           case b of
             None \<Rightarrow> Inr None
           | Some arg \<Rightarrow> bindE (exec_args me n (uargv + 4) s) (\<lambda>r. Inr (map_option ((#) arg) r))))"

definition sys_exec :: "'a icache_scheme devread \<Rightarrow> 'a icache_scheme \<Rightarrow> kerror + (int \<times> 'a icache_scheme)" where
  "sys_exec dr s =
     bindE (argstr 0 s) (\<lambda>a.
     case a of
       None \<Rightarrow> Inr (-1, s)
     | Some path \<Rightarrow>
         bindE (argint 1 s) (\<lambda>b.
         case b of
           None \<Rightarrow> Inr (-1, s)
         | Some uargv \<Rightarrow>
             bindE (myproc s) (\<lambda>me.
             bindE (exec_args me MAXARG (of_int uargv) s) (\<lambda>c.
             case c of None \<Rightarrow> Inr (-1, s) | Some argv \<Rightarrow> exec dr path argv s))))"

end
