(* ===== verification/Process.thy ===== *)
theory Process
  imports Shm Exec
begin

text \<open>
  The rest of \<^verbatim>\<open>proc.c\<close>: creating the first processes, fork, exit, sleeping, and the
  swapping of sleeping processes to files. Diagnostic output is left out. A definition that reaches
  \<open>sched\<close> ends with the switch; what follows it is the corresponding resume definition.
\<close>

section \<open>State\<close>

text \<open>
  \<open>first_ret\<close> is the static variable of \<open>forkret\<close>; the symbols are the addresses of
  \<^verbatim>\<open>swapIn\<close> and of the linked-in \<^verbatim>\<open>initcode\<close> and its size.
\<close>

record kproc = shm +
  first_ret :: bool
  sym_swapIn :: uint
  sym_initcode :: uint
  sym_initcode_size :: uint

definition put_tf16 :: "nat \<Rightarrow> uint \<Rightarrow> ushort \<Rightarrow> 'a ptable_scheme \<Rightarrow> 'a ptable_scheme" where
  "put_tf16 p k v s = ram_put (p_tf (procs s ! p) + k) (le16 v) s"

definition put_tf32 :: "nat \<Rightarrow> uint \<Rightarrow> uint \<Rightarrow> 'a ptable_scheme \<Rightarrow> 'a ptable_scheme" where
  "put_tf32 p k v s = s\<lparr>ram := store32 (ram s) (p_tf (procs s ! p) + k) v\<rparr>"

text \<open>A cleared trap frame with the given code and data selectors and interrupts enabled.\<close>

definition fresh_tf :: "nat \<Rightarrow> ushort \<Rightarrow> ushort \<Rightarrow> 'a ptable_scheme \<Rightarrow> 'a ptable_scheme" where
  "fresh_tf p cs ds s =
     (let s = s\<lparr>ram := memset (ram s) (p_tf (procs s ! p)) 0 76\<rparr>;
          s = put_tf16 p 60 cs s;
          s = put_tf16 p 44 ds s;
          s = put_tf16 p 40 ds s;
          s = put_tf16 p 72 ds s
      in put_tf32 p 64 0x200 s)"

section \<open>Swapping\<close>

text \<open>The loop that writes the pages below \<^verbatim>\<open>sz\<close>; \<open>False\<close> is the return after a failed write.\<close>

fun swapOut_loop ::
    "'a ftable_scheme devwrite \<Rightarrow> nat \<Rightarrow> nat \<Rightarrow> nat \<Rightarrow> uint \<Rightarrow> 'a ftable_scheme \<Rightarrow> kerror + (bool \<times> 'a ftable_scheme)" where
  "swapOut_loop dw 0 me f j s = Inl OutOfFuel"
| "swapOut_loop dw (Suc fuel) me f j s =
     (if j < p_sz (procs s ! me) then
        bindE (walkpgdir (p_pgdir (procs s ! me)) j False s) (\<lambda>(pte, s).
        if pte = 0 then Inl (Panic ''walkpgdir: pte should exist'')
        else if load32 (ram s) pte AND PTE_P = 0 then Inl (Panic ''walkpgdir: page not present'')
        else
          let a = p2v (PTE_ADDR (load32 (ram s) pte))
          in bindE (filewrite dw f 4096 (map (\<lambda>k. ram s (a + of_nat k)) [0..<4096]) s) (\<lambda>(r, s).
             if r < 0 then Inr (False, s) else swapOut_loop dw fuel me f (j + PGSIZE) s))
      else Inr (True, s))"

definition swapOut :: "'a ftable_scheme devwrite \<Rightarrow> 'a ftable_scheme \<Rightarrow> kerror + 'a ftable_scheme" where
  "swapOut dw s =
     bindE (myproc s) (\<lambda>me.
     bindE (fileopen (p_swapFileName (procs s ! me)) (O_CREATE OR O_RDWR) s) (\<lambda>(fo, s).
     let s = upd_proc me (\<lambda>q. q\<lparr>p_swap := fo\<rparr>) s
     in case fo of
          None \<Rightarrow> Inr s
        | Some f \<Rightarrow>
            bindE (swapOut_loop dw (page_fuel (p_sz (procs s ! me))) me f 0 s) (\<lambda>(ok, s).
            if \<not> ok then Inr s
            else
              bindE (fileclose f s) (\<lambda>s.
              let s = upd_proc me (\<lambda>q. q\<lparr>p_swap := None\<rparr>) s
              in bindE (deallocuvm (p_pgdir (procs s ! me)) (p_sz (procs s ! me)) 0 s) (\<lambda>(_, s). Inr s)))))"

text \<open>Bringing one process back; \<open>False\<close> is the break out of the table loop.\<close>

definition swapIn_one :: "'a ftable_scheme devread \<Rightarrow> nat \<Rightarrow> 'a ftable_scheme \<Rightarrow> kerror + (bool \<times> 'a ftable_scheme)" where
  "swapIn_one dr t s =
     bindE (if holding PtableLock s then release PtableLock s else Inr s) (\<lambda>s.
     bindE (fileopen (p_swapFileName (procs s ! t)) O_RDONLY s) (\<lambda>(fo, s).
     let s = upd_proc t (\<lambda>q. q\<lparr>p_swap := fo\<rparr>) s
     in case fo of
          None \<Rightarrow> Inr (False, s)
        | Some f \<Rightarrow>
            let d = p_pgdir (procs s ! t); sz = p_sz (procs s ! t)
            in bindE (allocuvm d 0 sz s) (\<lambda>(r, s).
               if r = 0 then Inr (False, s)
               else
                 bindE (loaduvm dr d 0 (the (f_ip (files s ! f))) 0 sz s) (\<lambda>(_, s).
                 bindE (fileclose f s) (\<lambda>s.
                 let s = upd_proc t (\<lambda>q. q\<lparr>p_swap := None\<rparr>) s
                 in bindE (unlink (p_swapFileName (procs s ! t)) s) (\<lambda>(_, s).
                    bindE (acquire PtableLock s) (\<lambda>s.
                    let s = upd_proc t (\<lambda>q. q\<lparr>p_state := RUNNABLE\<rparr>) s
                    in bindE (acquire SwapLock s) (\<lambda>s.
                       bindE (release SwapLock (s\<lparr>swappedout := swappedout s - 1\<rparr>)) (\<lambda>s.
                       Inr (True, s))))))))))"

fun swapIn_scan :: "'a ftable_scheme devread \<Rightarrow> nat list \<Rightarrow> 'a ftable_scheme \<Rightarrow> kerror + 'a ftable_scheme" where
  "swapIn_scan dr [] s = Inr s"
| "swapIn_scan dr (t # ts) s =
     (if p_state (procs s ! t) \<noteq> RUNNABLE_SUSPENDED then swapIn_scan dr ts s
      else bindE (swapIn_one dr t s) (\<lambda>(more, s). if more then swapIn_scan dr ts s else Inr s))"

text \<open>
  The body of the inswapper up to its switch: it scans again, at most \<open>fuel\<close> times here, while
  suspended runnable processes are left.
\<close>

fun swapIn :: "'a ftable_scheme devread \<Rightarrow> nat \<Rightarrow> 'a ftable_scheme \<Rightarrow> kerror + (bool \<times> 'a ftable_scheme)" where
  "swapIn dr 0 s = Inl OutOfFuel"
| "swapIn dr (Suc fuel) s =
     bindE (swapIn_scan dr [0..<NPROC] s) (\<lambda>s.
     bindE (acquire SwapLock s) (\<lambda>s.
     bindE (release SwapLock s) (\<lambda>s.
     if swappedout s > 0 then swapIn dr fuel s
     else
       bindE (myproc s) (\<lambda>me.
       sched (upd_proc me (\<lambda>q. q\<lparr>p_chan := (case inswapper s of None \<Rightarrow> ChNull | Some i \<Rightarrow> ChProc i),
         p_state := SLEEPING\<rparr>) s)))))"

section \<open>Creation\<close>

text \<open>The name is cut to three characters: the code passes the size of a pointer.\<close>

definition createInternalProcess :: "string \<Rightarrow> uint \<Rightarrow> 'a icache_scheme \<Rightarrow> kerror + 'a icache_scheme" where
  "createInternalProcess name entrypoint s =
     bindE (allocproc s) (\<lambda>(r, s).
     case r of
       None \<Rightarrow> Inr s
     | Some np \<Rightarrow>
         bindE (setupkvm s) (\<lambda>(d, s).
         let s = upd_proc np (\<lambda>q. q\<lparr>p_pgdir := d\<rparr>) s
         in if d = 0 then Inl (Panic ''inswapper: out of memory?'')
            else
              let s = upd_proc np (\<lambda>q. q\<lparr>p_sz := PGSIZE, p_parent := initproc s\<rparr>) s;
                  s = fresh_tf np 8 16 s;
                  s = s\<lparr>ram := store32 (ram s) (p_context (procs s ! np) + 16) entrypoint\<rparr>;
                  s = s\<lparr>inswapper := Some np\<rparr>
              in bindE (namei ''/'' s) (\<lambda>(cwd, s).
                 Inr (upd_proc np (\<lambda>q. q\<lparr>p_cwd := cwd, p_name := take 3 name, p_state := RUNNABLE\<rparr>) s))))"

definition userinit :: "'a kproc_scheme \<Rightarrow> kerror + 'a kproc_scheme" where
  "userinit s =
     bindE (allocproc s) (\<lambda>(r, s).
     let s = s\<lparr>initproc := r\<rparr>
     in case r of
          None \<Rightarrow> Inl (Fault ''userinit'')
        | Some p \<Rightarrow>
            bindE (setupkvm s) (\<lambda>(d, s).
            let s = upd_proc p (\<lambda>q. q\<lparr>p_pgdir := d\<rparr>) s
            in if d = 0 then Inl (Panic ''userinit: out of memory?'')
               else
                 bindE (inituvm d (sym_initcode s) (sym_initcode_size s) s) (\<lambda>s.
                 let s = upd_proc p (\<lambda>q. q\<lparr>p_sz := PGSIZE\<rparr>) s;
                     s = fresh_tf p 35 43 s;
                     s = put_tf32 p 68 PGSIZE s;
                     s = put_tf32 p 56 0 s;
                     s = upd_proc p (\<lambda>q. q\<lparr>p_name := ''initcode''\<rparr>) s
                 in bindE (namei ''/'' s) (\<lambda>(cwd, s).
                    createInternalProcess ''inswapper'' (sym_swapIn s)
                      (upd_proc p (\<lambda>q. q\<lparr>p_cwd := cwd, p_state := RUNNABLE\<rparr>) s)))))"

text \<open>Duplicating one open file of process \<open>me\<close> into \<open>np\<close>.\<close>

definition fork_file :: "nat \<Rightarrow> nat \<Rightarrow> nat \<Rightarrow> 'a ftable_scheme \<Rightarrow> kerror + 'a ftable_scheme" where
  "fork_file me np i s =
     (case p_ofile (procs s ! me) i of
        None \<Rightarrow> Inr s
      | Some f \<Rightarrow>
          bindE (filedup f s) (\<lambda>(f, s).
          Inr (upd_proc np (\<lambda>q. q\<lparr>p_ofile := (p_ofile q)(i := Some f)\<rparr>) s)))"

definition fork :: "'a ftable_scheme \<Rightarrow> kerror + (int \<times> 'a ftable_scheme)" where
  "fork s =
     bindE (allocproc s) (\<lambda>(r, s).
     case r of
       None \<Rightarrow> Inr (-1, s)
     | Some np \<Rightarrow>
         bindE (myproc s) (\<lambda>me.
         bindE (copyuvm (p_pgdir (procs s ! me)) (p_sz (procs s ! me)) s) (\<lambda>(d, s).
         let s = upd_proc np (\<lambda>q. q\<lparr>p_pgdir := d\<rparr>) s
         in if d = 0 then
              bindE (kfree (p_kstack (procs s ! np)) s) (\<lambda>s.
              Inr (-1, upd_proc np (\<lambda>q. q\<lparr>p_kstack := 0, p_state := UNUSED\<rparr>) s))
            else
              let s = upd_proc np (\<lambda>q. q\<lparr>p_sz := p_sz (procs s ! me), p_parent := Some me\<rparr>) s;
                  s = s\<lparr>ram := memmove (ram s) (p_tf (procs s ! np)) (p_tf (procs s ! me)) 76\<rparr>;
                  s = put_tf32 np 28 0 s
              in bindE (foldE (fork_file me np) [0..<NOFILE] s) (\<lambda>s.
                 bindE (case p_cwd (procs s ! me) of None \<Rightarrow> Inl (Fault ''cwd'') | Some c \<Rightarrow> idup c s) (\<lambda>(c, s).
                 Inr (p_pid (procs s ! np),
                   upd_proc np (\<lambda>q. q\<lparr>p_cwd := Some c, p_state := RUNNABLE,
                     p_name := take 15 (p_name (procs s ! me))\<rparr>) s))))))"

definition forkret :: "'a kproc_scheme \<Rightarrow> kerror + 'a kproc_scheme" where
  "forkret s =
     bindE (release PtableLock s) (\<lambda>s.
     if first_ret s then initlog (s\<lparr>first_ret := False\<rparr>) else Inr s)"

section \<open>Exit\<close>

definition exit_file :: "nat \<Rightarrow> nat \<Rightarrow> 'a ftable_scheme \<Rightarrow> kerror + 'a ftable_scheme" where
  "exit_file me fd s =
     (case p_ofile (procs s ! me) fd of
        None \<Rightarrow> Inr s
      | Some f \<Rightarrow>
          bindE (fileclose f s) (\<lambda>s. Inr (upd_proc me (\<lambda>q. q\<lparr>p_ofile := (p_ofile q)(fd := None)\<rparr>) s)))"

definition proc_chan :: "nat option \<Rightarrow> chan" where
  "proc_chan p = (case p of None \<Rightarrow> ChNull | Some i \<Rightarrow> ChProc i)"

definition exit_child :: "nat \<Rightarrow> nat \<Rightarrow> 'a ptable_scheme \<Rightarrow> kerror + 'a ptable_scheme" where
  "exit_child me p s =
     (if p_parent (procs s ! p) = Some me then
        let s = upd_proc p (\<lambda>q. q\<lparr>p_parent := initproc s\<rparr>) s
        in if p_state (procs s ! p) = ZOMBIE then wakeup1 (proc_chan (initproc s)) s else Inr s
      else Inr s)"

definition exit :: "'a shm_scheme \<Rightarrow> kerror + (bool \<times> 'a shm_scheme)" where
  "exit s =
     bindE (myproc s) (\<lambda>me.
     if initproc s = Some me then Inl (Panic ''init exiting'')
     else
       bindE (foldE (exit_file me) [0..<NOFILE] s) (\<lambda>s.
       bindE (case p_cwd (procs s ! me) of None \<Rightarrow> Inl (Fault ''cwd'') | Some c \<Rightarrow> iput c s) (\<lambda>s.
       let s = upd_proc me (\<lambda>q. q\<lparr>p_cwd := None\<rparr>) s
       in bindE (if p_has_shm (procs s ! me) \<noteq> 0 then deallocshm s else Inr s) (\<lambda>s.
          bindE (acquire PtableLock s) (\<lambda>s.
          bindE (wakeup1 (proc_chan (p_parent (procs s ! me))) s) (\<lambda>s.
          bindE (foldE (exit_child me) [0..<NPROC] s) (\<lambda>s.
          sched (upd_proc me (\<lambda>q. q\<lparr>p_state := ZOMBIE\<rparr>) s))))))))"

section \<open>Sleeping\<close>

text \<open>The part of \<open>sleep\<close> that swaps the sleeper out.\<close>

definition sleep_swap :: "'a ftable_scheme devwrite \<Rightarrow> nat \<Rightarrow> 'a ftable_scheme \<Rightarrow> kerror + 'a ftable_scheme" where
  "sleep_swap dw me s =
     (let s = upd_proc me (\<lambda>q. q\<lparr>p_wokenUp := False, p_swappingOut := True\<rparr>) s
      in bindE (release PtableLock s) (\<lambda>s.
         bindE (swapOut dw s) (\<lambda>s.
         bindE (acquire PtableLock s) (\<lambda>s.
         let s = upd_proc me (\<lambda>q. q\<lparr>p_swappingOut := False\<rparr>) s
         in if p_wokenUp (procs s ! me) then
              let s = upd_proc me (\<lambda>q. q\<lparr>p_wokenUp := False, p_state := RUNNABLE_SUSPENDED\<rparr>) s
              in case inswapper s of
                   None \<Rightarrow> Inl (Fault ''inswapper'')
                 | Some k \<Rightarrow> Inr (upd_proc k (\<lambda>q. q\<lparr>p_state := RUNNABLE\<rparr>) s)
            else Inr (upd_proc me (\<lambda>q. q\<lparr>p_state := SLEEPING_SUSPENDED\<rparr>) s)))))"

definition sleep :: "'a ftable_scheme devwrite \<Rightarrow> chan \<Rightarrow> lockid \<Rightarrow> 'a ftable_scheme \<Rightarrow> kerror + (bool \<times> 'a ftable_scheme)" where
  "sleep dw ch lk s =
     (case curproc s (mycpu s) of
        None \<Rightarrow> Inl (Panic ''sleep'')
      | Some me \<Rightarrow>
          bindE (if lk \<noteq> PtableLock then bindE (acquire PtableLock s) (release lk) else Inr s) (\<lambda>s.
          let s = upd_proc me (\<lambda>q. q\<lparr>p_chan := ch, p_state := SLEEPING\<rparr>) s
          in bindE (if swapFlag s \<and> p_pid (procs s ! me) > 3 then sleep_swap dw me s else Inr s) sched))"

definition sleep_resume :: "lockid \<Rightarrow> bool \<Rightarrow> 'a ptable_scheme \<Rightarrow> kerror + 'a ptable_scheme" where
  "sleep_resume lk intena s =
     (let s = sched_resume intena s
      in bindE (myproc s) (\<lambda>me.
         let s = upd_proc me (\<lambda>q. q\<lparr>p_chan := ChNull\<rparr>) s
         in if lk \<noteq> PtableLock then bindE (release PtableLock s) (acquire lk) else Inr s))"

end
