(* ===== verification/Wakeup.thy ===== *)
theory Wakeup
  imports Ptable
begin

text \<open>
  What \<^verbatim>\<open>wakeup\<close> of \<^verbatim>\<open>proc.c\<close> does to every process of the table, swapped out
  or not, when it is called outside the process table's critical section.
\<close>

section \<open>One process\<close>

definition asleep :: "chan \<Rightarrow> proc \<Rightarrow> bool" where
  "asleep ch p \<longleftrightarrow> p_state p = SLEEPING \<and> p_chan p = ch"

definition suspended :: "chan \<Rightarrow> proc \<Rightarrow> bool" where
  "suspended ch p \<longleftrightarrow> p_state p = SLEEPING_SUSPENDED \<and> p_chan p = ch"

definition waken :: "chan \<Rightarrow> proc \<Rightarrow> proc" where
  "waken ch p =
     (if asleep ch p then if p_swappingOut p then p\<lparr>p_wokenUp := True\<rparr> else p\<lparr>p_state := RUNNABLE\<rparr>
      else if suspended ch p then p\<lparr>p_state := RUNNABLE_SUSPENDED\<rparr> else p)"

text \<open>The table after slot \<open>i\<close> has been looked at, with the inswapper in slot \<open>k\<close>.\<close>

definition wake_at :: "chan \<Rightarrow> nat \<Rightarrow> nat \<Rightarrow> proc list \<Rightarrow> proc list" where
  "wake_at ch k i ps =
     (let ps' = ps[i := waken ch (ps ! i)]
      in if suspended ch (ps ! i) then ps'[k := (ps' ! k)\<lparr>p_state := RUNNABLE\<rparr>] else ps')"

fun count_susp :: "chan \<Rightarrow> nat \<Rightarrow> nat list \<Rightarrow> proc list \<Rightarrow> int" where
  "count_susp ch k [] ps = 0"
| "count_susp ch k (i # is) ps =
     (if suspended ch (ps ! i) then 1 else 0) + count_susp ch k is (wake_at ch k i ps)"

lemma waken_other: "\<not> asleep ch p \<Longrightarrow> \<not> suspended ch p \<Longrightarrow> waken ch p = p"
  by (simp add: waken_def)

lemma length_wake_at [simp]: "length (wake_at ch k i ps) = length ps"
  by (simp add: wake_at_def Let_def)

lemma wake_at_nth:
  "j \<noteq> k \<Longrightarrow> i < length ps \<Longrightarrow> wake_at ch k i ps ! j = (if j = i then waken ch (ps ! j) else ps ! j)"
  by (simp add: wake_at_def Let_def nth_list_update)

lemma wake_at_inswapper:
  assumes "k < length ps" and "i < length ps" and "p_state (ps ! k) = RUNNABLE \<or> suspended ch (ps ! i)"
  shows "p_state (wake_at ch k i ps ! k) = RUNNABLE"
  using assms by (auto simp: wake_at_def Let_def nth_list_update waken_def asleep_def suspended_def)

lemma fold_wake_nth:
  assumes "j \<noteq> k" and "distinct is" and "\<forall>i\<in>set is. i < length ps"
  shows "fold (wake_at ch k) is ps ! j = (if j \<in> set is then waken ch (ps ! j) else ps ! j)"
  using assms by (induction "is" arbitrary: ps) (auto simp: wake_at_nth)

lemma fold_wake_inswapper:
  assumes "k < length ps" and "\<forall>i\<in>set is. i < length ps" and "distinct is"
    and "p_state (ps ! k) = RUNNABLE \<or> (\<exists>i\<in>set is. suspended ch (ps ! i))"
  shows "p_state (fold (wake_at ch k) is ps ! k) = RUNNABLE"
  using assms
proof (induction "is" arbitrary: ps)
  case (Cons i "is")
  have "p_state (wake_at ch k i ps ! k) = RUNNABLE \<or> (\<exists>j\<in>set is. suspended ch (wake_at ch k i ps ! j))"
  proof (cases "p_state (ps ! k) = RUNNABLE \<or> suspended ch (ps ! i)")
    case True then show ?thesis using wake_at_inswapper [of k ps i ch] Cons.prems by simp
  next
    case False
    then obtain j where "j \<in> set is" "suspended ch (ps ! j)" "j \<noteq> i" using Cons.prems by auto
    moreover have "wake_at ch k i ps ! j = ps ! j" using False \<open>j \<noteq> i\<close> by (simp add: wake_at_def Let_def)
    ultimately show ?thesis by metis
  qed
  then show ?case using Cons.IH [of "wake_at ch k i ps"] Cons.prems by simp
qed simp

lemma count_susp_filter:
  assumes "distinct is" and "\<forall>i\<in>set is. i < length ps" and "\<not> suspended ch (ps ! k)" and "k < length ps"
  shows "count_susp ch k is ps = int (length (filter (\<lambda>i. suspended ch (ps ! i)) is))"
  using assms
proof (induction "is" arbitrary: ps)
  case (Cons i "is")
  have "\<not> suspended ch (wake_at ch k i ps ! k)"
    using Cons.prems by (auto simp: wake_at_def Let_def nth_list_update waken_def asleep_def suspended_def)
  moreover have "suspended ch (wake_at ch k i ps ! j) \<longleftrightarrow> suspended ch (ps ! j)" if "j \<in> set is" for j
    using that Cons.prems calculation by (cases "j = k") (auto simp: wake_at_nth)
  then have "filter (\<lambda>j. suspended ch (wake_at ch k i ps ! j)) is = filter (\<lambda>j. suspended ch (ps ! j)) is"
    by (rule filter_cong [OF refl])
  ultimately show ?case using Cons.IH [of "wake_at ch k i ps"] Cons.prems by simp
qed simp

section \<open>The scan\<close>

lemma after_cli_nested: "0 < cpu_ncli (cpus s (mycpu s)) \<Longrightarrow> cpus (after_cli s) = cpus s"
  by (simp add: after_cli_def cli_visited_def)

definition in_section :: "'a ptable_scheme \<Rightarrow> bool" where
  "in_section s \<longleftrightarrow> lock_free SwapLock s \<and> cli_ok s \<and> 0 < cpu_ncli (cpus s (mycpu s))"

lemma with_lock_ptable [simp]:
  fixes s :: "'a ptable_scheme"
  shows "procs (with_lock l s) = procs s" and "swappedout (with_lock l s) = swappedout s"
    and "inswapper (with_lock l s) = inswapper s" and "mycpu (with_lock l s) = mycpu s"
  by (simp_all add: with_lock_def pushcli_def Let_def)

lemma leave_lock:
  fixes s :: "'a ptable_scheme"
  shows "(with_lock l s)\<lparr>swappedout := n, procs := ps, locks := locks s, cpus := c\<rparr> =
    s\<lparr>procs := ps, swappedout := n, cpus := c\<rparr>"
  by (simp add: with_lock_def pushcli_def Let_def)

lemma table_update:
  fixes t :: "'a ptable_scheme"
  shows "t\<lparr>swappedout := n, procs := ps\<rparr> = t\<lparr>procs := ps, swappedout := n\<rparr>"
  by simp

lemma release_table:
  fixes s :: "'a ptable_scheme"
  assumes "lock_free l s" and "cli_ok s"
  shows "release l ((with_lock l s)\<lparr>swappedout := n, procs := ps\<rparr>) =
    Inr (s\<lparr>procs := ps, swappedout := n, cpus := cpus (after_cli s)\<rparr>)"
proof -
  let ?t = "(with_lock l s)\<lparr>swappedout := n, procs := ps\<rparr>"
  have "release l ?t = Inr (?t\<lparr>locks := locks s, cpus := cpus (after_cli s)\<rparr>)"
    using assms by (intro release_critical) simp_all
  then show ?thesis by (simp only: leave_lock)
qed

lemma wakeup1_body_ok:
  assumes "in_section s" and "inswapper s = Some k"
  shows "wakeup1_body ch i s =
    Inr (s\<lparr>procs := wake_at ch k i (procs s),
      swappedout := swappedout s + (if suspended ch (procs s ! i) then 1 else 0)\<rparr>)"
proof (cases "suspended ch (procs s ! i)")
  case True
  let ?ps = "wake_at ch k i (procs s)" and ?w = "with_lock SwapLock s"
  have "acquire SwapLock s = Inr ?w"
    using assms(1) by (simp add: in_section_def acquire_free)
  with True assms(2) have "wakeup1_body ch i s = release SwapLock (?w\<lparr>swappedout := swappedout s + 1, procs := ?ps\<rparr>)"
    by (simp add: wakeup1_body_def suspended_def asleep_def waken_def wake_at_def Let_def upd_proc_def)
  also have "\<dots> = Inr (s\<lparr>procs := ?ps, swappedout := swappedout s + 1, cpus := cpus (after_cli s)\<rparr>)"
    using assms(1) by (intro release_table) (simp_all add: in_section_def)
  finally show ?thesis using True assms(1) by (simp add: in_section_def after_cli_nested)
next
  case False
  then have skip: "\<not> (p_state (procs s ! i) = SLEEPING_SUSPENDED \<and> p_chan (procs s ! i) = ch)"
    by (simp add: suspended_def)
  show ?thesis
  proof (cases "asleep ch (procs s ! i)")
    case True
    with False show ?thesis
      by (cases "p_swappingOut (procs s ! i)")
        (simp_all add: wakeup1_body_def asleep_def [symmetric] waken_def wake_at_def Let_def upd_proc_def)
  next
    case no: False
    then have "wakeup1_body ch i s = Inr s"
      using skip by (simp only: wakeup1_body_def asleep_def Let_def if_False)
    with False no show ?thesis by (simp add: waken_def wake_at_def)
  qed
qed

lemma wakeup1_fold:
  assumes "in_section s" and "inswapper s = Some k"
  shows "foldE (wakeup1_body ch) is s =
    Inr (s\<lparr>procs := fold (wake_at ch k) is (procs s),
      swappedout := swappedout s + count_susp ch k is (procs s)\<rparr>)"
  using assms
proof (induction "is" arbitrary: s)
  case (Cons i "is")
  let ?t = "s\<lparr>procs := wake_at ch k i (procs s),
      swappedout := swappedout s + (if suspended ch (procs s ! i) then 1 else 0)\<rparr>"
  have "in_section ?t" "inswapper ?t = Some k"
    using Cons.prems by (simp_all add: in_section_def lock_free_def cli_ok_def)
  from Cons.IH [OF this] show ?case by (simp add: wakeup1_body_ok [OF Cons.prems] algebra_simps)
qed simp

text \<open>A state in which the process table can be entered.\<close>

definition ptable_idle :: "'a ptable_scheme \<Rightarrow> bool" where
  "ptable_idle s \<longleftrightarrow> lock_free PtableLock s \<and> lock_free SwapLock s \<and> cli_ok s"

abbreviation (input) slots :: "nat list" where "slots \<equiv> [0..<NPROC]"

lemma wakeup_eq:
  assumes "ptable_idle s" and "inswapper s = Some k"
  shows "wakeup ch s =
    Inr (s\<lparr>procs := fold (wake_at ch k) slots (procs s),
      swappedout := swappedout s + count_susp ch k slots (procs s), cpus := cpus (after_cli s)\<rparr>)"
proof -
  define js where "js = slots"
  let ?w = "with_lock PtableLock s"
  have "in_section ?w" "inswapper ?w = Some k"
    using assms by (auto simp: ptable_idle_def in_section_def lock_free_def cli_ok_def with_lock_def pushcli_def Let_def)
  note scan = wakeup1_fold [OF this, of ch js]
  have "acquire PtableLock s = Inr ?w" using assms(1) by (simp add: ptable_idle_def acquire_free)
  then have "wakeup ch s = release PtableLock
      (?w\<lparr>swappedout := swappedout s + count_susp ch k js (procs s), procs := fold (wake_at ch k) js (procs s)\<rparr>)"
    using scan unfolding wakeup_def wakeup1_def js_def [symmetric] by (simp add: table_update)
  then show ?thesis
    unfolding js_def [symmetric] using assms(1) by (simp only: release_table ptable_idle_def)
qed

lemma wakeup_frame:
  assumes "ptable_idle s" and "inswapper s = Some k"
  shows "\<exists>ps n. wakeup ch s = Inr (s\<lparr>procs := ps, swappedout := n, cpus := cpus (after_cli s)\<rparr>)"
  using wakeup_eq [OF assms] by blast

section \<open>A concrete table\<close>

definition a_proc :: "int \<Rightarrow> procstate \<Rightarrow> chan \<Rightarrow> proc" where
  "a_proc pid st ch = \<lparr>p_sz = 4096, p_pgdir = 0, p_kstack = 0, p_state = st, p_pid = pid, p_parent = None,
     p_tf = 0, p_context = 0, p_chan = ch, p_killed = False, p_ofile = (\<lambda>_. None), p_cwd = None,
     p_name = [], p_swap = None, p_swapFileName = [], p_swappingOut = False, p_wokenUp = False, p_has_shm = 0\<rparr>"

definition a_table :: "proc list \<Rightarrow> ptable" where
  "a_table ps = \<lparr>locks = (\<lambda>_. \<lparr>lk_locked = 0, lk_cpu = None\<rparr>),
     cpus = (\<lambda>_. \<lparr>cpu_ncli = 0, cpu_intena = False, cpu_if = True\<rparr>), mycpu = 0,
     ram = (\<lambda>_. 0), freelist = 0, use_lock = True, sym_end = 0x80110000,
     kpgdir = 0, hw = (\<lambda>_. \<lparr>hw_gdt = (\<lambda>_. SEG 0 0 0 0), hw_ss0 = 0, hw_esp0 = 0, hw_tr = 0, hw_gs = 0,
       hw_cr3 = 0, hw_self = 0, hw_ts = 0\<rparr>), sym_data = 0x80108000,
     procs = ps, nextpid = 4, initproc = Some 0, inswapper = Some 1, swapFlag = True, swappedout = 0,
     curproc = (\<lambda>_. Some 0), ticks = 0, sym_forkret = 0x80103000, sym_trapret = 0x80104000\<rparr>"

definition sleepers :: "proc list" where
  "sleepers = [a_proc 1 SLEEPING ChTicks, a_proc 2 SLEEPING (ChProc 1), a_proc 3 SLEEPING_SUSPENDED ChTicks]
     @ replicate 61 (a_proc 0 UNUSED ChNull)"

section \<open>Properties\<close>



end
