(* ===== verification/Pipes.thy ===== *)
theory Pipes
  imports File Wakeup
begin

text \<open>
  The pipe of \<^verbatim>\<open>pipe.c\<close> as a byte queue: the ring buffer refines a list of at most 512
  bytes, and reading and writing through the locks act on that list.
\<close>

section \<open>The ring as a queue\<close>

text \<open>
  The counters only grow and wrap at 32 bits; because the ring size divides that range, the bytes
  between them always form a queue.
\<close>

definition pipe_len :: "pipe \<Rightarrow> nat" where
  "pipe_len q = unat (pi_nwrite q - pi_nread q)"

definition pipe_queue :: "pipe \<Rightarrow> uchar list" where
  "pipe_queue q = map (\<lambda>k. pi_data q ((unat (pi_nread q) + k) mod 512)) [0..<pipe_len q]"

definition pipe_inv :: "pipe \<Rightarrow> bool" where
  "pipe_inv q \<longleftrightarrow> pipe_len q \<le> 512"

lemma unat_ring:
  fixes a :: uint
  shows "unat ((a + of_nat k) mod 512) = (unat a + k) mod 512"
proof -
  have "unat (a + of_nat k) = (unat a + k) mod 2 ^ 32"
    by (simp add: unat_word_ariths unat_of_nat mod_simps)
  then have "unat ((a + of_nat k) mod 512) = (unat a + k) mod 2 ^ 32 mod 512"
    by (simp add: unat_mod)
  then show ?thesis by (simp add: mod_mod_cancel)
qed

lemma ring_inj_le:
  assumes "(a + k) mod 512 = (a + j) mod 512" and "j \<le> k" "k < (512 :: nat)"
  shows "j = k"
proof -
  have "512 dvd (a + k) - (a + j)"
    by (rule iffD1 [OF mod_eq_dvd_iff_nat]) (use assms in \<open>simp_all only: add_le_mono1 add.commute\<close>)
  then have "512 dvd k - j" by (simp only: diff_add_inverse add_diff_cancel_left)
  then have "\<not> 0 < k - j" using dvd_imp_le [of 512 "k - j"] assms(3) by linarith
  then show ?thesis using assms(2) by linarith
qed

lemma ring_inj:
  assumes "(a + j) mod 512 = (a + k) mod 512" and "j < 512" "k < (512 :: nat)"
  shows "j = k"
proof (cases "j \<le> k")
  case True then show ?thesis using ring_inj_le [OF assms(1) [symmetric]] assms(3) by iprover
next
  case False
  then have "k \<le> j" by linarith
  then show ?thesis using ring_inj_le [OF assms(1) _ assms(2)] by iprover
qed

lemma nwrite_offset: "pi_nwrite q = pi_nread q + of_nat (pipe_len q)"
  by (simp add: pipe_len_def)

lemma pipe_full_len: "pipe_full q \<longleftrightarrow> pipe_len q = 512"
proof
  assume "pipe_full q" then show "pipe_len q = 512" by (simp add: pipe_full_def pipe_len_def)
next
  assume "pipe_len q = 512" then show "pipe_full q" using nwrite_offset [of q] by (simp add: pipe_full_def)
qed

lemma pipe_empty_len: "pipe_empty q \<longleftrightarrow> pipe_len q = 0"
  by (auto simp: pipe_empty_def pipe_len_def unat_eq_0)

lemma length_pipe_queue [simp]: "length (pipe_queue q) = pipe_len q"
  by (simp add: pipe_queue_def)

lemma pipe_put_len:
  assumes "pipe_inv q" and "\<not> pipe_full q"
  shows "pipe_len (pipe_put c q) = Suc (pipe_len q)"
proof -
  have "pipe_len q < 512" using assms by (auto simp: pipe_inv_def pipe_full_len)
  moreover have "pi_nwrite q + 1 - pi_nread q = of_nat (Suc (pipe_len q))"
    using nwrite_offset [of q] by (simp add: algebra_simps)
  moreover have "pipe_len (pipe_put c q) = unat (pi_nwrite q + 1 - pi_nread q)"
    by (simp add: pipe_len_def pipe_put_def)
  ultimately have "pipe_len (pipe_put c q) = Suc (pipe_len q) mod 2 ^ 32"
    by (simp only: unat_of_nat) simp
  then show ?thesis using \<open>pipe_len q < 512\<close> by simp
qed

lemma pipe_put_queue:
  assumes "pipe_inv q" and "\<not> pipe_full q"
  shows "pipe_inv (pipe_put c q)" and "pipe_queue (pipe_put c q) = pipe_queue q @ [c]"
proof -
  have len: "pipe_len q < 512" using assms by (auto simp: pipe_inv_def pipe_full_len)
  then show "pipe_inv (pipe_put c q)" using pipe_put_len [OF assms] by (simp add: pipe_inv_def)
  have at: "unat (pi_nwrite q mod 512) = (unat (pi_nread q) + pipe_len q) mod 512"
    using unat_ring [of "pi_nread q" "pipe_len q"] by (simp only: nwrite_offset [of q])
  have "(unat (pi_nread q) + k) mod 512 \<noteq> (unat (pi_nread q) + pipe_len q) mod 512" if "k < pipe_len q" for k
    using ring_inj [of "unat (pi_nread q)" k "pipe_len q"] that len by auto
  then show "pipe_queue (pipe_put c q) = pipe_queue q @ [c]"
    by (simp add: pipe_queue_def pipe_put_len [OF assms]) (simp add: pipe_put_def at)
qed

lemma pipe_get_queue:
  assumes "\<not> pipe_empty q"
  shows "pipe_queue q = pi_data q (unat (pi_nread q mod 512)) # pipe_queue (q\<lparr>pi_nread := pi_nread q + 1\<rparr>)"
    and "pipe_len q = Suc (pipe_len (q\<lparr>pi_nread := pi_nread q + 1\<rparr>))"
proof -
  let ?q = "q\<lparr>pi_nread := pi_nread q + 1\<rparr>"
  have "pi_nwrite q - pi_nread q \<noteq> 0" using assms by (simp add: pipe_empty_def)
  then have "unat (pi_nwrite q - pi_nread q - 1) = unat (pi_nwrite q - pi_nread q) - 1"
    by (metis unat_minus_one)
  then have l: "pipe_len ?q = pipe_len q - 1" by (simp add: pipe_len_def algebra_simps)
  moreover have "0 < pipe_len q" using assms by (simp add: pipe_empty_len)
  ultimately show len: "pipe_len q = Suc (pipe_len ?q)" by simp
  have "(unat (pi_nread q + 1) + k) mod 512 = (unat (pi_nread q) + Suc k) mod 512" for k
    using unat_ring [of "pi_nread q + 1" k] unat_ring [of "pi_nread q" "Suc k"] by (simp add: algebra_simps)
  moreover have "unat (pi_nread q mod 512) = unat (pi_nread q) mod 512" using unat_ring [of "pi_nread q" 0] by simp
  ultimately show "pipe_queue q = pi_data q (unat (pi_nread q mod 512)) # pipe_queue ?q"
    by (simp add: pipe_queue_def len upt_conv_Cons map_Suc_upt [symmetric] comp_def del: upt_Suc)
qed

lemma piperead_copy_queue:
  "fst (piperead_copy n q) = take n (pipe_queue q) \<and>
   pipe_queue (snd (piperead_copy n q)) = drop n (pipe_queue q) \<and>
   pipe_len (snd (piperead_copy n q)) = pipe_len q - n"
proof (induction n arbitrary: q)
  case (Suc n)
  show ?case
  proof (cases "pipe_empty q")
    case True
    then have "pipe_queue q = []" by (simp add: pipe_empty_len pipe_queue_def)
    then show ?thesis using True by (simp add: pipe_empty_len)
  next
    case False
    then show ?thesis
      using Suc [of "q\<lparr>pi_nread := pi_nread q + 1\<rparr>"] pipe_get_queue [OF False]
      by (auto simp: Let_def split: prod.splits)
  qed
qed (simp add: pipe_len_def)

section \<open>Bounded queues\<close>

text \<open>
  What the reader and the writer of a bounded buffer rely on; the laws are those of a list with a
  capacity.
\<close>

locale bounded_queue =
  fixes inv :: "'q \<Rightarrow> bool" and abs :: "'q \<Rightarrow> 'b list" and put :: "'b \<Rightarrow> 'q \<Rightarrow> 'q"
    and get :: "nat \<Rightarrow> 'q \<Rightarrow> 'b list \<times> 'q" and cap :: nat
  assumes put_law: "inv q \<Longrightarrow> length (abs q) < cap \<Longrightarrow> inv (put c q) \<and> abs (put c q) = abs q @ [c]"
    and get_law: "inv q \<Longrightarrow> inv (snd (get n q)) \<and> fst (get n q) = take n (abs q) \<and> abs (snd (get n q)) = drop n (abs q)"
begin

lemma put_many:
  "inv q \<Longrightarrow> length (abs q) + length cs \<le> cap \<Longrightarrow> inv (fold put cs q) \<and> abs (fold put cs q) = abs q @ cs"
proof (induction cs arbitrary: q)
  case (Cons c cs)
  then show ?case using put_law [of q c] Cons.IH [of "put c q"] by simp
qed simp

lemma put_then_get:
  assumes "inv q" and "abs q = []" and "length cs \<le> cap"
  shows "fst (get (length cs) (fold put cs q)) = cs"
  using put_many [OF assms(1), of cs] get_law [of "fold put cs q" "length cs"] assms(2,3) by simp

end

interpretation pipeq: bounded_queue pipe_inv pipe_queue pipe_put piperead_copy 512
proof unfold_locales
  fix q c assume "pipe_inv q" and "length (pipe_queue q) < 512"
  then show "pipe_inv (pipe_put c q) \<and> pipe_queue (pipe_put c q) = pipe_queue q @ [c]"
    using pipe_put_queue [of q c] by (simp add: pipe_full_len)
next
  fix q n assume "pipe_inv q"
  then show "pipe_inv (snd (piperead_copy n q)) \<and> fst (piperead_copy n q) = take n (pipe_queue q) \<and>
      pipe_queue (snd (piperead_copy n q)) = drop n (pipe_queue q)"
    using piperead_copy_queue [of n q] by (simp add: pipe_inv_def)
qed

section \<open>The operations under their locks\<close>

lemma upd_pipe_twice: "upd_pipe p g (upd_pipe p f s) = upd_pipe p (g \<circ> f) s"
  by (simp add: upd_pipe_def)

lemma upd_pipe_id: "upd_pipe p (\<lambda>q. q) s = s"
  by (simp add: upd_pipe_def)

lemma pipewrite_loop_fits:
  assumes "pipe_inv (pipes s p)" and "pipe_len (pipes s p) + length bs \<le> 512"
  shows "pipewrite_loop p n (bs @ cs) i s = pipewrite_loop p n cs (i + length bs) (upd_pipe p (fold pipe_put bs) s)"
  using assms
proof (induction bs arbitrary: i s)
  case Nil
  then show ?case by (simp add: upd_pipe_id id_def)
next
  case (Cons b bs)
  then have nf: "\<not> pipe_full (pipes s p)" by (simp add: pipe_full_len)
  let ?s = "upd_pipe p (pipe_put b) s"
  have "pipe_inv (pipes ?s p)" "pipe_len (pipes ?s p) + length bs \<le> 512"
    using Cons.prems pipe_put_queue(1) [OF Cons.prems(1) nf] pipe_put_len [OF Cons.prems(1) nf]
    by (simp_all add: upd_pipe_def)
  from Cons.IH [OF this, of "i + 1"] nf show ?case by (simp add: upd_pipe_twice comp_def)
qed

text \<open>The state inside the section of a pipe's lock entered from \<open>s\<close>, its pipe replaced by \<open>q\<close>.\<close>

definition pipe_section :: "uint \<Rightarrow> pipe \<Rightarrow> 'a ftable_scheme \<Rightarrow> 'a ftable_scheme" where
  "pipe_section p q s = upd_pipe p (\<lambda>_. q) (with_lock (PipeLock p) s)"

definition pipe_ready :: "uint \<Rightarrow> 'a ftable_scheme \<Rightarrow> bool" where
  "pipe_ready p s \<longleftrightarrow> ptable_idle s \<and> lock_free (PipeLock p) s \<and> inswapper s \<noteq> None"

lemma pipe_section_simps [simp]:
  "pipes (pipe_section p q s) p = q" "mycpu (pipe_section p q s) = mycpu s"
  "locks (pipe_section p q s) = locks (with_lock (PipeLock p) s)"
  "cpus (pipe_section p q s) = cpus (with_lock (PipeLock p) s)"
  "procs (pipe_section p q s) = procs s" "curproc (pipe_section p q s) = curproc s"
  "inswapper (pipe_section p q s) = inswapper s" "holding (PipeLock p) (pipe_section p q s)"
  by (simp_all add: pipe_section_def upd_pipe_def with_lock_def pushcli_def Let_def holding_def)

lemma pipe_section_idle:
  assumes "pipe_ready p s" shows "ptable_idle (pipe_section p q s)"
  using assms by (auto simp: pipe_ready_def ptable_idle_def lock_free_def cli_ok_def with_lock_def pushcli_def Let_def)

lemma pipe_section_nested: "cli_ok s \<Longrightarrow> 0 < cpu_ncli (cpus (pipe_section p q s) (mycpu (pipe_section p q s)))"
  by (simp add: cli_ok_def with_lock_def pushcli_def Let_def)

text \<open>Leaving the section, after a wakeup or not.\<close>

lemma pipe_release:
  assumes "pipe_ready p s" and "locks t = locks (pipe_section p q s)" "cpus t = cpus (pipe_section p q s)"
    "mycpu t = mycpu s"
  shows "\<exists>s'. release (PipeLock p) t = Inr s' \<and> pipes s' = pipes t \<and> lock_free (PipeLock p) s' \<and> procs s' = procs t"
proof -
  have "release (PipeLock p) t = Inr (t\<lparr>locks := locks s, cpus := cpus (after_cli s)\<rparr>)"
    using assms by (intro release_critical) (simp_all add: pipe_ready_def ptable_idle_def)
  then show ?thesis using assms(1) by (simp add: pipe_ready_def lock_free_def)
qed

lemma pipe_wakeup:
  assumes "pipe_ready p s"
  shows "\<exists>t. wakeup ch (pipe_section p q s) = Inr t \<and> pipes t p = q \<and> holding (PipeLock p) t \<and>
    locks t = locks (pipe_section p q s) \<and> cpus t = cpus (pipe_section p q s) \<and> mycpu t = mycpu s"
proof -
  obtain k where k: "inswapper (pipe_section p q s) = Some k"
    using assms by (auto simp: pipe_ready_def)
  have "cpus (after_cli (pipe_section p q s)) = cpus (pipe_section p q s)"
    using assms by (intro after_cli_nested pipe_section_nested) (simp add: pipe_ready_def ptable_idle_def)
  moreover obtain ps n where
    "wakeup ch (pipe_section p q s) =
      Inr ((pipe_section p q s)\<lparr>procs := ps, swappedout := n, cpus := cpus (after_cli (pipe_section p q s))\<rparr>)"
    using wakeup_frame [OF pipe_section_idle [OF assms] k] by blast
  moreover have "holding (PipeLock p) (pipe_section p q s)" by simp
  ultimately show ?thesis
    by (simp add: holding_def del: pipe_section_simps(3,4,8))
qed

lemma pipe_enter:
  assumes "pipe_ready p s"
  shows "acquire (PipeLock p) s = Inr (pipe_section p (pipes s p) s)"
proof -
  have "pipe_section p (pipes s p) s = with_lock (PipeLock p) s"
    by (simp add: pipe_section_def upd_pipe_def with_lock_def pushcli_def Let_def)
  then show ?thesis using assms by (simp add: pipe_ready_def acquire_free)
qed

lemma pipe_section_upd: "upd_pipe p f (pipe_section p q s) = pipe_section p (f q) s"
  by (simp add: pipe_section_def upd_pipe_def)

lemma fold_put_open: "pi_readopen (fold pipe_put cs q) = pi_readopen q"
  by (induction cs arbitrary: q) (simp_all add: pipe_put_def)

section \<open>A concrete pipe\<close>

definition a_icache :: "proc list \<Rightarrow> icache" where
  "a_icache ps = logst.extend
     (bcache.extend
       (ptable.extend (a_table ps)
         (bcache.fields [] (\<lambda>_. Head) (\<lambda>_. Head) [] True (\<lambda>_ _ _. 0) None False []))
       (logst.fields 2 10 False 1 0 (\<lambda>_. 0)))
     (icache.fields [])"

definition a_ftable :: "proc list \<Rightarrow> kfile list \<Rightarrow> pipe \<Rightarrow> ftable" where
  "a_ftable ps fs q = icache.extend (a_icache ps) (ftable.fields fs (\<lambda>_. q))"

text \<open>A pipe that holds three bytes and whose write counter has wrapped.\<close>

definition a_pipe :: pipe where
  "a_pipe = \<lparr>pi_data = (\<lambda>k. of_nat k), pi_nread = 0xFFFFFFFE, pi_nwrite = 1,
     pi_readopen = True, pi_writeopen = True\<rparr>"

lemmas a_ftable_defs =
  a_ftable_def a_icache_def ptable.defs bcache.defs logst.defs icache.defs ftable.defs a_table_def

lemma a_pipe_inv: "pipe_inv a_pipe"
  by (simp add: pipe_inv_def pipe_len_def a_pipe_def)

lemma a_pipe_queue: "pipe_queue a_pipe = [254, 255, 0]"
  by (simp add: pipe_queue_def pipe_len_def a_pipe_def upt_rec)

lemma a_pipe_ready: "pipe_ready p (a_ftable ps fs q)"
  by (simp add: pipe_ready_def ptable_idle_def lock_free_def cli_ok_def a_ftable_defs)

lemma a_ftable_fields:
  "pipes (a_ftable ps fs q) p = q" "curproc (a_ftable ps fs q) (mycpu (a_ftable ps fs q)) = Some 0"
  "procs (a_ftable ps fs q) = ps" "files (a_ftable ps fs q) = fs"
  by (simp_all add: a_ftable_defs)

section \<open>Properties\<close>

text \<open>
  (C9) A pipe is a first-in first-out queue of at most 512 bytes for its writers, although its
  counters wrap: a write that fits appends its bytes and returns the count; one that does not appends
  what fits and then fails if no reader is left or the writer was killed, and otherwise goes to sleep
  on the full pipe with the lock still held, after waking the readers.
\<close>

theorem pipewrite_fifo:
  assumes "pipe_ready p s" and "pipe_inv (pipes s p)" and "curproc s (mycpu s) = Some me"
  defines "room \<equiv> 512 - length (pipe_queue (pipes s p))"
  shows "\<exists>s'. pipe_inv (pipes s' p) \<and> pipe_queue (pipes s' p) = pipe_queue (pipes s p) @ take room bytes \<and>
    (if length bytes \<le> room then pipewrite p n bytes s = Inr (PDone n, s') \<and> lock_free (PipeLock p) s'
     else if \<not> pi_readopen (pipes s p) \<or> p_killed (procs s ! me)
     then pipewrite p n bytes s = Inr (PDone (-1), s') \<and> lock_free (PipeLock p) s'
     else pipewrite p n bytes s = Inr (PBlocked room, s') \<and> holding (PipeLock p) s')"
proof -
  define q where "q = fold pipe_put (take room bytes) (pipes s p)"
  have ro: "pi_readopen q = pi_readopen (pipes s p)" by (simp add: q_def fold_put_open)
  have len: "pipe_len (pipes s p) \<le> 512" using assms(2) by (simp add: pipe_inv_def)
  have q: "pipe_inv q \<and> pipe_queue q = pipe_queue (pipes s p) @ take room bytes"
    unfolding q_def using assms(2) len by (intro pipeq.put_many) (simp_all add: room_def)
  let ?t = "pipe_section p q s"
  have "pipewrite_loop p n (take room bytes @ drop room bytes) 0 (pipe_section p (pipes s p) s) =
      pipewrite_loop p n (drop room bytes) (length (take room bytes)) ?t"
    using assms(2) len pipewrite_loop_fits [of "pipe_section p (pipes s p) s" p "take room bytes" n "drop room bytes" 0]
    by (simp add: room_def q_def pipe_section_upd)
  then have run: "pipewrite p n bytes s = pipewrite_loop p n (drop room bytes) (min (length bytes) room) ?t"
    by (simp add: pipewrite_def pipe_enter [OF assms(1)])
  obtain t where t: "wakeup (ChPipeR p) ?t = Inr t" "pipes t p = q" "holding (PipeLock p) t"
      "locks t = locks ?t" "cpus t = cpus ?t" "mycpu t = mycpu s"
    using pipe_wakeup [OF assms(1)] by blast
  show ?thesis
  proof (cases "length bytes \<le> room")
    case True
    obtain s' where "release (PipeLock p) t = Inr s'" "pipes s' = pipes t" "lock_free (PipeLock p) s'"
      using pipe_release [OF assms(1) t(4-6)] by blast
    then show ?thesis using True run t(1,2) q by (intro exI [of _ s']) simp
  next
    case False
    then obtain c cs where rest: "drop room bytes = c # cs" by (cases "drop room bytes") auto
    have full: "pipe_full q" using q False len by (simp add: pipe_full_len room_def flip: length_pipe_queue)
    have me: "myproc ?t = Inr me" using assms(3) by (simp add: myproc_def)
    show ?thesis
    proof (cases "\<not> pi_readopen (pipes s p) \<or> p_killed (procs s ! me)")
      case True
      obtain s' where "release (PipeLock p) ?t = Inr s'" "pipes s' = pipes ?t" "lock_free (PipeLock p) s'"
        using pipe_release [OF assms(1), of ?t q] by auto
      then show ?thesis using True False run rest full me q ro by (intro exI [of _ s']) auto
    next
      case opn: False
      then show ?thesis using False run rest full me q t ro by (intro exI [of _ t]) auto
    qed
  qed
qed


theorem pipewrite_fifo_witness:
  "\<exists>s'. pipewrite 0x80400000 2 [7, 8] (a_ftable [a_proc 1 RUNNING ChNull] [] a_pipe) = Inr (PDone 2, s') \<and>
     pipe_queue (pipes s' 0x80400000) = [254, 255, 0, 7, 8]"
proof -
  let ?s = "a_ftable [a_proc 1 RUNNING ChNull] [] a_pipe"
  have "pipe_inv (pipes ?s 0x80400000)" by (simp add: a_ftable_fields a_pipe_inv)
  from pipewrite_fifo [OF a_pipe_ready this a_ftable_fields(2), of "[7, 8]" 2]
  show ?thesis by (auto simp: a_ftable_fields a_pipe_queue)
qed

text \<open>
  (C10) Reading takes bytes from the front of the queue in order, at most as many as asked for, and
  returns their number, which is zero only at the end of the stream; on an empty pipe with a writer
  left it fails if the reader was killed and otherwise sleeps with the lock held.
\<close>

theorem piperead_fifo:
  fixes n :: nat
  assumes "pipe_ready p s" and "pipe_inv (pipes s p)" and "curproc s (mycpu s) = Some me"
  defines "bytes \<equiv> take n (pipe_queue (pipes s p))"
  shows "\<exists>s'. pipe_inv (pipes s' p) \<and>
    (if pipe_queue (pipes s p) = [] \<and> pi_writeopen (pipes s p)
     then pipes s' p = pipes s p \<and>
       (if p_killed (procs s ! me)
        then piperead p n s = Inr (PDone (-1), [], s') \<and> lock_free (PipeLock p) s'
        else piperead p n s = Inr (PBlocked 0, [], s') \<and> holding (PipeLock p) s')
     else piperead p n s = Inr (PDone (int (length bytes)), bytes, s') \<and> lock_free (PipeLock p) s' \<and>
       pipe_queue (pipes s' p) = drop n (pipe_queue (pipes s p)))"
proof -
  let ?t = "pipe_section p (pipes s p) s"
  have run: "piperead p n s = piperead_locked p n ?t" by (simp add: piperead_def pipe_enter [OF assms(1)])
  have me: "myproc ?t = Inr me" using assms(3) by (simp add: myproc_def)
  have empty: "pipe_empty (pipes s p) \<longleftrightarrow> pipe_queue (pipes s p) = []"
    by (simp add: pipe_empty_len flip: length_pipe_queue)
  obtain u where u: "release (PipeLock p) ?t = Inr u" "pipes u = pipes ?t" "lock_free (PipeLock p) u"
    using pipe_release [OF assms(1), of ?t "pipes s p"] by auto
  obtain q where q: "piperead_copy n (pipes s p) = (bytes, q)" "pipe_inv q"
      "pipe_queue q = drop n (pipe_queue (pipes s p))"
    using pipeq.get_law [OF assms(2), of n] unfolding bytes_def by (cases "piperead_copy n (pipes s p)") auto
  obtain t where t: "wakeup (ChPipeW p) (pipe_section p q s) = Inr t" "pipes t p = q"
      "locks t = locks (pipe_section p q s)" "cpus t = cpus (pipe_section p q s)" "mycpu t = mycpu s"
    using pipe_wakeup [OF assms(1)] by blast
  obtain v where v: "release (PipeLock p) t = Inr v" "pipes v = pipes t" "lock_free (PipeLock p) v"
    using pipe_release [OF assms(1) t(3-5)] by blast
  show ?thesis
  proof (cases "pipe_queue (pipes s p) = [] \<and> pi_writeopen (pipes s p)")
    case True
    then show ?thesis
      using run me empty u assms(2)
      by (intro exI [of _ "if p_killed (procs s ! me) then u else ?t"]) (simp add: piperead_locked_def)
  next
    case False
    then show ?thesis
      using run empty q t v by (intro exI [of _ v]) (auto simp: piperead_locked_def pipe_section_upd)
  qed
qed

theorem piperead_fifo_witness:
  "\<exists>s'. piperead 0x80400000 2 (a_ftable [a_proc 1 RUNNING ChNull] [] a_pipe) = Inr (PDone 2, [254, 255], s') \<and>
     pipe_queue (pipes s' 0x80400000) = [0]"
proof -
  let ?s = "a_ftable [a_proc 1 RUNNING ChNull] [] a_pipe"
  have "pipe_inv (pipes ?s 0x80400000)" by (simp add: a_ftable_fields a_pipe_inv)
  from piperead_fifo [OF a_pipe_ready this a_ftable_fields(2), of 2]
  show ?thesis by (auto simp: a_ftable_fields a_pipe_queue)
qed

end
