(* ===== verification/Arguments.thy ===== *)
theory Arguments
  imports Process Pipes
begin

text \<open>
  What the kernel may rely on after it has checked an argument of a system call, the names of swap
  files, and the limits of the shared memory calls.
\<close>

section \<open>Strings and pointers\<close>

lemma fetchstr_from_bytes:
  "user_bytes d va n s = Inr bs \<Longrightarrow>
   fetchstr_from d n va s =
     Inr (if 0 \<in> set bs then Some (map (\<lambda>b. char_of (unat b)) (takeWhile (\<lambda>b. b \<noteq> 0) bs)) else None)"
proof (induction n arbitrary: va bs)
  case (Suc n)
  then obtain b cs where "user_load8 d va s = Inr b" "user_bytes d (va + 1) n s = Inr cs" "bs = b # cs"
    by (auto simp: bindE_eq_Inr)
  then show ?case using Suc.IH [of "va + 1" cs] by auto
qed simp

lemma word_add_in_range:
  fixes a z :: uint
  assumes "a < z" and "a + of_int n \<le> z" and "z \<le> KERNBASE" and "0 \<le> n" "n < 2 ^ 31"
  shows "unat a + nat n \<le> unat z"
proof -
  have a: "unat a < 2 ^ 31" using assms(1,3) by (simp add: word_less_nat_alt word_le_nat_alt)
  have n: "(of_int n :: uint) = of_nat (nat n)" "nat n < 2 ^ 31" using assms(4,5) by auto
  then have "unat (a + of_int n) = unat a + nat n"
    using a by (simp add: unat_word_ariths unat_of_nat)
  then show ?thesis using assms(2) by (simp add: word_le_nat_alt)
qed

section \<open>Swap file names\<close>

definition name_char :: "int \<Rightarrow> char" where
  "name_char k = char_of (nat (48 + k))"

lemma name_char_inj: "0 \<le> j \<Longrightarrow> j < 208 \<Longrightarrow> 0 \<le> k \<Longrightarrow> k < 208 \<Longrightarrow> name_char j = name_char k \<Longrightarrow> j = k"
  by (simp add: name_char_def char_of_eq_iff take_bit_eq_mod)

lemma name_char_not_nul: "0 \<le> k \<Longrightarrow> k < 208 \<Longrightarrow> name_char k \<noteq> CHR 0x00"
proof
  assume k: "0 \<le> k" "k < 208" and "name_char k = CHR 0x00"
  then have "of_char (name_char k) = (0 :: nat)" by simp
  then show False using k by (simp add: name_char_def)
qed

lemma swap_name_chars:
  assumes "0 \<le> pid" and "pid < 2080"
  shows "swap_name pid = [name_char (pid div 10), name_char (pid mod 10)] @ ''.swap''"
proof -
  have b: "0 \<le> pid div 10" "pid div 10 < 208" "0 \<le> pid mod 10" "pid mod 10 < 208"
    using assms by auto
  have "char_of (nat ((48 + pid div 10) mod 256)) = name_char (pid div 10)"
    "char_of (nat ((48 + pid mod 10) mod 256)) = name_char (pid mod 10)"
    using b by (simp_all add: name_char_def)
  moreover have "CHR ''0'' = name_char 0" by code_simp
  ultimately show ?thesis
    using name_char_not_nul b by (simp add: swap_name_def)
qed

section \<open>A concrete process\<close>

text \<open>
  One page of user memory: the directory, its table and the page are three consecutive kernel pages.
  The page holds the word 8 at address 4 and the string ''hi'' at address 16; the process ends at 20.
\<close>

definition user_ram :: memory where
  "user_ram = (store32 (store32 (\<lambda>_. 0) 0x80400000 0x00401007) 0x80401000 0x00402007)
     (0x80402004 := 8, 0x80402010 := 104, 0x80402011 := 105)"

definition user_proc :: proc where
  "user_proc = (a_proc 1 RUNNING ChNull)\<lparr>p_sz := 20, p_pgdir := 0x80400000, p_tf := 0x80403000\<rparr>"

definition user_state :: ptable where
  "user_state = (a_table [user_proc])\<lparr>ram := user_ram\<rparr>"

definition user_shm :: shm where
  "user_shm = ftable.extend (a_ftable [] [] a_pipe) (shm.fields (\<lambda>_ _. 0) (\<lambda>_ _ _. 0))"

lemma user_state_fields:
  "procs user_state = [user_proc]" "ram user_state = user_ram" "myproc user_state = Inr 0"
  "p_sz user_proc = 20" "p_pgdir user_proc = 0x80400000" "p_tf user_proc = 0x80403000"
  by (simp_all add: user_state_def a_table_def myproc_def user_proc_def)

lemma user_page: "lookup user_ram 0x80400000 0 = 0x00402007"
  by code_simp

section \<open>Properties\<close>

text \<open>
  (C35) A string argument is accepted exactly when a NUL stands before the end of the process, and the
  string the kernel then uses is the bytes up to it; no byte at or above the end is read.
\<close>

theorem fetchstr_reads_string:
  assumes "addr < p_sz (procs s ! p)"
    and "user_bytes (p_pgdir (procs s ! p)) addr (unat (p_sz (procs s ! p)) - unat addr) s = Inr bs"
  shows "fetchstr p addr s =
    Inr (if 0 \<in> set bs then Some (map (\<lambda>b. char_of (unat b)) (takeWhile (\<lambda>b. b \<noteq> 0) bs)) else None)"
  using assms(1) fetchstr_from_bytes [OF assms(2)] by (simp add: fetchstr_def Let_def not_le [symmetric])

text \<open>
  (C36) A buffer that \<open>argptr\<close> accepts lies inside the process, whatever its address: with a length
  that is not negative the sum cannot wrap, because a process ends below the kernel.
\<close>

theorem argptr_in_bounds:
  assumes "argptr n len s = Inr (Some a)" and "myproc s = Inr me"
    and "p_sz (procs s ! me) \<le> KERNBASE" and "0 \<le> len" "len < 2 ^ 31"
  shows "unat a + nat len \<le> unat (p_sz (procs s ! me))"
proof -
  from assms(1,2) have "a < p_sz (procs s ! me)" "a + of_int len \<le> p_sz (procs s ! me)"
    by (auto simp: argptr_def bindE_eq_Inr Let_def not_le not_less split: option.splits if_splits)
  then show ?thesis by (rule word_add_in_range) (fact assms)+
qed

text \<open>
  (C37) Swap files of different processes have different names as long as pids stay below 2080; the ten
  pids from there on all get the empty name.
\<close>

theorem swap_names_distinct:
  "inj_on swap_name {0..<2080} \<and> (\<forall>pid. 2080 \<le> pid \<and> pid < 2090 \<longrightarrow> swap_name pid = [])"
proof
  show "inj_on swap_name {0..<2080}"
  proof (rule inj_onI)
    fix p q :: int assume "p \<in> {0..<2080}" "q \<in> {0..<2080}" "swap_name p = swap_name q"
    then have "name_char (p div 10) = name_char (q div 10)" "name_char (p mod 10) = name_char (q mod 10)"
      and b: "0 \<le> p" "p < 2080" "0 \<le> q" "q < 2080"
      by (auto simp: swap_name_chars)
    then have "p div 10 = q div 10" "p mod 10 = q mod 10"
      using name_char_inj [of "p div 10" "q div 10"] name_char_inj [of "p mod 10" "q mod 10"] by auto
    then show "p = q" by (metis div_mult_mod_eq)
  qed
  show "\<forall>pid. 2080 \<le> pid \<and> pid < 2090 \<longrightarrow> swap_name pid = []"
  proof clarify
    fix pid :: int assume "2080 \<le> pid" "pid < 2090"
    then have "pid div 10 = 208" by linarith
    then show "swap_name pid = []" by (simp add: swap_name_def char_of_def)
  qed
qed

theorem swap_names_distinct_witness:
  "swap_name 2080 = [] \<and> swap_name 2089 = [] \<and> swap_name 41 \<noteq> swap_name 14"
proof -
  have "swap_name 41 \<noteq> swap_name 14"
    using inj_onD [OF conjunct1 [OF swap_names_distinct], of 41 14] by auto
  then show ?thesis using conjunct2 [OF swap_names_distinct] by simp
qed


theorem fetchstr_reads_string_witness: "fetchstr 0 16 user_state = Inr (Some ''hi'')"
proof -
  have "user_bytes 0x80400000 16 4 user_state = Inr [104, 105, 0, 0]" by code_simp
  then have "fetchstr 0 16 user_state =
      Inr (if (0 :: uchar) \<in> set [104, 105, 0, 0]
        then Some (map (\<lambda>b. char_of (unat b)) (takeWhile (\<lambda>b. b \<noteq> 0) [104, 105, 0, 0 :: uchar])) else None)"
    by (intro fetchstr_reads_string) (simp_all add: user_state_fields)
  also have "\<dots> = Inr (Some ''hi'')" by code_simp
  finally show ?thesis .
qed

theorem argptr_in_bounds_witness: "argptr 0 8 user_state = Inr (Some 8) \<and> unat (8 :: uint) + nat 8 \<le> 20"
proof
  show a: "argptr 0 8 user_state = Inr (Some 8)" by code_simp
  show "unat (8 :: uint) + nat 8 \<le> 20"
    using argptr_in_bounds [OF a user_state_fields(3)] by (simp add: user_state_fields)
qed


end
