(* ===== verification/Buffer_Cache.thy ===== *)
theory Buffer_Cache
  imports Wakeup Bio
begin

text \<open>
  The buffer cache of \<^verbatim>\<open>bio.c\<close> as a list in order of last use: the doubly linked list of the
  code represents it, releasing a buffer moves it to the front, and a miss recycles the clean free
  buffer used longest ago.
\<close>

section \<open>Linked segments\<close>

text \<open>Following \<open>n\<close> from \<open>a\<close> visits the buffers of the list and ends in \<open>z\<close>.\<close>

fun seg :: "(bref \<Rightarrow> bref) \<Rightarrow> bref \<Rightarrow> nat list \<Rightarrow> bref \<Rightarrow> bool" where
  "seg n a [] z \<longleftrightarrow> n a = z"
| "seg n a (x # xs) z \<longleftrightarrow> n a = Buf x \<and> seg n (Buf x) xs z"

fun last_ref :: "bref \<Rightarrow> nat list \<Rightarrow> bref" where
  "last_ref a [] = a"
| "last_ref a (x # xs) = last_ref (Buf x) xs"

fun first_ref :: "nat list \<Rightarrow> bref \<Rightarrow> bref" where
  "first_ref [] z = z"
| "first_ref (x # xs) z = Buf x"

lemma seg_append: "seg n a (us @ x # vs) z \<longleftrightarrow> seg n a us (Buf x) \<and> seg n (Buf x) vs z"
  by (induction us arbitrary: a) auto

lemma seg_frame: "c \<noteq> a \<Longrightarrow> c \<notin> Buf ` set xs \<Longrightarrow> seg (n(c := v)) a xs z = seg n a xs z"
  by (induction xs arbitrary: a) auto

lemma seg_first: "seg n a xs z \<Longrightarrow> n a = first_ref xs z"
  by (cases xs) auto

lemma last_ref_append [simp]: "last_ref a (us @ [x]) = Buf x"
  by (induction us arbitrary: a) auto

lemma last_ref_rev: "last_ref z (rev xs) = first_ref xs z"
  by (cases xs) auto

lemma last_ref_in: "last_ref a xs = a \<or> last_ref a xs \<in> Buf ` set xs"
  by (induction xs arbitrary: a) auto

lemma seg_retarget:
  "seg n a us z \<Longrightarrow> a \<notin> Buf ` set us \<Longrightarrow> distinct us \<Longrightarrow> seg (n(last_ref a us := w)) a us w"
proof (induction us arbitrary: a)
  case (Cons u us)
  have "last_ref (Buf u) us \<noteq> a" using last_ref_in [of "Buf u" us] Cons.prems by auto
  then show ?case using Cons by auto
qed simp

lemma seg_unlink:
  assumes "seg n Head (us @ i # vs) Head" and "distinct (us @ i # vs)"
  shows "seg (n(last_ref Head us := first_ref vs Head)) Head (us @ vs) Head"
proof -
  let ?n = "n(last_ref Head us := first_ref vs Head)"
  from assms(1) have u: "seg n Head us (Buf i)" and v: "seg n (Buf i) vs Head" by (simp_all add: seg_append)
  have u': "seg ?n Head us (first_ref vs Head)" using seg_retarget [OF u] assms(2) by auto
  show ?thesis
  proof (cases vs)
    case (Cons w ws)
    have "last_ref Head us \<notin> Buf ` set vs" using last_ref_in [of Head us] assms(2) by auto
    then have "seg ?n (Buf w) ws Head" using v Cons by (simp add: seg_frame)
    then show ?thesis using u' Cons by (simp add: seg_append)
  qed (use u' in simp)
qed

lemma seg_push:
  assumes "seg n Head xs Head" and "i \<notin> set xs"
  shows "seg (n(Buf i := n Head, Head := Buf i)) Head (i # xs) Head"
proof (cases xs)
  case (Cons x ys)
  have "Head \<notin> Buf ` set ys" "Buf i \<notin> Buf ` set ys" "Buf i \<noteq> Buf x" using assms(2) Cons by auto
  then show ?thesis using assms(1) Cons by (simp add: seg_frame)
qed (use assms in simp)

lemma seg_snoc:
  assumes "seg p Head ys Head" and "i \<notin> set ys" and "distinct ys"
  shows "seg (p(Buf i := Head, last_ref Head ys := Buf i)) Head (ys @ [i]) Head"
proof -
  have "seg (p(Buf i := Head)) Head ys Head" using assms by (subst seg_frame) auto
  then have "seg (p(Buf i := Head, last_ref Head ys := Buf i)) Head ys (Buf i)"
    using assms by (intro seg_retarget) auto
  moreover have "last_ref Head ys \<noteq> Buf i" using last_ref_in [of Head ys] assms(2) by auto
  ultimately show ?thesis by (simp add: seg_append)
qed

section \<open>The list in order of use\<close>

definition lru :: "'a bcache_scheme \<Rightarrow> nat list \<Rightarrow> bool" where
  "lru s xs \<longleftrightarrow> distinct xs \<and> seg (bnext s) Head xs Head \<and> seg (bprev s) Head (rev xs) Head"

lemma move_front_lru:
  assumes "lru s (us @ i # vs)"
  shows "lru (move_front i s) (i # us @ vs)"
proof -
  let ?xs = "us @ vs"
  from assms have d: "distinct (us @ i # vs)" and n: "seg (bnext s) Head (us @ i # vs) Head"
    and p: "seg (bprev s) Head (rev vs @ i # rev us) Head"
    by (simp_all add: lru_def)
  define la where "la = last_ref Head us"
  define ne where "ne = first_ref vs Head"
  have la: "bprev s (Buf i) = la" using p seg_first [of "bprev s" "Buf i" "rev us" Head]
    by (simp add: seg_append la_def) (metis last_ref_rev rev_rev_ident)
  have ne: "bnext s (Buf i) = ne" using n seg_first [of "bnext s" "Buf i" vs Head] by (simp add: seg_append ne_def)
  have nei: "ne \<noteq> Buf i" using d by (cases vs) (auto simp: ne_def)
  define n1 where "n1 = (bnext s)(la := ne)"
  define p1 where "p1 = (bprev s)(ne := la)"
  have n1: "seg n1 Head ?xs Head" using seg_unlink [OF n d] by (simp add: n1_def la_def ne_def)
  have dr: "distinct (rev vs @ i # rev us)" using d by auto
  have p1: "seg p1 Head (rev ?xs) Head"
    using seg_unlink [OF p dr] by (simp add: p1_def la_def ne_def last_ref_rev) (metis last_ref_rev rev_rev_ident)
  have "n1 Head = first_ref ?xs Head" using n1 by (rule seg_first)
  then have hd: "n1 Head = last_ref Head (rev ?xs)" by (simp only: last_ref_rev)
  have "bnext (move_front i s) = n1(Buf i := n1 Head, Head := Buf i)"
    "bprev (move_front i s) = p1(Buf i := Head, n1 Head := Buf i)"
    using la ne nei by (simp_all add: move_front_def Let_def n1_def p1_def)
  then show ?thesis
    using seg_push [OF n1, of i] seg_snoc [OF p1, of i] hd d by (simp add: lru_def Int_commute)
qed

lemma bscan_seg:
  "seg n a xs Head \<Longrightarrow> length xs < fuel \<Longrightarrow> bscan fuel n p (n a) = Inr (find p xs)"
proof (induction xs arbitrary: a fuel)
  case Nil then show ?case by (cases fuel) auto
next
  case (Cons x xs) then show ?case by (cases fuel) auto
qed

lemma binit_one_lru:
  assumes "lru s xs" and "i \<notin> set xs"
  shows "lru (binit_one i s) (i # xs)"
proof -
  from assms(1) have n: "seg (bnext s) Head xs Head" and p: "seg (bprev s) Head (rev xs) Head" and d: "distinct xs"
    by (simp_all add: lru_def)
  have "bnext s Head = last_ref Head (rev xs)" using seg_first [OF n] by (simp add: last_ref_rev)
  moreover have "bnext (binit_one i s) = (bnext s)(Buf i := bnext s Head, Head := Buf i)"
    "bprev (binit_one i s) = (bprev s)(Buf i := Head, bnext s Head := Buf i)"
    by (simp_all add: binit_one_def Let_def upd_buf_def)
  ultimately show ?thesis
    using seg_push [OF n assms(2)] seg_snoc [OF p, of i] d assms(2) by (simp add: lru_def)
qed

lemma fold_binit_lru:
  "lru s xs \<Longrightarrow> distinct is \<Longrightarrow> set is \<inter> set xs = {} \<Longrightarrow> lru (fold binit_one is s) (rev is @ xs)"
proof (induction "is" arbitrary: s xs)
  case (Cons i "is")
  then show ?case using Cons.IH [OF binit_one_lru [of s xs i]] by simp
qed simp

lemma binit_lru: "lru (binit s) (rev [0..<NBUF])"
proof -
  define js where "js = [0..<NBUF]"
  let ?s = "(initlock BcacheLock s)\<lparr>bprev := (bprev (initlock BcacheLock s))(Head := Head),
      bnext := (bnext (initlock BcacheLock s))(Head := Head)\<rparr>"
  have "lru ?s []" by (simp add: lru_def)
  moreover have "distinct js" by (simp add: js_def del: upt_rec_numeral)
  ultimately have "lru (fold binit_one js ?s) (rev js @ [])" by (intro fold_binit_lru) simp_all
  then show ?thesis unfolding binit_def js_def [symmetric] Let_def by simp
qed

section \<open>The operations under the cache lock\<close>

definition bcache_ready :: "'a bcache_scheme \<Rightarrow> bool" where
  "bcache_ready s \<longleftrightarrow> ptable_idle s \<and> lock_free BcacheLock s \<and> inswapper s \<noteq> None"

lemma with_lock_bcache [simp]:
  fixes s :: "'a bcache_scheme"
  shows "bufs (with_lock l s) = bufs s" "bnext (with_lock l s) = bnext s" "bprev (with_lock l s) = bprev s"
    "disk (with_lock l s) = disk s" "writes (with_lock l s) = writes s" "havedisk1 (with_lock l s) = havedisk1 s"
    "idequeue (with_lock l s) = idequeue s" "ide_fail (with_lock l s) = ide_fail s"
    "bcache.more (with_lock l s) = bcache.more s"
  by (simp_all add: with_lock_def pushcli_def Let_def)

text \<open>What no operation of the cache changes, apart from the history of the interrupt flag.\<close>

definition bframe :: "'a bcache_scheme \<Rightarrow> 'a bcache_scheme \<Rightarrow> bool" where
  "bframe s t \<longleftrightarrow> locks t = locks s \<and> mycpu t = mycpu s \<and> inswapper t = inswapper s \<and> havedisk1 t = havedisk1 s \<and>
     idequeue t = idequeue s \<and> ide_fail t = ide_fail s \<and> (cli_ok s \<longrightarrow> cli_ok t) \<and>
     cpu_ncli (cpus t (mycpu s)) = cpu_ncli (cpus s (mycpu s)) \<and> bcache.more t = bcache.more s"

lemma bframe_refl: "bframe s s"
  by (simp add: bframe_def)

lemma bframe_trans: "bframe s t \<Longrightarrow> bframe t u \<Longrightarrow> bframe s u"
  by (simp add: bframe_def)

lemma bframe_ready: "bframe s t \<Longrightarrow> bcache_ready s \<Longrightarrow> bcache_ready t"
  by (simp add: bframe_def bcache_ready_def ptable_idle_def lock_free_def)

lemma bcache_release:
  fixes s t :: "'a bcache_scheme"
  assumes "bcache_ready s" and "locks t = locks (with_lock BcacheLock s)"
    "cpus t = cpus (with_lock BcacheLock s)" "mycpu t = mycpu s" "inswapper t = inswapper s"
    "havedisk1 t = havedisk1 s" "idequeue t = idequeue s" "ide_fail t = ide_fail s" "bcache.more t = bcache.more s"
  shows "\<exists>u. release BcacheLock t = Inr u \<and> bufs u = bufs t \<and> bnext u = bnext t \<and> bprev u = bprev t \<and>
    disk u = disk t \<and> writes u = writes t \<and> bframe s u"
proof -
  have "release BcacheLock t = Inr (t\<lparr>locks := locks s, cpus := cpus (after_cli s)\<rparr>)"
    using assms by (intro release_critical) (simp_all add: bcache_ready_def ptable_idle_def)
  then show ?thesis
    using assms by (simp add: bframe_def) (simp add: after_cli_def cli_visited_def cli_ok_def)
qed

lemma move_front_frame [simp]:
  "bufs (move_front i s) = bufs s" "disk (move_front i s) = disk s" "writes (move_front i s) = writes s"
  "locks (move_front i s) = locks s" "cpus (move_front i s) = cpus s" "mycpu (move_front i s) = mycpu s"
  "inswapper (move_front i s) = inswapper s" "havedisk1 (move_front i s) = havedisk1 s"
  "idequeue (move_front i s) = idequeue s" "ide_fail (move_front i s) = ide_fail s"
  "bcache.more (move_front i s) = bcache.more s"
  by (simp_all add: move_front_def Let_def)

lemma upd_buf_frame [simp]:
  "bnext (upd_buf i f s) = bnext s" "bprev (upd_buf i f s) = bprev s" "disk (upd_buf i f s) = disk s"
  "writes (upd_buf i f s) = writes s" "locks (upd_buf i f s) = locks s" "cpus (upd_buf i f s) = cpus s"
  "mycpu (upd_buf i f s) = mycpu s" "inswapper (upd_buf i f s) = inswapper s"
  "bufs (upd_buf i f s) = (bufs s)[i := f (bufs s ! i)]" "havedisk1 (upd_buf i f s) = havedisk1 s"
  "idequeue (upd_buf i f s) = idequeue s" "ide_fail (upd_buf i f s) = ide_fail s"
  "bcache.more (upd_buf i f s) = bcache.more s"
  by (simp_all add: upd_buf_def)

lemma lru_cong: "bnext t = bnext s \<Longrightarrow> bprev t = bprev s \<Longrightarrow> lru t xs = lru s xs"
  by (simp add: lru_def)

lemma brelse_ok:
  assumes "bcache_ready s" and "lru s (us @ i # vs)" and "b_busy (bufs s ! i)"
  shows "\<exists>t. brelse i s = Inr t \<and> lru t (i # us @ vs) \<and> bufs t = (bufs s)[i := (bufs s ! i)\<lparr>b_busy := False\<rparr>] \<and>
    disk t = disk s \<and> writes t = writes s \<and> bframe s t"
proof -
  define w where "w = upd_buf i (\<lambda>b. b\<lparr>b_busy := False\<rparr>) (move_front i (with_lock BcacheLock s))"
  have w: "locks w = locks (with_lock BcacheLock s)" "cpus w = cpus (with_lock BcacheLock s)" "mycpu w = mycpu s"
    "bufs w = (bufs s)[i := (bufs s ! i)\<lparr>b_busy := False\<rparr>]" "disk w = disk s" "writes w = writes s"
    "inswapper w = inswapper s" "havedisk1 w = havedisk1 s" "idequeue w = idequeue s" "ide_fail w = ide_fail s"
    "bcache.more w = bcache.more s"
    by (simp_all add: w_def)
  have "lru (with_lock BcacheLock s) (us @ i # vs)" using assms(2) lru_cong [of "with_lock BcacheLock s" s] by simp
  then have lru: "lru w (i # us @ vs)"
    using move_front_lru lru_cong [of w "move_front i (with_lock BcacheLock s)"] by (simp add: w_def)
  have idle: "ptable_idle w" "0 < cpu_ncli (cpus w (mycpu w))"
    using assms(1) w(1-3)
    by (auto simp: bcache_ready_def ptable_idle_def lock_free_def cli_ok_def with_lock_def pushcli_def Let_def)
  obtain k where "inswapper w = Some k" using assms(1) w(7) by (auto simp: bcache_ready_def)
  then obtain ps m where wk: "wakeup (ChBuf i) w = Inr (w\<lparr>procs := ps, swappedout := m, cpus := cpus (after_cli w)\<rparr>)"
    using wakeup_frame [OF idle(1)] by blast
  let ?t = "w\<lparr>procs := ps, swappedout := m, cpus := cpus (after_cli w)\<rparr>"
  have "\<exists>u. release BcacheLock ?t = Inr u \<and> bufs u = bufs ?t \<and> bnext u = bnext ?t \<and> bprev u = bprev ?t \<and>
      disk u = disk ?t \<and> writes u = writes ?t \<and> bframe s u"
    using w by (intro bcache_release [OF assms(1)]) (simp_all add: after_cli_nested [OF idle(2)])
  then obtain u where u: "release BcacheLock ?t = Inr u" "bufs u = bufs w" "bnext u = bnext w" "bprev u = bprev w"
      "disk u = disk w" "writes u = writes w" "bframe s u" by auto
  have "acquire BcacheLock s = Inr (with_lock BcacheLock s)"
    using assms(1) by (simp add: bcache_ready_def acquire_free)
  then have "brelse i s = Inr u" using assms(3) wk u(1) by (simp add: brelse_def Let_def w_def [symmetric])
  then show ?thesis using u w lru lru_cong [of u w] by auto
qed

lemma bget_ok:
  fixes dv sec :: uint
  assumes "bcache_ready s" and "lru s xs" and "length xs = NBUF"
  defines "cached \<equiv> find (\<lambda>i. b_dev (bufs s ! i) = dv \<and> b_sector (bufs s ! i) = sec) xs"
    and "oldest \<equiv> find (\<lambda>i. \<not> b_busy (bufs s ! i) \<and> \<not> b_dirty (bufs s ! i)) (rev xs)"
  shows "case (cached, oldest) of
    (Some i, _) \<Rightarrow>
      if b_busy (bufs s ! i) then bget dv sec s = Inl (Sleeps ''bget'')
      else \<exists>t. bget dv sec s = Inr (i, t) \<and> lru t xs \<and> bufs t = (bufs s)[i := (bufs s ! i)\<lparr>b_busy := True\<rparr>] \<and>
        disk t = disk s \<and> writes t = writes s \<and> bframe s t
  | (None, Some i) \<Rightarrow>
      \<exists>t. bget dv sec s = Inr (i, t) \<and> lru t xs \<and> bufs t = (bufs s)[i := (bufs s ! i)\<lparr>b_dev := dv, b_sector := sec,
        b_busy := True, b_valid := False, b_dirty := False\<rparr>] \<and>
        disk t = disk s \<and> writes t = writes s \<and> bframe s t
  | (None, None) \<Rightarrow> bget dv sec s = Inl (Panic ''bget: no buffers'')"
proof -
  let ?w = "with_lock BcacheLock s"
  have acq: "acquire BcacheLock s = Inr ?w" using assms(1) by (simp add: bcache_ready_def acquire_free)
  have s1: "bscan (Suc NBUF) (bnext s) p (bnext s Head) = Inr (find p xs)"
    and s2: "bscan (Suc NBUF) (bprev s) p (bprev s Head) = Inr (find p (rev xs))" for p
    using assms(2,3) by (auto simp: lru_def intro!: bscan_seg)
  have leave: "\<exists>t. release BcacheLock (upd_buf i f ?w) = Inr t \<and> lru t xs \<and>
      bufs t = (bufs s)[i := f (bufs s ! i)] \<and> disk t = disk s \<and> writes t = writes s \<and> bframe s t" for i f
    using bcache_release [OF assms(1), of "upd_buf i f ?w"] assms(2) lru_cong [of _ s xs] by auto
  show ?thesis
  proof (cases cached)
    case (Some i)
    then show ?thesis
      using acq s1 leave [of i "\<lambda>b. b\<lparr>b_busy := True\<rparr>"] by (auto simp: bget_def cached_def)
  next
    case None
    show ?thesis
    proof (cases oldest)
      case old: (Some i)
      then show ?thesis
        using None acq s1 s2
          leave [of i "\<lambda>b. b\<lparr>b_dev := dv, b_sector := sec, b_busy := True, b_valid := False, b_dirty := False\<rparr>"]
        by (auto simp: bget_def cached_def oldest_def)
    qed (use None acq s1 s2 in \<open>simp add: bget_def cached_def oldest_def\<close>)
  qed
qed

section \<open>The driver\<close>

text \<open>No request is queued, the drive reports no error and no lock is held.\<close>

definition ide_idle :: "'a bcache_scheme \<Rightarrow> bool" where
  "ide_idle s \<longleftrightarrow> idequeue s = [] \<and> \<not> ide_fail s \<and> lock_free IdeLock s \<and> cpu_ncli (cpus s (mycpu s)) = 0"

text \<open>A request on a busy buffer for a drive that exists.\<close>

definition ide_request :: "nat \<Rightarrow> 'a bcache_scheme \<Rightarrow> bool" where
  "ide_request i s \<longleftrightarrow> i < length (bufs s) \<and> b_busy (bufs s ! i) \<and>
     (b_valid (bufs s ! i) \<longrightarrow> b_dirty (bufs s ! i)) \<and> (b_dev (bufs s ! i) = 0 \<or> havedisk1 s)"

lemmas ide_defs = ide_idle_def ide_request_def iderw_def ideintr_def idestart_def insl_def acquire_def release_def
  pushcli_def popcli_def holding_def sti_def Let_def lock_free_def buf_done_def upd_buf_def idewait_def
  disk_write_def numeral_2_eq_2

lemma iderw_read:
  assumes "ide_idle s" and "ide_request i s" and "\<not> b_dirty (bufs s ! i)"
  shows "\<exists>t. iderw i s = Inr t \<and> bframe s t \<and> bnext t = bnext s \<and> bprev t = bprev s \<and>
    bufs t = (bufs s)[i := (bufs s ! i)\<lparr>b_data := disk s (ide_drive (bufs s ! i)) (ide_sector (bufs s ! i)),
      b_valid := True, b_dirty := False\<rparr>] \<and> disk t = disk s \<and> writes t = writes s"
  using assms by (simp add: ide_defs fun_upd_idem bframe_def cli_ok_def)

lemma iderw_write:
  assumes "ide_idle s" and "ide_request i s" and "b_dirty (bufs s ! i)"
  shows "\<exists>t. iderw i s = Inr t \<and> bframe s t \<and> bnext t = bnext s \<and> bprev t = bprev s \<and>
    bufs t = (bufs s)[i := (bufs s ! i)\<lparr>b_valid := True, b_dirty := False\<rparr>] \<and>
    disk t = (disk s)(ide_drive (bufs s ! i) := (disk s (ide_drive (bufs s ! i)))(ide_sector (bufs s ! i) := b_data (bufs s ! i))) \<and>
    writes t = writes s @ [(ide_drive (bufs s ! i), ide_sector (bufs s ! i), b_data (bufs s ! i))]"
  using assms by (simp add: ide_defs fun_upd_idem bframe_def cli_ok_def)

lemma bframe_idle: "bframe s t \<Longrightarrow> ide_idle s \<Longrightarrow> ide_idle t"
  by (simp add: bframe_def ide_idle_def lock_free_def)

lemma ide_sector_id: "b_sector b < 0x10000000 \<Longrightarrow> ide_sector b = b_sector b"
proof -
  assume "b_sector b < 0x10000000"
  then have "unat (b_sector b) < 2 ^ 28" by (simp add: word_less_nat_alt)
  moreover have "(0x0FFFFFFF :: uint) = mask 28" by (simp add: mask_eq_exp_minus_1)
  ultimately have "unat (ide_sector b) = unat (b_sector b)"
    unfolding ide_sector_def by (simp only: unat_and_mask mod_less)
  then show ?thesis by (simp only: word_unat_eq_iff)
qed

lemma buf_clean: "\<not> b_dirty b \<Longrightarrow> b\<lparr>b_data := d, b_dirty := False, b_valid := v\<rparr> = b\<lparr>b_data := d, b_valid := v\<rparr>"
  by (cases b) simp

lemma buf_flags: "b\<lparr>b_valid := v, b_dirty := d\<rparr> = b\<lparr>b_dirty := d, b_valid := v\<rparr>"
  by simp

section \<open>A concrete cache\<close>

definition a_buf :: buf where
  "a_buf = \<lparr>b_busy = False, b_valid = False, b_dirty = False, b_dev = 0, b_sector = 0, b_data = (\<lambda>_. 0)\<rparr>"

definition boot_cache :: bcache where
  "boot_cache = binit (ptable.extend (a_table sleepers)
     (bcache.fields (replicate NBUF a_buf) (\<lambda>_. Head) (\<lambda>_. Head) [] True (\<lambda>_ _ _. 0) None False []))"

definition busy_cache :: bcache where
  "busy_cache = upd_buf 3 (\<lambda>b. b\<lparr>b_busy := True, b_dev := 1, b_sector := 7\<rparr>) boot_cache"

lemma boot_cache_ready: "bcache_ready boot_cache" "bcache_ready busy_cache"
  by code_simp+

lemma boot_cache_lru: "lru boot_cache [9, 8, 7, 6, 5, 4, 3, 2, 1, 0]"
  "lru busy_cache ([9, 8, 7, 6, 5, 4] @ 3 # [2, 1, 0])"
proof -
  have "rev [0..<NBUF] = [9, 8, 7, 6, 5, 4, 3, 2, 1, 0]" by code_simp
  then show l: "lru boot_cache [9, 8, 7, 6, 5, 4, 3, 2, 1, 0]" unfolding boot_cache_def using binit_lru by metis
  have "lru busy_cache [9, 8, 7, 6, 5, 4, 3, 2, 1, 0]"
    using l lru_cong [of busy_cache boot_cache] by (simp add: busy_cache_def)
  then show "lru busy_cache ([9, 8, 7, 6, 5, 4] @ 3 # [2, 1, 0])" by simp
qed

section \<open>Properties\<close>



text \<open>
  (C19) A request for a block finds the buffer
  that holds it, or, when none does, takes over the buffer used longest ago among those that are neither
  busy nor dirty; it sleeps when the buffer is busy and panics when no buffer can be reused.
\<close>

theorem bget_finds_or_recycles:
  fixes dv sec :: uint
  assumes "bcache_ready s" and "lru s xs" and "length xs = NBUF"
  defines "cached \<equiv> find (\<lambda>i. b_dev (bufs s ! i) = dv \<and> b_sector (bufs s ! i) = sec) xs"
    and "oldest \<equiv> find (\<lambda>i. \<not> b_busy (bufs s ! i) \<and> \<not> b_dirty (bufs s ! i)) (rev xs)"
  shows "case (cached, oldest) of
    (Some i, _) \<Rightarrow>
      if b_busy (bufs s ! i) then bget dv sec s = Inl (Sleeps ''bget'')
      else \<exists>t. bget dv sec s = Inr (i, t) \<and> lru t xs \<and> bufs t = (bufs s)[i := (bufs s ! i)\<lparr>b_busy := True\<rparr>] \<and>
        disk t = disk s \<and> writes t = writes s \<and> bcache_ready t
  | (None, Some i) \<Rightarrow>
      \<exists>t. bget dv sec s = Inr (i, t) \<and> lru t xs \<and> bufs t = (bufs s)[i := (bufs s ! i)\<lparr>b_dev := dv, b_sector := sec,
        b_busy := True, b_valid := False, b_dirty := False\<rparr>] \<and>
        disk t = disk s \<and> writes t = writes s \<and> bcache_ready t
  | (None, None) \<Rightarrow> bget dv sec s = Inl (Panic ''bget: no buffers'')"
  using bget_ok [OF assms(1-3), of dv sec] bframe_ready [OF _ assms(1)] unfolding cached_def oldest_def
  by (fastforce split: option.splits if_splits)

theorem bget_finds_or_recycles_witness:
  "\<exists>t. bget 1 7 boot_cache = Inr (0, t) \<and> lru t [9, 8, 7, 6, 5, 4, 3, 2, 1, 0]"
proof -
  have "find (\<lambda>i. b_dev (bufs boot_cache ! i) = 1 \<and> b_sector (bufs boot_cache ! i) = 7) [9, 8, 7, 6, 5, 4, 3, 2, 1, 0] = None"
    "find (\<lambda>i. \<not> b_busy (bufs boot_cache ! i) \<and> \<not> b_dirty (bufs boot_cache ! i)) (rev [9, 8, 7, 6, 5, 4, 3, 2, 1, 0]) = Some 0"
    by code_simp+
  then show ?thesis
    using bget_finds_or_recycles [OF boot_cache_ready(1) boot_cache_lru(1), of 1 7] by auto
qed



end
