(* ===== verification/Block_Store.thy ===== *)
theory Block_Store
  imports Buffer_Cache Log
begin

text \<open>
  The buffer cache as a store of blocks on the root device: what reading, writing and releasing a block
  do to the contents a client sees (\<open>view\<close>), to the disk and to the history of writes. A dirty
  buffer holds contents that are not on the disk yet.
\<close>

section \<open>Invariant and view\<close>

definition holds :: "buf \<Rightarrow> uint \<Rightarrow> bool" where
  "holds b sec \<longleftrightarrow> b_dev b = 1 \<and> b_sector b = sec"

text \<open>
  At most one buffer for a block; valid buffers are for blocks of the root device; a clean one that no
  process holds agrees with the disk. The holder of a buffer may have changed its data.
\<close>

definition bufs_ok :: "buf list \<Rightarrow> (uint \<Rightarrow> block) \<Rightarrow> bool" where
  "bufs_ok bs d \<longleftrightarrow>
     (\<forall>i<length bs. \<forall>j<length bs. \<forall>sec. holds (bs ! i) sec \<longrightarrow> holds (bs ! j) sec \<longrightarrow> i = j) \<and>
     (\<forall>i<length bs. b_valid (bs ! i) \<longrightarrow> b_dev (bs ! i) = 1 \<and> b_sector (bs ! i) < 0x10000000 \<and>
        (\<not> b_dirty (bs ! i) \<and> \<not> b_busy (bs ! i) \<longrightarrow> b_data (bs ! i) = d (b_sector (bs ! i)))) \<and>
     (\<forall>i<length bs. b_dirty (bs ! i) \<longrightarrow> b_valid (bs ! i))"

definition store_ok :: "'a bcache_scheme \<Rightarrow> bool" where
  "store_ok s \<longleftrightarrow> bcache_ready s \<and> ide_idle s \<and> havedisk1 s \<and> length (bufs s) = NBUF \<and>
     (\<exists>xs. lru s xs \<and> length xs = NBUF \<and> set xs = {..<NBUF}) \<and> bufs_ok (bufs s) (disk s 1)"

definition view_of :: "buf list \<Rightarrow> (uint \<Rightarrow> block) \<Rightarrow> uint \<Rightarrow> block" where
  "view_of bs d sec =
     (case find (\<lambda>b. holds b sec \<and> b_dirty b) bs of Some b \<Rightarrow> b_data b | None \<Rightarrow> d sec)"

abbreviation view :: "'a bcache_scheme \<Rightarrow> uint \<Rightarrow> block" where
  "view s \<equiv> view_of (bufs s) (disk s 1)"

lemma find_app: "find P (xs @ ys) = (case find P xs of None \<Rightarrow> find P ys | Some x \<Rightarrow> Some x)"
  by (induction xs) auto

lemma find_unique_nth:
  assumes "i < length bs" and "P (bs ! i)" and "\<And>j. j < length bs \<Longrightarrow> P (bs ! j) \<Longrightarrow> j = i"
  shows "find P bs = Some (bs ! i)"
proof -
  obtain j where "j < length bs" "P (bs ! j)" "find P bs = Some (bs ! j)"
    using assms(1,2) by (cases "find P bs") (auto simp: find_None_iff find_Some_iff)
  then show ?thesis using assms(3) by metis
qed

lemma bufs_ok_unique:
  "bufs_ok bs d \<Longrightarrow> i < length bs \<Longrightarrow> j < length bs \<Longrightarrow> holds (bs ! i) sec \<Longrightarrow> holds (bs ! j) sec \<Longrightarrow> i = j"
  unfolding bufs_ok_def by blast

lemma bufs_ok_valid:
  "bufs_ok bs d \<Longrightarrow> i < length bs \<Longrightarrow> b_valid (bs ! i) \<Longrightarrow>
   b_dev (bs ! i) = 1 \<and> b_sector (bs ! i) < 0x10000000 \<and> (b_dirty (bs ! i) \<or> b_busy (bs ! i) \<or> b_data (bs ! i) = d (b_sector (bs ! i)))"
  unfolding bufs_ok_def by blast

lemma bufs_ok_dirty: "bufs_ok bs d \<Longrightarrow> i < length bs \<Longrightarrow> b_dirty (bs ! i) \<Longrightarrow> b_valid (bs ! i)"
  unfolding bufs_ok_def by blast

lemma view_dirty:
  assumes "bufs_ok bs d" and "i < length bs" "holds (bs ! i) sec" "b_dirty (bs ! i)"
  shows "view_of bs d sec = b_data (bs ! i)"
proof -
  have "find (\<lambda>b. holds b sec \<and> b_dirty b) bs = Some (bs ! i)"
    using assms bufs_ok_unique [OF assms(1)] by (intro find_unique_nth) blast+
  then show ?thesis by (simp add: view_of_def)
qed

lemma view_disk:
  assumes "\<And>i. i < length bs \<Longrightarrow> holds (bs ! i) sec \<Longrightarrow> \<not> b_dirty (bs ! i)"
  shows "view_of bs d sec = d sec"
proof -
  have "find (\<lambda>b. holds b sec \<and> b_dirty b) bs = None"
    using assms by (auto simp: find_None_iff in_set_conv_nth)
  then show ?thesis by (simp add: view_of_def)
qed

lemma view_buf:
  assumes "bufs_ok bs d" and "i < length bs" "holds (bs ! i) sec" "b_valid (bs ! i)" "\<not> b_busy (bs ! i)"
  shows "b_data (bs ! i) = view_of bs d sec"
proof (cases "b_dirty (bs ! i)")
  case True then show ?thesis using view_dirty [OF assms(1-3)] by simp
next
  case False
  have "view_of bs d sec = d sec"
    using False assms bufs_ok_unique [OF assms(1)] by (intro view_disk) metis
  then show ?thesis using bufs_ok_valid [OF assms(1,2,4)] False assms(3,5) by (simp add: holds_def)
qed

text \<open>Replacing one buffer.\<close>

lemma bufs_ok_update:
  assumes "bufs_ok bs d" and "\<And>j sec. j < length bs \<Longrightarrow> j \<noteq> i \<Longrightarrow> holds (bs ! j) sec \<Longrightarrow> \<not> holds b sec"
    and "b_valid b \<longrightarrow> b_dev b = 1 \<and> b_sector b < 0x10000000 \<and> (b_dirty b \<or> b_busy b \<or> b_data b = d' (b_sector b))"
    and "b_dirty b \<longrightarrow> b_valid b"
    and "\<And>sec. \<not> holds b sec \<Longrightarrow> d' sec = d sec"
  shows "bufs_ok (bs[i := b]) d'"
  unfolding bufs_ok_def
proof (intro conjI allI impI)
  fix j k sec
  assume "j < length (bs[i := b])" "k < length (bs[i := b])" "holds (bs[i := b] ! j) sec" "holds (bs[i := b] ! k) sec"
  then show "j = k"
    using assms(2) [of j sec] assms(2) [of k sec] bufs_ok_unique [OF assms(1), of j k sec]
    by (cases "j = i"; cases "k = i") auto
next
  fix j assume j: "j < length (bs[i := b])" and v: "b_valid (bs[i := b] ! j)"
  have h: "holds (bs ! j) (b_sector (bs ! j))" if "b_dev (bs ! j) = 1" using that by (simp add: holds_def)
  show "b_dev (bs[i := b] ! j) = 1" "b_sector (bs[i := b] ! j) < 0x10000000"
    using j v assms(3) bufs_ok_valid [OF assms(1), of j] by (cases "j = i"; auto)+
  assume "\<not> b_dirty (bs[i := b] ! j) \<and> \<not> b_busy (bs[i := b] ! j)"
  then show "b_data (bs[i := b] ! j) = d' (b_sector (bs[i := b] ! j))"
    using j v assms(3) bufs_ok_valid [OF assms(1), of j] assms(2) [of j "b_sector (bs ! j)"] assms(5) h
    by (cases "j = i") auto
next
  fix j assume "j < length (bs[i := b])" "b_dirty (bs[i := b] ! j)"
  then show "b_valid (bs[i := b] ! j)"
    using assms(4) bufs_ok_dirty [OF assms(1), of j] by (cases "j = i") auto
qed

lemma view_update_same:
  assumes "\<And>sec. holds (bs ! i) sec \<and> b_dirty (bs ! i) \<longleftrightarrow> holds b sec \<and> b_dirty b"
    and "b_dirty b \<Longrightarrow> b_data b = b_data (bs ! i)"
  shows "view_of (bs[i := b]) d = view_of bs d"
proof (cases "i < length bs")
  case True
  then obtain us vs where bs: "bs = us @ bs ! i # vs" "length us = i" by (metis id_take_nth_drop length_take min.absorb4)
  then have up: "bs[i := b] = us @ b # vs" by (metis list_update_length)
  have "view_of (us @ b # vs) d sec = view_of (us @ bs ! i # vs) d sec" for sec
    using assms by (auto simp: view_of_def find_app split: option.splits)
  then show ?thesis using up bs(1) by (simp add: fun_eq_iff)
qed (simp add: list_update_beyond)

lemma view_update_clean:
  assumes "bufs_ok bs d" and "i < length bs" and "holds (bs ! i) sec" and "holds b sec" and "\<not> b_dirty b"
  shows "view_of (bs[i := b]) (d(sec := v)) = (view_of bs d)(sec := v)"
proof
  fix sec'
  show "view_of (bs[i := b]) (d(sec := v)) sec' = ((view_of bs d)(sec := v)) sec'"
  proof (cases "sec' = sec")
    case True
    have "\<not> b_dirty (bs[i := b] ! j)" if "j < length (bs[i := b])" "holds (bs[i := b] ! j) sec" for j
      using that assms bufs_ok_unique [OF assms(1), of j i sec] by (cases "j = i") simp_all
    then have "view_of (bs[i := b]) (d(sec := v)) sec = (d(sec := v)) sec" by (rule view_disk)
    then show ?thesis using True by simp
  next
    case False
    obtain us vs where bs: "bs = us @ bs ! i # vs" "length us = i"
      using assms(2) by (metis id_take_nth_drop length_take min.absorb4)
    then have up: "bs[i := b] = us @ b # vs" by (metis list_update_length)
    have "\<not> holds b sec'" "\<not> holds (bs ! i) sec'" using False assms(3,4) by (auto simp: holds_def)
    then have "view_of (us @ b # vs) (d(sec := v)) sec' = view_of (us @ bs ! i # vs) d sec'"
      using False by (auto simp: view_of_def find_app split: option.splits)
    then show ?thesis using False up bs(1) by simp
  qed
qed

section \<open>The operations\<close>

lemma store_ok_frame:
  assumes "store_ok s" and "bframe s t" and "length (bufs t) = length (bufs s)"
    and "\<exists>xs. lru t xs \<and> length xs = NBUF \<and> set xs = {..<NBUF}" and "bufs_ok (bufs t) (disk t 1)"
  shows "store_ok t"
  using assms bframe_ready [OF assms(2)] bframe_idle [OF assms(2)]
  by (simp add: store_ok_def) (simp add: bframe_def)

lemma brelse_store:
  assumes "store_ok s" and "i < NBUF" and "b_busy (bufs s ! i)"
    and "b_dirty (bufs s ! i) \<or> b_data (bufs s ! i) = disk s 1 (b_sector (bufs s ! i))"
  shows "\<exists>t. brelse i s = Inr t \<and> store_ok t \<and> bframe s t \<and>
    bufs t = (bufs s)[i := (bufs s ! i)\<lparr>b_busy := False\<rparr>] \<and> disk t = disk s \<and> writes t = writes s \<and> view t = view s"
proof -
  from assms(1) have ok: "bcache_ready s" "bufs_ok (bufs s) (disk s 1)" "length (bufs s) = NBUF"
    by (simp_all add: store_ok_def)
  from assms(1) obtain xs where xs: "lru s xs" "length xs = NBUF" "set xs = {..<NBUF}"
    unfolding store_ok_def by blast
  then obtain us vs where split: "xs = us @ i # vs" using assms(2) by (metis lessThan_iff split_list)
  let ?b = "(bufs s ! i)\<lparr>b_busy := False\<rparr>"
  obtain t where t: "brelse i s = Inr t" "lru t (i # us @ vs)" "bufs t = (bufs s)[i := ?b]"
      "disk t = disk s" "writes t = writes s" "bframe s t"
    using brelse_ok [OF ok(1) xs(1) [unfolded split] assms(3)] by blast
  have h: "holds ?b sec = holds (bufs s ! i) sec" for sec by (simp add: holds_def)
  have "bufs_ok (bufs t) (disk t 1)"
    unfolding t(3,4)
    using ok assms(2,4) bufs_ok_unique [OF ok(2), of i] bufs_ok_valid [OF ok(2), of i] bufs_ok_dirty [OF ok(2), of i]
    by (intro bufs_ok_update [OF ok(2)]) (auto simp: h)
  moreover have "view t = view s" unfolding t(3,4) by (rule view_update_same) (simp_all add: h)
  moreover have "\<exists>xs. lru t xs \<and> length xs = NBUF \<and> set xs = {..<NBUF}"
    using t(2) xs(2,3) split by (intro exI [of _ "i # us @ vs"]) auto
  ultimately show ?thesis
    using t store_ok_frame [OF assms(1) t(6)] by auto
qed

text \<open>Storing new contents in a buffer that is held and writing it through.\<close>

lemma bwrite_store:
  fixes f :: "block \<Rightarrow> block"
  assumes "store_ok s" and "i < NBUF" and "b_busy (bufs s ! i)" "b_valid (bufs s ! i)" "holds (bufs s ! i) sec"
  defines "d \<equiv> f (b_data (bufs s ! i))"
  shows "\<exists>t. bwrite i (set_data i f s) = Inr t \<and> store_ok t \<and> bframe s t \<and>
    bufs t = (bufs s)[i := (bufs s ! i)\<lparr>b_data := d, b_dirty := False\<rparr>] \<and>
    disk t 1 = (disk s 1)(sec := d) \<and> writes t = writes s @ [(1, sec, d)] \<and> view t = (view s)(sec := d)"
proof -
  from assms(1) have ok: "ide_idle s" "havedisk1 s" "bufs_ok (bufs s) (disk s 1)" and len: "length (bufs s) = NBUF"
    by (simp_all add: store_ok_def)
  let ?b = "bufs s ! i"
  let ?c = "?b\<lparr>b_data := d, b_dirty := False\<rparr>"
  define v where "v = upd_buf i (\<lambda>b. b\<lparr>b_dirty := True\<rparr>) (set_data i f s)"
  have bufs_v: "bufs v = (bufs s)[i := ?b\<lparr>b_data := d, b_dirty := True\<rparr>]"
    using assms(2) len by (simp add: v_def set_data_def d_def)
  then have at: "bufs v ! i = ?b\<lparr>b_data := d, b_dirty := True\<rparr>" using assms(2) len by simp
  have v: "bframe s v" "disk v = disk s" "writes v = writes s" "bnext v = bnext s" "bprev v = bprev s"
    by (simp_all add: v_def set_data_def bframe_def cli_ok_def)
  have "b_sector ?b < 0x10000000" using bufs_ok_valid [OF ok(3), of i] assms(2,4) len by simp
  then have ide: "ide_drive (bufs v ! i) = 1" "ide_sector (bufs v ! i) = sec"
    using assms(5) unfolding at by (simp_all add: ide_drive_def ide_sector_id holds_def)
  have "ide_request i v"
    using assms(2-5) len v(1) ok(2) unfolding ide_request_def at by (simp add: bufs_v bframe_def)
  from iderw_write [OF bframe_idle [OF v(1) ok(1)] this] at ide obtain t where
    t: "iderw i v = Inr t" "bframe v t" "bnext t = bnext v" "bprev t = bprev v"
      "bufs t = (bufs v)[i := (bufs v ! i)\<lparr>b_valid := True, b_dirty := False\<rparr>]"
      "disk t = (disk v)(1 := (disk v 1)(sec := d))" "writes t = writes v @ [(1, sec, d)]"
    by auto
  have "(bufs v ! i)\<lparr>b_valid := True, b_dirty := False\<rparr> = ?c"
    using assms(4) unfolding at by (cases ?b) simp
  then have bufs_t: "bufs t = (bufs s)[i := ?c]" unfolding t(5) bufs_v by simp
  have disk_t: "disk t 1 = (disk s 1)(sec := d)" unfolding t(6) v(2) by simp
  have frame: "bframe s t" using v(1) t(2) by (rule bframe_trans)
  have hc: "holds ?c sec'  = holds ?b sec'" for sec' by (simp add: holds_def)
  have other: "\<not> holds ?c sec'" if "j < length (bufs s)" "j \<noteq> i" "holds (bufs s ! j) sec'" for j sec'
    using bufs_ok_unique [OF ok(3), of i j sec'] that assms(2) len by (auto simp: hc)
  have "bufs_ok (bufs t) (disk t 1)"
    unfolding bufs_t disk_t
  proof (rule bufs_ok_update [OF ok(3) other])
    show "b_valid ?c \<longrightarrow> b_dev ?c = 1 \<and> b_sector ?c < 0x10000000 \<and>
        (b_dirty ?c \<or> b_busy ?c \<or> b_data ?c = ((disk s 1)(sec := d)) (b_sector ?c))"
      using assms(5) \<open>b_sector ?b < 0x10000000\<close> by (simp add: holds_def)
    show "((disk s 1)(sec := d)) sec' = disk s 1 sec'" if "\<not> holds ?c sec'" for sec'
      using that assms(5) by (auto simp: hc)
  qed simp_all
  moreover have "\<exists>xs. lru t xs \<and> length xs = NBUF \<and> set xs = {..<NBUF}"
    using assms(1) t(3,4) v(4,5) lru_cong [of t s] unfolding store_ok_def by simp
  moreover have "view t = (view s)(sec := d)"
    unfolding bufs_t disk_t using assms(2,5) len by (intro view_update_clean [OF ok(3)]) (simp_all add: hc)
  moreover have "bwrite i (set_data i f s) = Inr t"
    using t(1) assms(2,3) len by (simp add: bwrite_def v_def set_data_def)
  ultimately show ?thesis
    using store_ok_frame [OF assms(1) frame] frame bufs_t disk_t t(7) v(3) by auto
qed

lemma bget_store:
  assumes "store_ok s" and "\<And>i. i < NBUF \<Longrightarrow> holds (bufs s ! i) sec \<Longrightarrow> \<not> b_busy (bufs s ! i)"
    and "\<exists>i<NBUF. \<not> b_busy (bufs s ! i) \<and> \<not> b_dirty (bufs s ! i)"
  obtains i t b where "bget 1 sec s = Inr (i, t)" "i < NBUF" "bframe s t" "\<not> b_busy (bufs s ! i)"
    "bufs t = (bufs s)[i := b]" "b_busy b" "holds b sec" "disk t = disk s" "writes t = writes s"
    "\<exists>xs. lru t xs \<and> length xs = NBUF \<and> set xs = {..<NBUF}"
    "(b = (bufs s ! i)\<lparr>b_busy := True\<rparr> \<and> holds (bufs s ! i) sec) \<or>
     (\<not> b_valid b \<and> \<not> b_dirty b \<and> \<not> b_dirty (bufs s ! i) \<and> (\<forall>j<NBUF. \<not> holds (bufs s ! j) sec))"
proof -
  from assms(1) obtain xs where xs: "lru s xs" "length xs = NBUF" "set xs = {..<NBUF}" and r: "bcache_ready s"
    unfolding store_ok_def by blast
  let ?cached = "find (\<lambda>i. b_dev (bufs s ! i) = 1 \<and> b_sector (bufs s ! i) = sec) xs"
  let ?oldest = "find (\<lambda>i. \<not> b_busy (bufs s ! i) \<and> \<not> b_dirty (bufs s ! i)) (rev xs)"
  note g = bget_ok [OF r xs(1,2), of 1 sec]
  show ?thesis
  proof (cases ?cached)
    case (Some i)
    then have i: "i < NBUF" "holds (bufs s ! i) sec" using xs(3) by (auto simp: find_Some_iff holds_def)
    then have "\<not> b_busy (bufs s ! i)" by (rule assms(2))
    with g Some obtain t where "bget 1 sec s = Inr (i, t)" "lru t xs" "bufs t = (bufs s)[i := (bufs s ! i)\<lparr>b_busy := True\<rparr>]"
        "disk t = disk s" "writes t = writes s" "bframe s t" by auto
    then show ?thesis using i xs \<open>\<not> b_busy (bufs s ! i)\<close>
      by (intro that [of i t "(bufs s ! i)\<lparr>b_busy := True\<rparr>"]) (auto simp: holds_def)
  next
    case None
    have "?oldest \<noteq> None" using assms(3) xs(3) by (auto simp: find_None_iff)
    then obtain i where old: "?oldest = Some i" by blast
    then have i: "i < NBUF" "\<not> b_busy (bufs s ! i)" "\<not> b_dirty (bufs s ! i)"
      using xs(3) by (auto simp: find_Some_iff) (metis length_rev lessThan_iff nth_mem set_rev)
    let ?b = "(bufs s ! i)\<lparr>b_dev := 1, b_sector := sec, b_busy := True, b_valid := False, b_dirty := False\<rparr>"
    from g None old obtain t where "bget 1 sec s = Inr (i, t)" "lru t xs" "bufs t = (bufs s)[i := ?b]"
        "disk t = disk s" "writes t = writes s" "bframe s t" by auto
    moreover have "\<forall>j<NBUF. \<not> holds (bufs s ! j) sec" using None xs(3) by (auto simp: find_None_iff holds_def)
    ultimately show ?thesis using i xs by (intro that [of i t ?b]) (auto simp: holds_def)
  qed
qed

lemma bread_store:
  assumes "store_ok s" and "sec < 0x10000000"
    and "\<And>i. i < NBUF \<Longrightarrow> holds (bufs s ! i) sec \<Longrightarrow> \<not> b_busy (bufs s ! i)"
    and "\<exists>i<NBUF. \<not> b_busy (bufs s ! i) \<and> \<not> b_dirty (bufs s ! i)"
  obtains i t b where "bread 1 sec s = Inr (i, t)" "i < NBUF" "store_ok t" "bframe s t" "\<not> b_busy (bufs s ! i)"
    "bufs t = (bufs s)[i := b]" "b_busy b" "b_valid b" "holds b sec" "b_data b = view s sec"
    "b_dirty b = b_dirty (bufs s ! i)" "disk t = disk s" "writes t = writes s" "view t = view s"
    "b_dirty b \<longrightarrow> holds (bufs s ! i) sec" "b_dirty b \<or> view s sec = disk s 1 sec"
proof -
  from assms(1) have ok: "ide_idle s" "havedisk1 s" "bufs_ok (bufs s) (disk s 1)" and len: "length (bufs s) = NBUF"
    by (simp_all add: store_ok_def)
  obtain i u b where g: "bget 1 sec s = Inr (i, u)" "i < NBUF" "bframe s u" "\<not> b_busy (bufs s ! i)"
      "bufs u = (bufs s)[i := b]" "b_busy b" "holds b sec" "disk u = disk s" "writes u = writes s"
      "\<exists>xs. lru u xs \<and> length xs = NBUF \<and> set xs = {..<NBUF}"
      "(b = (bufs s ! i)\<lparr>b_busy := True\<rparr> \<and> holds (bufs s ! i) sec) \<or>
       (\<not> b_valid b \<and> \<not> b_dirty b \<and> \<not> b_dirty (bufs s ! i) \<and> (\<forall>j<NBUF. \<not> holds (bufs s ! j) sec))"
    using bget_store [OF assms(1,3,4)] by blast
  have at: "bufs u ! i = b" using g(2,5) len by simp
  have alone: "\<not> holds (bufs s ! j) sec" if "j < length (bufs s)" "j \<noteq> i" for j
    using g(11) that len bufs_ok_unique [OF ok(3), of j i sec] g(2) by auto
  have dirty: "b_dirty b = b_dirty (bufs s ! i)" "b_dirty b \<longrightarrow> holds (bufs s ! i) sec" using g(11) by auto
  have clean: "b_dirty b \<or> view s sec = disk s 1 sec"
    using alone dirty(1) by (metis view_disk)
  text \<open>Any buffer for the block put in this place keeps the invariant.\<close>
  have keep: "store_ok t \<and> view t = view s"
    if "bframe s t" "bufs t = (bufs s)[i := c]" "disk t = disk s" "holds c sec" "b_valid c"
      "b_dirty c = b_dirty (bufs s ! i)" "b_dirty c \<longrightarrow> holds (bufs s ! i) sec" "b_data c = view s sec"
      "\<exists>xs. lru t xs \<and> length xs = NBUF \<and> set xs = {..<NBUF}" for t c
  proof -
    have "b_data c = disk s 1 sec" if "\<not> b_dirty c"
      using that \<open>b_data c = view s sec\<close> \<open>b_dirty c = b_dirty (bufs s ! i)\<close> alone
      by (metis view_disk)
    then have "bufs_ok (bufs t) (disk t 1)"
      unfolding that(2,3) using that(4,5) alone assms(2)
      by (intro bufs_ok_update [OF ok(3)]) (use alone in \<open>fastforce simp: holds_def\<close>)+
    moreover have "view t = view s"
      unfolding that(2,3)
    proof (rule view_update_same)
      show "holds (bufs s ! i) sec' \<and> b_dirty (bufs s ! i) \<longleftrightarrow> holds c sec' \<and> b_dirty c" for sec'
        using that(4,6,7) by (auto simp: holds_def)
      show "b_dirty c \<Longrightarrow> b_data c = b_data (bufs s ! i)"
        using that(6-8) view_dirty [OF ok(3), of i sec] g(2) len by simp
    qed
    ultimately show ?thesis using store_ok_frame [OF assms(1) that(1)] that(2,9) by simp
  qed
  show ?thesis
  proof (cases "b_valid b")
    case True
    then have b: "b = (bufs s ! i)\<lparr>b_busy := True\<rparr>" "holds (bufs s ! i) sec" using g(11) by auto
    have "b_data b = view s sec" using view_buf [OF ok(3), of i sec] True b g(2,4) len by simp
    then have "store_ok u \<and> view u = view s" using keep [OF g(3,5,8,7) True] b dirty g(10) by simp
    then show ?thesis
      using g True at dirty clean \<open>b_data b = view s sec\<close> by (intro that [of i u b]) (simp_all add: bread_def)
  next
    case False
    then have undirty: "\<not> b_dirty b" using g(11) bufs_ok_dirty [OF ok(3), of i] g(2) len by auto
    let ?c = "b\<lparr>b_data := disk s 1 sec, b_valid := True, b_dirty := False\<rparr>"
    have ide: "ide_drive b = 1" "ide_sector b = sec"
      using g(7) assms(2) by (simp_all add: ide_drive_def ide_sector_id holds_def)
    have "ide_request i u"
      using g(2,3,6) at False len ok(2) unfolding ide_request_def at by (simp add: g(5) bframe_def)
    from iderw_read [OF bframe_idle [OF g(3) ok(1)] this] at ide undirty g(8) obtain t where
      t: "iderw i u = Inr t" "bframe u t" "bnext t = bnext u" "bprev t = bprev u"
        "bufs t = (bufs u)[i := ?c]" "disk t = disk u" "writes t = writes u"
      by auto
    have bt: "bufs t = (bufs s)[i := ?c]" unfolding t(5) g(5) by simp
    have "view s sec = disk s 1 sec" using clean undirty by simp
    moreover have "\<exists>xs. lru t xs \<and> length xs = NBUF \<and> set xs = {..<NBUF}"
      using g(10) lru_cong [of t u] t(3,4) by simp
    moreover have "holds ?c sec" using g(7) by (simp add: holds_def)
    moreover note fr = bframe_trans [OF g(3) t(2)]
    ultimately have "store_ok t \<and> view t = view s"
      using keep [OF fr bt] t(6) g(8) undirty dirty by simp
    then show ?thesis
      using g t bt fr at False undirty dirty clean \<open>view s sec = disk s 1 sec\<close> \<open>holds ?c sec\<close>
      by (intro that [of i t ?c]) (simp_all add: bread_def)
  qed
qed

end
