(* ===== verification/Disk_Layout.thy ===== *)
theory Disk_Layout
  imports Fs
begin

text \<open>
  The on-disk formats of \<^verbatim>\<open>fs.h\<close>: inodes inside their block, directory entries, and the
  path syntax that leads to them.
\<close>

section \<open>Fields of a block\<close>

lemma get16_put16 [simp]: "get16 (put16 k v d) k = v"
  by (rule bit_word_eqI) (auto simp: get16_def put16_def bit_simps)

lemma get32_put32 [simp]: "get32 (put32 k v d) k = v"
proof (rule bit_word_eqI)
  fix n assume "n < LENGTH(32)"
  then consider "n < 8" | "8 \<le> n" "n < 16" | "16 \<le> n" "n < 24" | "24 \<le> n" "n < 32" by fastforce
  then show "bit (get32 (put32 k v d) k) n = bit v n"
    by cases (auto simp: get32_def put32_def bit_simps)
qed

lemma get16_put16_other: "k + 2 \<le> j \<or> j + 2 \<le> k \<Longrightarrow> get16 (put16 k v d) j = get16 d j"
  and get32_put16_other: "k + 2 \<le> j \<or> j + 4 \<le> k \<Longrightarrow> get32 (put16 k v d) j = get32 d j"
  and get16_put32_other: "k + 4 \<le> j \<or> j + 2 \<le> k \<Longrightarrow> get16 (put32 k v' d) j = get16 d j"
  and get32_put32_other: "k + 4 \<le> j \<or> j + 4 \<le> k \<Longrightarrow> get32 (put32 k v' d) j = get32 d j"
  by (auto simp: get16_def get32_def put16_def put32_def)

lemmas field_other = get16_put16_other get32_put16_other get16_put32_other get32_put32_other

lemma get32_fold_put32:
  "j < n \<Longrightarrow> get32 (fold (\<lambda>j. put32 (a + 4 * j) (f j)) [0..<n] d) (a + 4 * j) = f j"
  by (induction n) (auto simp: less_Suc_eq field_other)

lemma get_fold_put32_other:
  "j + 4 \<le> a \<or> a + 4 * n \<le> j \<Longrightarrow> get32 (fold (\<lambda>j. put32 (a + 4 * j) (f j)) [0..<n] d) j = get32 d j"
  "j + 2 \<le> a \<or> a + 4 * n \<le> j \<Longrightarrow> get16 (fold (\<lambda>j. put32 (a + 4 * j) (f j)) [0..<n] d) j = get16 d j"
  by (induction n) (auto simp: field_other)

section \<open>Inodes\<close>

text \<open>The fields of an inode that are on the disk, put over those of a cache entry.\<close>

definition disk_fields :: "inode \<Rightarrow> inode \<Rightarrow> inode" where
  "disk_fields ip jp =
     jp\<lparr>i_type := i_type ip, i_major := i_major ip, i_minor := i_minor ip, i_nlink := i_nlink ip,
        i_size := i_size ip, i_addrs := (\<lambda>j. if j < NDIRECT + 1 then i_addrs ip j else i_addrs jp j)\<rparr>"

definition put_head :: "nat \<Rightarrow> inode \<Rightarrow> block \<Rightarrow> block" where
  "put_head k ip d =
     put32 (k + 8) (i_size ip) (put16 (k + 6) (i_nlink ip) (put16 (k + 4) (i_minor ip)
       (put16 (k + 2) (i_major ip) (put16 k (i_type ip) d))))"

lemma put_dinode_split:
  "put_dinode k ip d = fold (\<lambda>j. put32 (k + 12 + 4 * j) (i_addrs ip j)) [0..<NDIRECT + 1] (put_head k ip d)"
  by (simp only: put_dinode_def put_head_def)

lemma get_put_dinode: "get_dinode (put_dinode k ip d) k jp = disk_fields ip jp"
proof -
  define n where "n = NDIRECT + 1"
  show ?thesis
    unfolding put_dinode_split get_dinode_def disk_fields_def n_def [symmetric]
    by (simp add: get32_fold_put32 get_fold_put32_other put_head_def field_other cong: if_cong)
qed

lemma put_dinode_frame:
  "j + 2 \<le> k \<or> k + 64 \<le> j \<Longrightarrow> get16 (put_dinode k ip d) j = get16 d j"
  "j + 4 \<le> k \<or> k + 64 \<le> j \<Longrightarrow> get32 (put_dinode k ip d) j = get32 d j"
proof -
  define n where "n = NDIRECT + 1"
  have n: "4 * n = 52" by (simp add: n_def)
  show "get16 (put_dinode k ip d) j = get16 d j" if "j + 2 \<le> k \<or> k + 64 \<le> j"
    unfolding put_dinode_split n_def [symmetric] put_head_def
    using that n by (subst get_fold_put32_other(2)) (auto simp: field_other)
  show "get32 (put_dinode k ip d) j = get32 d j" if "j + 4 \<le> k \<or> k + 64 \<le> j"
    unfolding put_dinode_split n_def [symmetric] put_head_def
    using that n by (subst get_fold_put32_other(1)) (auto simp: field_other)
qed

lemma get_put_dinode_other:
  assumes "k + 64 \<le> k' \<or> k' + 64 \<le> k"
  shows "get_dinode (put_dinode k ip d) k' jp = get_dinode d k' jp"
proof -
  have 16: "get16 (put_dinode k ip d) (k' + c) = get16 d (k' + c)" if "c + 2 \<le> 64" for c
    using assms that by (intro put_dinode_frame(1)) linarith
  have 32: "get32 (put_dinode k ip d) (k' + c) = get32 d (k' + c)" if "c + 4 \<le> 64" for c
    using assms that by (intro put_dinode_frame(2)) linarith
  have "get32 (put_dinode k ip d) (k' + 12 + 4 * j) = get32 d (k' + 12 + 4 * j)" if "j < NDIRECT + 1" for j
    using 32 [of "12 + 4 * j"] that by (simp add: add.assoc)
  then show ?thesis
    unfolding get_dinode_def using 16 [of 0] 16 [of 2] 16 [of 4] 16 [of 6] 32 [of 8]
    by (simp cong: if_cong)
qed

lemma dinode_off_apart:
  assumes "inum mod IPB \<noteq> inum' mod IPB"
  shows "dinode_off inum + 64 \<le> dinode_off inum' \<or> dinode_off inum' + 64 \<le> dinode_off inum"
proof -
  have "unat (inum mod IPB) \<noteq> unat (inum' mod IPB)" using assms by (simp only: word_unat_eq_iff not_False_eq_True)
  then consider "unat (inum mod IPB) < unat (inum' mod IPB)" | "unat (inum' mod IPB) < unat (inum mod IPB)"
    by linarith
  then show ?thesis by cases (unfold dinode_off_def, linarith+)
qed

definition an_inode :: inode where
  "an_inode = \<lparr>i_dev = 1, i_inum = 9, i_ref = 1, i_busy = True, i_valid = True, i_type = 2, i_major = 0,
     i_minor = 0, i_nlink = 1, i_size = 1024, i_addrs = (\<lambda>j. of_nat (100 + j))\<rparr>"

section \<open>Directory entries\<close>

text \<open>The part of a name that an entry can hold: up to the first NUL and at most fourteen bytes.\<close>

definition name14 :: "string \<Rightarrow> string" where
  "name14 name = take DIRSIZ (takeWhile (\<lambda>c. c \<noteq> CHR 0x00) name)"

lemma unat_of_char: "unat (of_char c :: uchar) = (of_char c :: nat)"
proof -
  have "(of_char c :: uchar) = of_nat (of_char c :: nat)" by (simp add: of_char_def)
  moreover have "(of_char c :: nat) < 256" by (rule nat_of_char_less_256)
  ultimately show ?thesis by (simp add: unat_of_nat)
qed

lemma of_char_uchar_eq: "(of_char c :: uchar) = of_char d \<longleftrightarrow> c = d"
  by (metis unat_of_char of_char_eq_iff)

lemma of_char_uchar_0: "(of_char c :: uchar) = 0 \<longleftrightarrow> c = CHR 0x00"
  using of_char_uchar_eq [of c "CHR 0x00"] by simp

lemma of_char_char_of: "(of_char (char_of (unat b)) :: uchar) = b" for b :: uchar
proof -
  have "unat b < 256" using unsigned_less [of b, where ?'a = nat] by simp
  then have "unat (of_char (char_of (unat b)) :: uchar) = unat b" unfolding unat_of_char by simp
  then show ?thesis by (simp only: word_unat_eq_iff)
qed

lemma name_byte_simps [simp]:
  "name_byte [] j = 0" "name_byte (c # cs) 0 = of_char c" "name_byte (c # cs) (Suc j) = name_byte cs j"
  by (simp_all add: name_byte_def)

lemma cstring_prefix_iff:
  "take k (takeWhile (\<lambda>c. c \<noteq> CHR 0x00) p) = take k (takeWhile (\<lambda>c. c \<noteq> CHR 0x00) q) \<longleftrightarrow>
    (\<forall>j<k. (\<forall>l<j. name_byte p l \<noteq> 0) \<longrightarrow> name_byte p j = name_byte q j)"
proof (induction k arbitrary: p q)
  case (Suc k)
  show ?case
    using Suc [of "tl p" "tl q"]
    by (cases p; cases q) (auto simp: All_less_Suc2 of_char_uchar_eq of_char_uchar_0)
qed simp

lemma name_byte_map:
  "j < n \<Longrightarrow> name_byte (map (\<lambda>b. char_of (unat b)) (map f [0..<n])) j = f j"
  by (simp add: name_byte_def of_char_char_of)

lemma name_byte_dirent:
  assumes "j < DIRSIZ"
  shows "name_byte (de_name (make_dirent inum name)) j = (if \<forall>l<j. name_byte name l \<noteq> 0 then name_byte name j else 0)"
proof -
  have "drop 2 (make_dirent inum name) =
      map (\<lambda>k. if \<forall>j<k. name_byte name j \<noteq> 0 then name_byte name k else 0) [0..<DIRSIZ]"
    by (simp add: make_dirent_def del: upt_rec_numeral)
  then show ?thesis using name_byte_map [OF assms] by (simp only: de_name_def)
qed

lemma all_less_prefix_cong:
  fixes m :: nat
  assumes "\<And>k. k < m \<Longrightarrow> \<forall>j<k. P j \<longrightarrow> R j \<Longrightarrow> P k \<Longrightarrow> Q k \<longleftrightarrow> R k"
  shows "(\<forall>j<m. P j \<longrightarrow> Q j) \<longleftrightarrow> (\<forall>j<m. P j \<longrightarrow> R j)"
  using assms
proof (induction m)
  case (Suc m)
  then have "(\<forall>j<m. P j \<longrightarrow> Q j) \<longleftrightarrow> (\<forall>j<m. P j \<longrightarrow> R j)" by simp
  then show ?case using Suc.prems [of m] unfolding All_less_Suc by blast
qed simp

lemma namecmp_dirent: "namecmp n (de_name (make_dirent inum name)) = 0 \<longleftrightarrow> name14 n = name14 name"
proof -
  have "namecmp n (de_name (make_dirent inum name)) = 0 \<longleftrightarrow>
      (\<forall>j<DIRSIZ. (\<forall>l<j. name_byte n l \<noteq> 0) \<longrightarrow> name_byte n j = name_byte (de_name (make_dirent inum name)) j)"
    by (simp only: namecmp_def strncmp_at_zero add_0)
  also have "\<dots> \<longleftrightarrow> (\<forall>j<DIRSIZ. (\<forall>l<j. name_byte n l \<noteq> 0) \<longrightarrow> name_byte n j = name_byte name j)"
    (is "(\<forall>j<_. ?P j \<longrightarrow> ?Q j) \<longleftrightarrow> (\<forall>j<_. ?P j \<longrightarrow> ?R j)")
  proof (rule all_less_prefix_cong)
    fix k assume k: "k < DIRSIZ" and "\<forall>j<k. ?P j \<longrightarrow> ?R j" and "?P k"
    then have "\<forall>l<k. name_byte name l \<noteq> 0" by (metis less_trans)
    then show "?Q k \<longleftrightarrow> ?R k" using k by (simp add: name_byte_dirent)
  qed
  also have "\<dots> \<longleftrightarrow> name14 n = name14 name" by (simp only: name14_def cstring_prefix_iff)
  finally show ?thesis .
qed

section \<open>Paths\<close>

fun split_slash :: "string \<Rightarrow> string list" where
  "split_slash [] = [[]]"
| "split_slash (c # cs) =
     (if c = CHR ''/'' then [] # split_slash cs
      else case split_slash cs of [] \<Rightarrow> [[c]] | x # xs \<Rightarrow> (c # x) # xs)"

definition elements :: "string \<Rightarrow> string list" where
  "elements path = filter (\<lambda>e. e \<noteq> []) (split_slash path)"

lemma split_slash_append:
  "CHR ''/'' \<notin> set e \<Longrightarrow> split_slash (e @ CHR ''/'' # r) = e # split_slash r"
  by (induction e) auto

lemma split_slash_none: "CHR ''/'' \<notin> set e \<Longrightarrow> split_slash e = [e]"
  by (induction e) auto

lemma elements_skip_slashes: "elements (skip_slashes path) = elements path"
  by (induction path) (auto simp: skip_slashes_def elements_def)

lemma elements_step:
  assumes "path \<noteq> []" and "hd path \<noteq> CHR ''/''"
  shows "elements path = takeWhile (\<lambda>c. c \<noteq> CHR ''/'') path # elements (dropWhile (\<lambda>c. c \<noteq> CHR ''/'') path)"
proof -
  let ?e = "takeWhile (\<lambda>c. c \<noteq> CHR ''/'') path" and ?r = "dropWhile (\<lambda>c. c \<noteq> CHR ''/'') path"
  have e: "CHR ''/'' \<notin> set ?e" "?e \<noteq> []" and p: "path = ?e @ ?r"
    using assms by (auto dest: set_takeWhileD simp: takeWhile_eq_Nil_iff)
  show ?thesis
  proof (cases ?r)
    case Nil
    then have "path = ?e" using p by (metis append_Nil2)
    then have "split_slash path = [?e]" using split_slash_none [OF e(1)] by simp
    then show ?thesis using e(2) unfolding elements_def Nil by simp
  next
    case (Cons c r)
    then have "c = CHR ''/''" using hd_dropWhile [of "\<lambda>c. c \<noteq> CHR ''/''" path] by simp
    then have "split_slash path = ?e # split_slash r" "split_slash ?r = [] # split_slash r"
      using p Cons split_slash_append [OF e(1), of r] by simp_all
    then show ?thesis using e(2) by (simp add: elements_def)
  qed
qed

section \<open>Properties\<close>

text \<open>
  (C18) Writing an inode to its place in an inode block and reading it back gives all its disk
  fields, and leaves every other inode of the block as it was.
\<close>

theorem dinode_roundtrip:
  "get_dinode (put_dinode (dinode_off inum) ip d) (dinode_off inum) jp = disk_fields ip jp \<and>
   (inum' mod IPB \<noteq> inum mod IPB \<longrightarrow>
     get_dinode (put_dinode (dinode_off inum) ip d) (dinode_off inum') jp = get_dinode d (dinode_off inum') jp)"
  using get_put_dinode get_put_dinode_other [OF dinode_off_apart] by metis

text \<open>
  (C33) \<open>skipelem\<close> walks a path element by element: it ends exactly when no nonempty element is
  left, and otherwise returns the first fourteen characters of the first element and a rest that has
  the remaining elements and no leading slash.
\<close>

theorem skipelem_walks:
  "case skipelem path of
     None \<Rightarrow> elements path = []
   | Some (e, rest) \<Rightarrow> \<exists>x xs. elements path = x # xs \<and> e = take 14 x \<and> elements rest = xs \<and>
       (rest = [] \<or> hd rest \<noteq> CHR ''/'')"
proof (cases "skip_slashes path = []")
  case True
  then show ?thesis using elements_skip_slashes [of path] by (simp add: skipelem_def elements_def)
next
  case False
  then have "hd (skip_slashes path) \<noteq> CHR ''/''"
    using hd_dropWhile [of "\<lambda>c. c = CHR ''/''" path] by (auto simp: skip_slashes_def)
  note step = elements_step [OF False this]
  have "skip_slashes r = [] \<or> hd (skip_slashes r) \<noteq> CHR ''/''" for r
    using hd_dropWhile [of "\<lambda>c. c = CHR ''/''" r] by (auto simp: skip_slashes_def)
  then show ?thesis
    using False step elements_skip_slashes [of path] by (simp add: skipelem_def Let_def elements_skip_slashes)
qed

text \<open>
  (C34) A directory entry made for a name is sixteen bytes long, gives back its inode number, and is
  found by exactly the names that agree with it up to the first NUL in the first fourteen bytes.
\<close>

theorem dirent_found:
  "length (make_dirent inum name) = 16 \<and> de_inum (make_dirent inum name) = inum \<and>
   (namecmp n (de_name (make_dirent inum name)) = 0 \<longleftrightarrow> name14 n = name14 name)"
proof -
  have "de_inum (make_dirent inum name) = inum"
    by (rule bit_word_eqI) (auto simp: de_inum_def make_dirent_def bit_simps)
  then show ?thesis by (simp only: namecmp_dirent simp_thms) (simp add: make_dirent_def)
qed

theorem dinode_roundtrip_witness:
  "get_dinode (put_dinode (dinode_off 9) an_inode (\<lambda>_. 7)) (dinode_off 10) an_inode =
     get_dinode (\<lambda>_. 7) (dinode_off 10) an_inode"
  using dinode_roundtrip [of 9 an_inode "\<lambda>_. 7" an_inode 10] by simp

theorem skipelem_walks_witness:
  "\<exists>rest. skipelem ''//usr//bin'' = Some (''usr'', rest) \<and> elements rest = [''bin'']"
proof -
  let ?p = "''//usr//bin''"
  have els: "elements ?p = [''usr'', ''bin'']" by (simp add: elements_def)
  obtain e rest where s: "skipelem ?p = Some (e, rest)" by (simp add: skipelem_def skip_slashes_def)
  have "\<exists>x xs. elements ?p = x # xs \<and> e = take 14 x \<and> elements rest = xs"
    using skipelem_walks [of ?p] unfolding s by auto
  then show ?thesis using els s by auto
qed

end
