(* ===== verification/Log_Crash.thy ===== *)
theory Log_Crash
  imports Block_Store Disk_Layout
begin

text \<open>
  What the log of \<^verbatim>\<open>log.c\<close> promises: the updates of a transaction reach the disk all together or
  not at all, wherever the machine stops, and recovery can itself be interrupted and repeated.
\<close>

section \<open>Histories of writes\<close>

type_synonym writes = "(uint \<times> uint \<times> block) list"

definition apply_writes :: "writes \<Rightarrow> (uint \<Rightarrow> block) \<Rightarrow> uint \<Rightarrow> block" where
  "apply_writes ws d = fold (\<lambda>(dv, sec, v) d. d(sec := v)) ws d"

lemma apply_writes_simps [simp]:
  "apply_writes [] d = d"
  "apply_writes ((dv, sec, v) # ws) d = apply_writes ws (d(sec := v))"
  "apply_writes (ws @ ws') d = apply_writes ws' (apply_writes ws d)"
  by (simp_all add: apply_writes_def)

lemma apply_writes_other: "sec \<notin> fst ` snd ` set ws \<Longrightarrow> apply_writes ws d sec = d sec"
  by (induction ws arbitrary: d) auto

lemma apply_writes_cong: "d sec = d' sec \<Longrightarrow> apply_writes ws d sec = apply_writes ws d' sec"
proof (induction ws arbitrary: d d')
  case (Cons w ws)
  obtain dv sec' v where w: "w = (dv, sec', v)" by (cases w) auto
  show ?case
    unfolding w apply_writes_simps
    by (rule Cons.IH [of "d(sec' := v)" "d'(sec' := v)"]) (use Cons.prems in \<open>simp only: fun_upd_apply\<close>)
qed simp

text \<open>Every write of the list to a block stores the same contents.\<close>

lemma apply_writes_const:
  "(\<And>w. w \<in> set ws \<Longrightarrow> fst (snd w) = sec \<Longrightarrow> snd (snd w) = v) \<Longrightarrow>
   apply_writes ws d sec = (if sec \<in> fst ` snd ` set ws then v else d sec)"
proof (induction ws arbitrary: d)
  case (Cons w ws)
  obtain dv sec' v' where w: "w = (dv, sec', v')" by (cases w) auto
  have "apply_writes ws (d(sec' := v')) sec = (if sec \<in> fst ` snd ` set ws then v else (d(sec' := v')) sec)"
    by (rule Cons.IH) (use Cons.prems in simp)
  then show ?case using Cons.prems [of w] by (auto simp: w)
qed simp

section \<open>Block updates on a settled cache\<close>

definition settled :: "'a bcache_scheme \<Rightarrow> bool" where
  "settled s \<longleftrightarrow> store_ok s \<and> (\<forall>i<NBUF. \<not> b_busy (bufs s ! i))"

definition pinned :: "'a bcache_scheme \<Rightarrow> uint set \<Rightarrow> bool" where
  "pinned s S \<longleftrightarrow> (\<forall>i<NBUF. b_dirty (bufs s ! i) \<longrightarrow> b_sector (bufs s ! i) \<in> S)"

text \<open>A few pinned blocks leave buffers that can be reused.\<close>

lemma dirty_few:
  assumes "store_ok s" and "pinned s S" and "finite S"
  shows "card {i. i < NBUF \<and> b_dirty (bufs s ! i)} \<le> card S"
proof (rule card_inj_on_le [where f = "\<lambda>i. b_sector (bufs s ! i)"])
  from assms(1) have ok: "bufs_ok (bufs s) (disk s 1)" "length (bufs s) = NBUF" by (simp_all add: store_ok_def)
  show "inj_on (\<lambda>i. b_sector (bufs s ! i)) {i. i < NBUF \<and> b_dirty (bufs s ! i)}"
  proof (rule inj_onI)
    fix i j assume a: "i \<in> {i. i < NBUF \<and> b_dirty (bufs s ! i)}" "j \<in> {i. i < NBUF \<and> b_dirty (bufs s ! i)}"
      "b_sector (bufs s ! i) = b_sector (bufs s ! j)"
    then have "holds (bufs s ! i) (b_sector (bufs s ! i))" "holds (bufs s ! j) (b_sector (bufs s ! i))"
      using bufs_ok_dirty [OF ok(1)] bufs_ok_valid [OF ok(1)] ok(2) by (auto simp: holds_def)
    then show "i = j" using bufs_ok_unique [OF ok(1)] a(1,2) ok(2) by auto
  qed
  show "(\<lambda>i. b_sector (bufs s ! i)) ` {i. i < NBUF \<and> b_dirty (bufs s ! i)} \<subseteq> S"
    using assms(2) by (auto simp: pinned_def)
qed (rule assms(3))

lemma free_buf:
  assumes "store_ok s" and "pinned s S" and "finite S" and "card S + card {i. i < NBUF \<and> b_busy (bufs s ! i)} < NBUF"
  shows "\<exists>i<NBUF. \<not> b_busy (bufs s ! i) \<and> \<not> b_dirty (bufs s ! i)"
proof (rule ccontr)
  assume "\<not> ?thesis"
  then have "{..<NBUF} \<subseteq> {i. i < NBUF \<and> b_dirty (bufs s ! i)} \<union> {i. i < NBUF \<and> b_busy (bufs s ! i)}" by auto
  then have "card {..<NBUF} \<le> card ({i. i < NBUF \<and> b_dirty (bufs s ! i)} \<union> {i. i < NBUF \<and> b_busy (bufs s ! i)})"
    by (intro card_mono) auto
  also have "\<dots> \<le> card {i. i < NBUF \<and> b_dirty (bufs s ! i)} + card {i. i < NBUF \<and> b_busy (bufs s ! i)}"
    by (rule card_Un_le)
  also have "\<dots> < card {..<NBUF}" using dirty_few [OF assms(1-3)] assms(4) by simp
  finally show False by simp
qed

lemma pinned_update:
  "pinned s S \<Longrightarrow> bufs t = (bufs s)[i := c] \<Longrightarrow> length (bufs s) = NBUF \<Longrightarrow> b_dirty c \<longrightarrow> b_sector c \<in> S \<Longrightarrow> pinned t S"
  unfolding pinned_def by (metis nth_list_update_eq nth_list_update_neq)

text \<open>Read a block, change it, write it through and give it back.\<close>

lemma rmw_store:
  fixes F :: "'a bcache_scheme \<Rightarrow> block \<Rightarrow> block"
  assumes "store_ok s" and "sec < 0x10000000"
    and "\<And>i. i < NBUF \<Longrightarrow> holds (bufs s ! i) sec \<Longrightarrow> \<not> b_busy (bufs s ! i)"
    and "\<exists>i<NBUF. \<not> b_busy (bufs s ! i) \<and> \<not> b_dirty (bufs s ! i)"
    and "\<And>u i b. bframe s u \<Longrightarrow> \<not> b_busy (bufs s ! i) \<Longrightarrow> bufs u = (bufs s)[i := b] \<Longrightarrow> F u = f"
  defines "d \<equiv> f (view s sec)"
  obtains t i c where "bindE (bread 1 sec s) (\<lambda>(b, u). bindE (bwrite b (set_data b (F u) u)) (brelse b)) = Inr t"
    "store_ok t" "bframe s t" "i < NBUF" "\<not> b_busy (bufs s ! i)" "bufs t = (bufs s)[i := c]" "\<not> b_busy c" "\<not> b_dirty c"
    "holds c sec" "disk t 1 = (disk s 1)(sec := d)" "writes t = writes s @ [(1, sec, d)]" "view t = (view s)(sec := d)"
proof -
  have len: "length (bufs s) = NBUF" using assms(1) by (simp add: store_ok_def)
  obtain i u b where u: "bread 1 sec s = Inr (i, u)" "i < NBUF" "store_ok u" "bframe s u" "\<not> b_busy (bufs s ! i)"
    "bufs u = (bufs s)[i := b]" "b_busy b" "b_valid b" "holds b sec" "b_data b = view s sec"
    "b_dirty b = b_dirty (bufs s ! i)" "disk u = disk s" "writes u = writes s" "view u = view s"
    by (rule bread_store [OF assms(1-4)]) blast+
  have at: "bufs u ! i = b" using u(2,6) len by simp
  obtain v where v: "bwrite i (set_data i f u) = Inr v" "store_ok v" "bframe u v"
    "bufs v = (bufs u)[i := b\<lparr>b_data := d, b_dirty := False\<rparr>]"
    "disk v 1 = (disk u 1)(sec := d)" "writes v = writes u @ [(1, sec, d)]" "view v = (view u)(sec := d)"
    using bwrite_store [OF u(3,2), where f = f and sec = sec] u(7-10) at unfolding d_def by auto
  let ?c = "b\<lparr>b_data := d, b_dirty := False, b_busy := False\<rparr>"
  have at': "bufs v ! i = b\<lparr>b_data := d, b_dirty := False\<rparr>" using v(4) u(2,6) len by simp
  have "b_sector b = sec" using u(9) by (simp add: holds_def)
  then obtain t where t: "brelse i v = Inr t" "store_ok t" "bframe v t" "bufs t = (bufs v)[i := ?c]"
    "disk t = disk v" "writes t = writes v" "view t = view v"
    using brelse_store [OF v(2) u(2)] at' u(7) v(5) by auto
  have "F u = f" using u(4-6) by (rule assms(5))
  moreover have "holds ?c sec" using u(9) by (simp add: holds_def)
  ultimately show ?thesis
    using that [of t i ?c] u v t bframe_trans [OF u(4) bframe_trans [OF v(3) t(3)]] by simp
qed

section \<open>The log's operations\<close>

lemma log_fields:
  fixes s t :: "'a logst_scheme"
  assumes "bcache.more t = bcache.more s"
  shows "log_start t = log_start s" "log_dev t = log_dev s" "lh_n t = lh_n s" "lh_sector t = lh_sector s"
    "log_size t = log_size s" "log_busy t = log_busy s"
  using assms by (cases s; cases t; simp)+

lemma bframe_log:
  fixes s t :: "'a logst_scheme"
  shows "bframe s t \<Longrightarrow> log_start t = log_start s \<and> log_dev t = log_dev s \<and> lh_n t = lh_n s \<and>
    lh_sector t = lh_sector s \<and> log_size t = log_size s \<and> log_busy t = log_busy s"
  using log_fields [of t s] by (simp add: bframe_def)

text \<open>From one settled state to another, doing exactly these writes.\<close>

definition runs :: "writes \<Rightarrow> 'a bcache_scheme \<Rightarrow> 'a bcache_scheme \<Rightarrow> bool" where
  "runs ws s t \<longleftrightarrow> settled t \<and> locks t = locks s \<and> writes t = writes s @ ws \<and>
     disk t 1 = apply_writes ws (disk s 1) \<and> view t = apply_writes ws (view s) \<and>
     (\<forall>S. pinned s S \<longrightarrow> pinned t (S - fst ` snd ` set ws))"

lemma pinned_mono: "pinned s S \<Longrightarrow> S \<subseteq> T \<Longrightarrow> pinned s T"
  by (auto simp: pinned_def)

lemma runsD:
  assumes "runs ws s t"
  shows "view t = apply_writes ws (view s)" "disk t 1 = apply_writes ws (disk s 1)" "settled t" "pinned s S \<Longrightarrow> pinned t S"
    "writes t = writes s @ ws" "locks t = locks s" "pinned s S \<Longrightarrow> pinned t (S - fst ` snd ` set ws)"
  using assms pinned_mono [of t "S - fst ` snd ` set ws" S] unfolding runs_def by blast+

lemma pinned_clean:
  assumes "store_ok t" and "pinned t S" and "i < NBUF" "holds (bufs t ! i) sec" "\<not> b_dirty (bufs t ! i)"
  shows "pinned t (S - {sec})"
proof -
  from assms(1) have ok: "bufs_ok (bufs t) (disk t 1)" "length (bufs t) = NBUF" by (simp_all add: store_ok_def)
  have "b_sector (bufs t ! j) \<noteq> sec" if "j < NBUF" "b_dirty (bufs t ! j)" for j
  proof
    assume "b_sector (bufs t ! j) = sec"
    then have "holds (bufs t ! j) sec"
      using that bufs_ok_dirty [OF ok(1), of j] bufs_ok_valid [OF ok(1), of j] ok(2) by (simp add: holds_def)
    then show False using bufs_ok_unique [OF ok(1), of j i sec] assms(3-5) that ok(2) by auto
  qed
  then show ?thesis using assms(2) by (auto simp: pinned_def)
qed

lemma runs_refl: "settled s \<Longrightarrow> runs [] s s"
  by (simp add: runs_def)

lemma runs_trans: "runs ws s t \<Longrightarrow> runs ws' t u \<Longrightarrow> runs (ws @ ws') s u"
proof -
  assume a: "runs ws s t" and b: "runs ws' t u"
  have "pinned u (S - fst ` snd ` set (ws @ ws'))" if "pinned s S" for S
    using runsD(7) [OF b runsD(7) [OF a that]] by (simp add: image_Un Diff_eq Int_assoc)
  moreover have "view u = apply_writes (ws @ ws') (view s)"
    unfolding runsD(1) [OF b] runsD(1) [OF a] apply_writes_simps ..
  ultimately show ?thesis
    using runsD(2,3,5,6) [OF b] runsD(2,3,5,6) [OF a] unfolding runs_def by (simp del: set_append)
qed

lemma settled_log [simp]:
  fixes s :: "'a logst_scheme"
  shows "settled (s\<lparr>lh_n := n\<rparr>) = settled s" "settled (s\<lparr>lh_sector := f\<rparr>) = settled s"
    "settled (s\<lparr>log_busy := q\<rparr>) = settled s"
    "settled (s\<lparr>log_start := a, log_size := b, log_dev := c\<rparr>) = settled s"
  by (simp_all add: settled_def store_ok_def bcache_ready_def ptable_idle_def lock_free_def cli_ok_def ide_idle_def lru_def)

lemma pinned_log [simp]:
  fixes s :: "'a logst_scheme"
  shows "pinned (s\<lparr>lh_n := n\<rparr>) = pinned s" "pinned (s\<lparr>lh_sector := f\<rparr>) = pinned s"
    "pinned (s\<lparr>log_busy := q\<rparr>) = pinned s"
    "pinned (s\<lparr>log_start := a, log_size := b, log_dev := c\<rparr>) = pinned s"
  by (simp_all add: pinned_def fun_eq_iff)

lemma runs_log [simp]:
  fixes s t :: "'a logst_scheme"
  shows "runs ws s (t\<lparr>lh_n := n\<rparr>) = runs ws s t" "runs ws (s\<lparr>lh_n := n\<rparr>) t = runs ws s t"
    "runs ws s (t\<lparr>lh_sector := f\<rparr>) = runs ws s t" "runs ws (s\<lparr>lh_sector := f\<rparr>) t = runs ws s t"
  by (simp_all add: runs_def)

lemma settled_free:
  assumes "settled s" and "pinned s S" and "finite S" and "card S < NBUF"
  shows "\<exists>i<NBUF. \<not> b_busy (bufs s ! i) \<and> \<not> b_dirty (bufs s ! i)"
proof (rule free_buf [OF _ assms(2,3)])
  have "{i. i < NBUF \<and> b_busy (bufs s ! i)} = {}" using assms(1) by (auto simp: settled_def)
  show "card S + card {i. i < NBUF \<and> b_busy (bufs s ! i)} < NBUF" unfolding \<open>_ = {}\<close> using assms(4) by simp
qed (use assms(1) in \<open>simp add: settled_def\<close>)

lemma settled_update:
  assumes "settled s" and "store_ok t" and "bufs t = (bufs s)[i := c]" and "\<not> b_busy c"
  shows "settled t"
  using assms unfolding settled_def by (metis nth_list_update_eq nth_list_update_neq list_update_beyond not_le_imp_less)

lemma write_head_runs:
  fixes s :: "'a logst_scheme"
  assumes "settled s" and "pinned s S" and "finite S" and "card S < NBUF" and "log_dev s = 1" and "log_start s < 0x10000000"
  shows "\<exists>t. write_head s = Inr t \<and> bframe s t \<and>
    runs [(1, log_start s, head_block (lh_n s) (lh_sector s) (view s (log_start s)))] s t"
proof -
  have ok: "store_ok s" and free: "\<exists>i<NBUF. \<not> b_busy (bufs s ! i) \<and> \<not> b_dirty (bufs s ! i)"
    using assms(1) settled_free [OF assms(1-4)] by (simp_all add: settled_def)
  let ?F = "\<lambda>u :: 'a logst_scheme. head_block (lh_n u) (lh_sector u)"
  obtain t i c where t: "bindE (bread 1 (log_start s) s) (\<lambda>(b, u). bindE (bwrite b (set_data b (?F u) u)) (brelse b)) = Inr t"
    "store_ok t" "bframe s t" "i < NBUF" "\<not> b_busy (bufs s ! i)" "bufs t = (bufs s)[i := c]" "\<not> b_busy c" "\<not> b_dirty c"
    "holds c (log_start s)" "disk t 1 = (disk s 1)(log_start s := ?F s (view s (log_start s)))"
    "writes t = writes s @ [(1, log_start s, ?F s (view s (log_start s)))]"
    "view t = (view s)(log_start s := ?F s (view s (log_start s)))"
  proof (rule rmw_store [OF ok assms(6) _ free, where F = ?F and f = "?F s"])
    show "\<not> b_busy (bufs s ! i)" if "i < NBUF" for i using that assms(1) by (simp add: settled_def)
    show "?F u = ?F s" if "bframe s u" for u using bframe_log [OF that] by simp
  qed
  have "write_head s = Inr t" using t(1) assms(5) by (simp add: write_head_def Let_def)
  moreover have "settled t" using settled_update [OF assms(1) t(2,6,7)] .
  moreover have "pinned t (S - {log_start s})" if "pinned s S" for S
    using ok t(4,6,8,9) by (intro pinned_clean [OF t(2) pinned_update [OF that t(6)], of i]) (simp_all add: store_ok_def)
  moreover have "locks t = locks s" using t(3) by (simp add: bframe_def)
  ultimately show ?thesis using t by (intro exI [of _ t]) (simp add: runs_def)
qed

text \<open>A block being read, to be given back unchanged.\<close>

definition peeked :: "'a bcache_scheme \<Rightarrow> nat \<Rightarrow> 'a bcache_scheme \<Rightarrow> bool" where
  "peeked s i u \<longleftrightarrow> store_ok u \<and> i < NBUF \<and> locks u = locks s \<and> disk u = disk s \<and> writes u = writes s \<and> view u = view s \<and>
     (\<exists>b. bufs u = (bufs s)[i := b] \<and> b_busy b \<and> (b_dirty b \<longrightarrow> b_dirty (bufs s ! i) \<and> b_sector b = b_sector (bufs s ! i)) \<and>
       (b_dirty b \<or> b_data b = disk s 1 (b_sector b)))"

lemma store_ok_log [simp]:
  fixes s :: "'a logst_scheme"
  shows "store_ok (s\<lparr>lh_n := n\<rparr>) = store_ok s" "store_ok (s\<lparr>lh_sector := f\<rparr>) = store_ok s"
  by (simp_all add: store_ok_def bcache_ready_def ptable_idle_def lock_free_def cli_ok_def ide_idle_def lru_def)

lemma peeked_log [simp]:
  fixes s u :: "'a logst_scheme"
  shows "peeked s i (u\<lparr>lh_n := n\<rparr>) = peeked s i u" "peeked s i (u\<lparr>lh_sector := f\<rparr>) = peeked s i u"
  by (simp_all add: peeked_def)

lemma bread_peek:
  assumes "settled s" and "pinned s S" and "finite S" and "card S < NBUF" and "sec < 0x10000000"
  shows "\<exists>i u. bread 1 sec s = Inr (i, u) \<and> bframe s u \<and> b_data (bufs u ! i) = view s sec \<and>
    b_sector (bufs u ! i) = sec \<and> peeked s i u"
proof -
  have ok: "store_ok s" and quiet: "\<And>i. i < NBUF \<Longrightarrow> \<not> b_busy (bufs s ! i)" and len: "length (bufs s) = NBUF"
    using assms(1) by (simp_all add: settled_def store_ok_def)
  obtain i u b where u: "bread 1 sec s = Inr (i, u)" "i < NBUF" "store_ok u" "bframe s u"
    "bufs u = (bufs s)[i := b]" "b_busy b" "holds b sec" "b_data b = view s sec"
    "b_dirty b = b_dirty (bufs s ! i)" "disk u = disk s" "writes u = writes s" "view u = view s"
    "b_dirty b \<longrightarrow> holds (bufs s ! i) sec" "b_dirty b \<or> view s sec = disk s 1 sec"
    by (rule bread_store [OF ok assms(5) quiet settled_free [OF assms(1-4)]]) blast+
  moreover have "bufs u ! i = b" using u(2,5) len by simp
  moreover have "locks u = locks s" using u(4) by (simp add: bframe_def)
  ultimately show ?thesis
    by (intro exI [of _ i] exI [of _ u]) (auto simp: peeked_def holds_def)
qed

lemma peeked_brelse:
  assumes "settled s" and "peeked s i u"
  shows "\<exists>t. brelse i u = Inr t \<and> bframe u t \<and> runs [] s t"
proof -
  from assms(2) obtain b where u: "store_ok u" "i < NBUF" "locks u = locks s" "disk u = disk s" "writes u = writes s"
    "view u = view s" "bufs u = (bufs s)[i := b]" "b_busy b"
    "b_dirty b \<longrightarrow> b_dirty (bufs s ! i) \<and> b_sector b = b_sector (bufs s ! i)"
    "b_dirty b \<or> b_data b = disk s 1 (b_sector b)"
    unfolding peeked_def by blast
  have len: "length (bufs s) = NBUF" using assms(1) by (simp add: settled_def store_ok_def)
  then have at: "bufs u ! i = b" using u(2,7) by simp
  obtain t where t: "brelse i u = Inr t" "store_ok t" "bframe u t" "bufs t = (bufs u)[i := b\<lparr>b_busy := False\<rparr>]"
    "disk t = disk u" "writes t = writes u" "view t = view u"
    using brelse_store [OF u(1,2)] at u(4,8,10) by auto
  have bufs_t: "bufs t = (bufs s)[i := b\<lparr>b_busy := False\<rparr>]" using t(4) u(7) by simp
  then have "settled t" using settled_update [OF assms(1) t(2)] by simp
  moreover have "pinned t S" if "pinned s S" for S
    using that u(2,9) by (intro pinned_update [OF that bufs_t len]) (auto simp: pinned_def)
  moreover have "locks t = locks s" using t(3) u(3) by (simp add: bframe_def)
  ultimately show ?thesis using t u by (intro exI [of _ t]) (simp add: runs_def)
qed

lemma read_head_runs:
  fixes s :: "'a logst_scheme"
  assumes "settled s" and "pinned s S" and "finite S" and "card S < NBUF" and "log_dev s = 1" and "log_start s < 0x10000000"
  defines "h \<equiv> view s (log_start s)"
  defines "n \<equiv> sint (get32 h 0)"
  assumes "n \<le> int LOGSIZE"
  shows "\<exists>t. read_head s = Inr t \<and> runs [] s t \<and> log_dev t = 1 \<and> log_start t = log_start s \<and> lh_n t = n \<and>
    (\<forall>i < nat n. lh_sector t i = get32 h (4 + 4 * i))"
proof -
  obtain i u where u: "bread 1 (log_start s) s = Inr (i, u)" "bframe s u" "b_data (bufs u ! i) = h" "peeked s i u"
    using bread_peek [OF assms(1-4,6)] unfolding h_def by blast
  let ?f = "\<lambda>i. if i < nat n then get32 h (4 + 4 * i) else lh_sector u i"
  let ?u = "u\<lparr>lh_n := n, lh_sector := ?f\<rparr>"
  have "peeked s i ?u" using u(4) by simp
  then obtain t where t: "brelse i ?u = Inr t" "bframe ?u t" "runs [] s t"
    using peeked_brelse [OF assms(1)] by blast
  have "read_head s = Inr t"
    using u(1,3) t(1) assms(5,9) by (simp add: read_head_def Let_def n_def [symmetric] cong: if_cong)
  then show ?thesis using t(3) bframe_log [OF t(2)] bframe_log [OF u(2)] assms(5) by auto
qed

text \<open>The log block of a slot.\<close>

definition slot :: "'a logst_scheme \<Rightarrow> nat \<Rightarrow> uint" where
  "slot s i = log_start s + of_nat i + 1"

lemma install_one_runs:
  fixes s :: "'a logst_scheme"
  assumes "settled s" and "pinned s S" and "finite S" and "card S + 1 < NBUF" and "log_dev s = 1"
    and "slot s i < 0x10000000" and "lh_sector s i < 0x10000000" and "lh_sector s i \<noteq> slot s i"
  shows "\<exists>t. install_one i s = Inr t \<and> bframe s t \<and> runs [(1, lh_sector s i, view s (slot s i))] s t"
proof -
  let ?D = "lh_sector s i" let ?v = "view s (slot s i)"
  have len: "length (bufs s) = NBUF" and quiet: "\<And>j. j < NBUF \<Longrightarrow> \<not> b_busy (bufs s ! j)"
    using assms(1) by (simp_all add: settled_def store_ok_def)
  obtain l u where l: "bread 1 (slot s i) s = Inr (l, u)" "bframe s u" "b_data (bufs u ! l) = ?v"
      "b_sector (bufs u ! l) = slot s i" "peeked s l u"
    using bread_peek [OF assms(1-3) _ assms(6)] assms(4) by auto
  from l(5) obtain b where u: "store_ok u" "l < NBUF" "disk u = disk s" "writes u = writes s" "view u = view s"
    "bufs u = (bufs s)[l := b]" "b_busy b" "b_dirty b \<longrightarrow> b_dirty (bufs s ! l) \<and> b_sector b = b_sector (bufs s ! l)"
    "b_dirty b \<or> b_data b = disk s 1 (b_sector b)"
    unfolding peeked_def by blast
  have b: "bufs u ! l = b" using u(2,6) len by simp
  have busy: "b_busy (bufs u ! j) \<longleftrightarrow> j = l" if "j < NBUF" for j
    using that quiet u(6,7) b by (cases "j = l") auto
  have "pinned u S" using u(2,8) assms(2) by (intro pinned_update [OF assms(2) u(6) len]) (auto simp: pinned_def)
  moreover have "{j. j < NBUF \<and> b_busy (bufs u ! j)} = {l}" using busy u(2) by auto
  ultimately have free: "\<exists>j<NBUF. \<not> b_busy (bufs u ! j) \<and> \<not> b_dirty (bufs u ! j)"
    using assms(4) by (intro free_buf [OF u(1) _ assms(3)]) (simp_all only: card.insert card.empty, auto)
  have notD: "\<not> b_busy (bufs u ! j)" if "j < NBUF" "holds (bufs u ! j) ?D" for j
    using that busy l(4) assms(8) by (auto simp: holds_def)
  let ?k = "\<lambda>w. \<lambda>_. b_data (bufs w ! l)"
  obtain d w c where w: "bread 1 ?D u = Inr (d, w)" "d < NBUF" "store_ok w" "bframe u w" "\<not> b_busy (bufs u ! d)"
    "bufs w = (bufs u)[d := c]" "b_busy c" "b_valid c" "holds c ?D" "disk w = disk u" "writes w = writes u" "view w = view u"
    by (rule bread_store [OF u(1) assms(7) notD free]) blast+
  have dl: "d \<noteq> l" using w(5) b u(7) by auto
  have at: "bufs w ! d = c" "bufs w ! l = b" using w(2,6) dl len u(6) b by simp_all
  obtain x where x: "bwrite d (set_data d (\<lambda>_. ?v) w) = Inr x" "store_ok x" "bframe w x"
    "bufs x = (bufs w)[d := c\<lparr>b_data := ?v, b_dirty := False\<rparr>]"
    "disk x 1 = (disk w 1)(?D := ?v)" "writes x = writes w @ [(1, ?D, ?v)]" "view x = (view w)(?D := ?v)"
    using bwrite_store [OF w(3,2), where f = "\<lambda>_. ?v" and sec = ?D] w(7-9) at by auto
  have "bufs x ! l = b" using x(4) at dl by simp
  moreover have "b_dirty b \<or> b_data b = disk x 1 (b_sector b)"
    using u(3,9) w(10) x(5) l(4) b assms(8) by auto
  ultimately obtain y where y: "brelse l x = Inr y" "store_ok y" "bframe x y" "bufs y = (bufs x)[l := b\<lparr>b_busy := False\<rparr>]"
    "disk y = disk x" "writes y = writes x" "view y = view x"
    using brelse_store [OF x(2) u(2)] u(7) by auto
  have "bufs y ! d = c\<lparr>b_data := ?v, b_dirty := False\<rparr>" using y(4) x(4) w(2,6) u(6) dl len by simp
  then obtain t where t: "brelse d y = Inr t" "store_ok t" "bframe y t"
    "bufs t = (bufs y)[d := c\<lparr>b_data := ?v, b_dirty := False, b_busy := False\<rparr>]"
    "disk t = disk y" "writes t = writes y" "view t = view y"
    using brelse_store [OF y(2) w(2)] w(7,9) y(5) x(5) by (auto simp: holds_def)
  let ?s' = "s\<lparr>bufs := (bufs s)[l := b\<lparr>b_busy := False\<rparr>]\<rparr>"
  have bufs_t: "bufs t = (bufs ?s')[d := c\<lparr>b_data := ?v, b_dirty := False, b_busy := False\<rparr>]"
    unfolding t(4) y(4) x(4) w(6) u(6) by (simp add: list_update_swap [OF dl])
  have "bframe s t"
    using bframe_trans [OF l(2) bframe_trans [OF w(4) bframe_trans [OF x(3) bframe_trans [OF y(3) t(3)]]]] .
  moreover have "\<not> b_busy (bufs t ! j)" if "j < NBUF" for j
    using that quiet [OF that] w(2) u(2) len unfolding bufs_t by (cases "j = d"; cases "j = l") auto
  then have "settled t" using t(2) by (simp add: settled_def)
  moreover have "pinned t (S - {?D})" if "pinned s S" for S
  proof (rule pinned_clean [OF t(2) pinned_update [OF _ bufs_t], of _ d])
    show "pinned ?s' S" using that u(2,8) by (intro pinned_update [OF that _ len, where c = "b\<lparr>b_busy := False\<rparr>"]) (auto simp: pinned_def)
  qed (use len bufs_t w(2,9) in \<open>simp_all add: holds_def\<close>)
  moreover have "disk t 1 = (disk s 1)(?D := ?v)" "writes t = writes s @ [(1, ?D, ?v)]"
    by (simp_all only: t(5,6) y(5,6) x(5,6) w(10,11) u(3,4))
  moreover have "view t = (view s)(?D := ?v)" by (simp only: t(7) y(7) x(7) w(12) u(5))
  moreover have "install_one i s = Inr t"
    using l(1,2) w(1) x(1) y(1) t(1) at(2) l(3) b assms(5) bframe_log [OF l(2)]
    by (simp add: install_one_def slot_def Let_def)
  ultimately show ?thesis by (intro exI [of _ t]) (simp add: runs_def bframe_def)
qed

lemma install_runs:
  fixes s :: "'a logst_scheme"
  assumes "settled s" and "pinned s S" and "finite S" and "card S + 1 < NBUF" and "log_dev s = 1"
    and "\<And>i. i \<in> set ts \<Longrightarrow> slot s i < 0x10000000 \<and> lh_sector s i < 0x10000000"
    and "\<And>i j. i \<in> set ts \<Longrightarrow> j \<in> set ts \<Longrightarrow> lh_sector s i \<noteq> slot s j"
  shows "\<exists>t. foldE install_one ts s = Inr t \<and> bframe s t \<and> runs (map (\<lambda>i. (1, lh_sector s i, view s (slot s i))) ts) s t"
  using assms
proof (induction ts arbitrary: s)
  case Nil
  then show ?case by (simp add: bframe_refl runs_refl)
next
  case (Cons i ts)
  obtain u where u: "install_one i s = Inr u" "bframe s u" "runs [(1, lh_sector s i, view s (slot s i))] s u"
    using install_one_runs [OF Cons.prems(1-5), of i] Cons.prems(6,7) by auto
  have same: "lh_sector u = lh_sector s" "slot u = slot s" "log_dev u = log_dev s"
    using bframe_log [OF u(2)] by (simp_all add: slot_def fun_eq_iff)
  have view: "view u (slot s j) = view s (slot s j)" if "j \<in> set ts" for j
    unfolding runsD(1) [OF u(3)] using Cons.prems(7) [of i j] that by simp
  obtain t where t: "foldE install_one ts u = Inr t" "bframe u t"
      "runs (map (\<lambda>i. (1, lh_sector u i, view u (slot u i))) ts) u t"
    using Cons.IH [OF runsD(3) [OF u(3)] runsD(4) [OF u(3) Cons.prems(2)] Cons.prems(3,4)] Cons.prems(5-7)
    unfolding same by auto
  have eq: "map (\<lambda>i. (1, lh_sector u i, view u (slot u i))) ts = map (\<lambda>i. (1, lh_sector s i, view s (slot s i))) ts"
    using view by (simp add: same)
  show ?case
    using u(1) t(1) bframe_trans [OF u(2) t(2)] runs_trans [OF u(3) t(3) [unfolded eq]] by simp
qed

section \<open>What a disk recovers to\<close>

text \<open>The updates a log on disk asks for, and the contents of the disk once they are made.\<close>

definition logged :: "uint \<Rightarrow> (uint \<Rightarrow> block) \<Rightarrow> writes" where
  "logged start d =
     map (\<lambda>i. (1, get32 (d start) (4 + 4 * i), d (start + of_nat i + 1))) [0..<nat (sint (get32 (d start) 0))]"

definition recovered :: "uint \<Rightarrow> (uint \<Rightarrow> block) \<Rightarrow> uint \<Rightarrow> block" where
  "recovered start d = apply_writes (logged start d) d"

definition recovery_writes :: "uint \<Rightarrow> (uint \<Rightarrow> block) \<Rightarrow> writes" where
  "recovery_writes start d = logged start d @ [(1, start, put32 0 0 (d start))]"

definition in_log :: "uint \<Rightarrow> uint \<Rightarrow> bool" where
  "in_log start sec \<longleftrightarrow> unat start \<le> unat sec \<and> unat sec \<le> unat start + LOGSIZE"

definition log_ok :: "uint \<Rightarrow> (uint \<Rightarrow> block) \<Rightarrow> bool" where
  "log_ok start d \<longleftrightarrow> unat start + LOGSIZE < 0x10000000 \<and> sint (get32 (d start) 0) \<le> int LOGSIZE \<and>
     (\<forall>i < nat (sint (get32 (d start) 0)).
        get32 (d start) (4 + 4 * i) < 0x10000000 \<and> \<not> in_log start (get32 (d start) (4 + 4 * i)))"

lemma unat_slot:
  assumes "unat (start :: uint) + LOGSIZE < 0x10000000" and "i < LOGSIZE"
  shows "unat (start + of_nat i + 1) = unat start + i + 1"
proof -
  have "start + of_nat i + 1 = of_nat (unat start + i + 1)" by simp
  then show ?thesis using assms by (simp only: unat_of_nat) simp
qed

lemma slot_in_log:
  assumes "unat (start :: uint) + LOGSIZE < 0x10000000" and "i < LOGSIZE"
  shows "in_log start (start + of_nat i + 1)" "start + of_nat i + 1 < 0x10000000" "start + of_nat i + 1 \<noteq> start"
proof -
  note u = unat_slot [OF assms]
  show "in_log start (start + of_nat i + 1)" using u assms(2) by (simp add: in_log_def)
  show "start + of_nat i + 1 < 0x10000000" unfolding word_less_nat_alt u using assms by simp
  show "start + of_nat i + 1 \<noteq> start" using u by (metis Suc_eq_plus1 add_Suc_right less_add_Suc1 less_irrefl)
qed

lemma start_in_log: "in_log start start"
  by (simp add: in_log_def)

lemma logged_secs:
  assumes "log_ok start d" and "sec \<in> fst ` snd ` set (logged start d)"
  shows "\<not> in_log start sec"
  using assms by (auto simp: log_ok_def logged_def)

text \<open>The log area decides what is logged.\<close>

lemma logged_cong:
  assumes "log_ok start d" and "\<And>sec. in_log start sec \<Longrightarrow> d' sec = d sec"
  shows "logged start d' = logged start d" "log_ok start d'"
proof -
  have "d' start = d start" using assms(2) start_in_log by blast
  moreover have "d' (start + of_nat i + 1) = d (start + of_nat i + 1)" if "i < nat (sint (get32 (d start) 0))" for i
    using assms that by (intro assms(2) slot_in_log(1)) (auto simp: log_ok_def)
  ultimately show "logged start d' = logged start d" "log_ok start d'"
    using assms(1) by (simp_all add: logged_def log_ok_def)
qed

lemma apply_writes_hit: "sec \<in> fst ` snd ` set ws \<Longrightarrow> apply_writes ws d sec = apply_writes ws d' sec"
proof (induction ws arbitrary: d d')
  case (Cons w ws)
  obtain dv sec' v where w: "w = (dv, sec', v)" by (cases w) auto
  show ?case
  proof (cases "sec \<in> fst ` snd ` set ws")
    case True
    then show ?thesis unfolding w apply_writes_simps by (rule Cons.IH)
  next
    case False
    then show ?thesis using Cons.prems by (auto simp: w apply_writes_other)
  qed
qed simp

lemma apply_writes_again: "apply_writes ws (apply_writes (take k ws) d) = apply_writes ws d"
proof
  fix sec
  have sub: "fst ` snd ` set (take k ws) \<subseteq> fst ` snd ` set ws" by (intro image_mono set_take_subset)
  show "apply_writes ws (apply_writes (take k ws) d) sec = apply_writes ws d sec"
  proof (cases "sec \<in> fst ` snd ` set ws")
    case True
    then show ?thesis by (rule apply_writes_hit)
  next
    case False
    then have "sec \<notin> fst ` snd ` set (take k ws)" using sub by blast
    then show ?thesis using False by (simp only: apply_writes_other not_False_eq_True)
  qed
qed

text \<open>Stopping recovery anywhere leaves a disk that recovers to the same contents.\<close>

lemma recovered_prefix:
  assumes "log_ok start d"
  defines "d' \<equiv> \<lambda>k. apply_writes (take k (recovery_writes start d)) d"
  shows "log_ok start (d' k)" "sec \<noteq> start \<Longrightarrow> recovered start (d' k) sec = recovered start d sec"
proof -
  let ?ws = "logged start d"
  have pre: "log_ok start (d' k) \<and> recovered start (d' k) = recovered start d" if "k \<le> length ?ws"
  proof -
    have "d' k sec = d sec" if "in_log start sec" for sec
    proof -
      have "sec \<notin> fst ` snd ` set (take k ?ws)"
        using logged_secs [OF assms(1), of sec] that set_take_subset [of k ?ws] by blast
      then show ?thesis using \<open>k \<le> length ?ws\<close> by (simp add: d'_def recovery_writes_def apply_writes_other)
    qed
    from logged_cong [OF assms(1) this] show ?thesis
      using that by (simp add: recovered_def d'_def recovery_writes_def apply_writes_again)
  qed
  have post: "d' k start = put32 0 0 (d start)" "sec \<noteq> start \<Longrightarrow> d' k sec = recovered start d sec" if "length ?ws < k" for sec
    using that by (simp_all add: d'_def recovery_writes_def recovered_def)
  show "log_ok start (d' k)"
    using pre post(1) assms(1) by (cases "k \<le> length ?ws") (simp_all add: log_ok_def)
  show "recovered start (d' k) sec = recovered start d sec" if "sec \<noteq> start"
    using pre post(1) post(2) [OF _ that] that by (cases "k \<le> length ?ws") (simp_all add: recovered_def logged_def)
qed

section \<open>Recovery\<close>

lemma view_clean:
  assumes "settled s" and "pinned s S" and "sec \<notin> S"
  shows "view s sec = disk s 1 sec"
  using assms unfolding settled_def store_ok_def pinned_def holds_def by (intro view_disk) (auto simp: holds_def)

lemma head_block_none [simp]: "head_block 0 f d = put32 0 0 d"
  by (simp add: head_block_def)

lemma recover_runs:
  fixes s :: "'a logst_scheme"
  assumes "settled s" and "pinned s {}" and "log_dev s = 1" and "log_ok (log_start s) (disk s 1)"
  shows "\<exists>t. recover_from_log s = Inr t \<and> runs (recovery_writes (log_start s) (disk s 1)) s t \<and> lh_n t = 0 \<and>
    log_start t = log_start s \<and> log_dev t = 1"
proof -
  let ?d = "disk s 1" let ?start = "log_start s" let ?n = "sint (get32 (?d ?start) 0)"
  have start: "?start < 0x10000000" and n: "?n \<le> int LOGSIZE"
    using assms(4) by (simp_all add: log_ok_def word_less_nat_alt)
  have view: "view s = ?d" using view_clean [OF assms(1,2)] by auto
  obtain u where u: "read_head s = Inr u" "runs [] s u" "log_dev u = 1" "log_start u = ?start" "lh_n u = ?n"
    "\<forall>i < nat ?n. lh_sector u i = get32 (?d ?start) (4 + 4 * i)"
    using read_head_runs [OF assms(1,2) _ _ assms(3) start] n unfolding view by auto
  have disk_u: "disk u 1 = ?d" and view_u: "view u = ?d" using runsD(1,2) [OF u(2)] view by simp_all
  have slot: "slot u i = ?start + of_nat i + 1" for i by (simp add: slot_def u(4))
  have i: "slot u i < 0x10000000 \<and> lh_sector u i < 0x10000000" "lh_sector u i \<noteq> slot u j"
    if "i < nat ?n" "j < nat ?n" for i j
    using assms(4) u(6) that slot_in_log(1,2) [of ?start j] slot_in_log(2) [of ?start i]
    unfolding slot by (auto simp: log_ok_def)
  have ws: "map (\<lambda>i. (1, lh_sector u i, view u (slot u i))) [0..<nat ?n] = logged ?start ?d"
    using u(6) by (simp add: logged_def slot view_u)
  obtain v where v: "install_trans u = Inr v" "bframe u v" "runs (logged ?start ?d) u v"
    using install_runs [OF runsD(3) [OF u(2)] runsD(4) [OF u(2) assms(2)] _ _ u(3), of "[0..<nat ?n]"] i
    unfolding ws by (auto simp: install_trans_def u(5))
  have sv: "runs (logged ?start ?d) s v" using runs_trans [OF u(2) v(3)] by simp
  have fv: "log_start v = ?start" "log_dev v = 1" using bframe_log [OF v(2)] u(3,4) by simp_all
  have "view v ?start = ?d ?start"
    unfolding runsD(1) [OF sv] view using logged_secs [OF assms(4)] start_in_log by (intro apply_writes_other) blast
  then obtain t where t: "write_head (v\<lparr>lh_n := 0\<rparr>) = Inr t" "bframe (v\<lparr>lh_n := 0\<rparr>) t"
      "runs [(1, ?start, put32 0 0 (?d ?start))] v t"
    using write_head_runs [of "v\<lparr>lh_n := 0\<rparr>" "{}"] runsD(3) [OF sv] runsD(4) [OF sv assms(2)] fv start by auto
  have "recover_from_log s = Inr t" using u(1) v(1) t(1) by (simp add: recover_from_log_def)
  moreover have "runs (recovery_writes ?start ?d) s t"
    using runs_trans [OF sv t(3)] by (simp add: recovery_writes_def)
  ultimately show ?thesis using bframe_log [OF t(2)] fv by auto
qed

text \<open>A machine that has just started on the disk \<open>d\<close>: nothing is held and nothing is dirty.\<close>

definition booted :: "(uint \<Rightarrow> block) \<Rightarrow> 'a bcache_scheme \<Rightarrow> bool" where
  "booted d s \<longleftrightarrow> settled s \<and> pinned s {} \<and> disk s 1 = d"

text \<open>Where the superblock puts the log.\<close>

definition sb_log :: "(uint \<Rightarrow> block) \<Rightarrow> uint" where
  "sb_log d = get32 (d 1) 0 - get32 (d 1) 12"

lemma initlock_settled [simp]:
  fixes s :: "'a bcache_scheme"
  shows "settled (initlock LogLock s) = settled s" "pinned (initlock LogLock s) = pinned s"
    "disk (initlock LogLock s) = disk s" "bufs (initlock LogLock s) = bufs s" "writes (initlock LogLock s) = writes s"
  by (simp_all add: settled_def pinned_def store_ok_def bcache_ready_def ptable_idle_def lock_free_def cli_ok_def
      ide_idle_def lru_def initlock_def fun_eq_iff)

lemma initlog_runs:
  fixes s :: "'a logst_scheme"
  assumes "booted d s" and "log_ok (sb_log d) d"
  shows "\<exists>t. initlog s = Inr t \<and> booted (apply_writes (recovery_writes (sb_log d) d) d) t \<and>
    writes t = writes s @ recovery_writes (sb_log d) d \<and> lh_n t = 0 \<and> log_start t = sb_log d"
proof -
  let ?s = "initlock LogLock s"
  have s: "settled ?s" "pinned ?s {}" "disk ?s 1 = d" using assms(1) by (simp_all add: booted_def)
  have view: "view ?s = d" using view_clean [OF s(1,2)] s(3) by auto
  obtain i u where u: "bread 1 1 ?s = Inr (i, u)" "b_data (bufs u ! i) = d 1" "peeked ?s i u"
    using bread_peek [OF s(1,2), of 1] unfolding view by auto
  obtain v where v: "brelse i u = Inr v" "runs [] ?s v" using peeked_brelse [OF s(1) u(3)] by blast
  define w where "w = v\<lparr>log_start := sb_log d, log_size := get32 (d 1) 12, log_dev := 1\<rparr>"
  have w: "settled w" "pinned w {}" "disk w 1 = d" "writes w = writes s" "log_dev w = 1" "log_start w = sb_log d"
    using runsD(2-5) [OF v(2)] s(2,3) by (simp_all add: w_def)
  obtain t where t: "recover_from_log w = Inr t" "runs (recovery_writes (sb_log d) d) w t" "lh_n t = 0" "log_start t = sb_log d"
    using recover_runs [OF w(1,2,5)] assms(2) unfolding w(3,6) by auto
  have "initlog s = Inr t"
    using u(1,2) v(1) t(1) by (simp add: initlog_def readsb_def Let_def w_def sb_log_def)
  then show ?thesis
    using t runsD(2-5) [OF t(2)] w by (auto simp: booted_def)
qed

section \<open>Transactions\<close>

text \<open>
  The state inside a transaction. The log on disk is still empty, every block updated so far is dirty in the
  cache and has a copy in its log block, and nothing else differs from the disk.
\<close>

definition trans_ok :: "'a logst_scheme \<Rightarrow> bool" where
  "trans_ok s \<longleftrightarrow> settled s \<and> lock_free LogLock s \<and> log_dev s = 1 \<and> unat (log_start s) + LOGSIZE < 0x10000000 \<and>
     1 < log_start s \<and> sb_log (disk s 1) = log_start s \<and> get32 (disk s 1 (log_start s)) 0 = 0 \<and>
     0 \<le> lh_n s \<and> lh_n s \<le> int LOGSIZE \<and> inj_on (lh_sector s) {..<nat (lh_n s)} \<and>
     pinned s (lh_sector s ` {..<nat (lh_n s)}) \<and>
     (\<forall>i<nat (lh_n s). lh_sector s i < 0x10000000 \<and> \<not> in_log (log_start s) (lh_sector s i) \<and> lh_sector s i \<noteq> 1 \<and>
        view s (lh_sector s i) = view s (slot s i))"

lemma head_block_fields:
  assumes "0 \<le> n" and "n \<le> int LOGSIZE"
  shows "sint (get32 (head_block n f d) 0) = n" "i < nat n \<Longrightarrow> get32 (head_block n f d) (4 + 4 * i) = f i"
proof -
  have "get32 (head_block n f d) 0 = of_int n"
    unfolding head_block_def by (subst get_fold_put32_other(1)) simp_all
  then show "sint (get32 (head_block n f d) 0) = n"
    using assms by (simp add: signed_of_int signed_take_bit_int_eq_self)
  show "i < nat n \<Longrightarrow> get32 (head_block n f d) (4 + 4 * i) = f i"
    unfolding head_block_def by (rule get32_fold_put32)
qed

text \<open>Writing the header turns the copies in the log into a log that recovers to the cached contents.\<close>

lemma header_commits:
  fixes s :: "'a logst_scheme"
  assumes "trans_ok s"
  defines "start \<equiv> log_start s"
  defines "d \<equiv> (disk s 1)(start := head_block (lh_n s) (lh_sector s) (view s start))"
  shows "logged start d = map (\<lambda>i. (1, lh_sector s i, view s (slot s i))) [0..<nat (lh_n s)]"
    and "log_ok start d" and "\<not> in_log start sec \<Longrightarrow> recovered start d sec = view s sec"
proof -
  from assms(1) have s: "settled s" "unat start + LOGSIZE < 0x10000000" "0 \<le> lh_n s" "lh_n s \<le> int LOGSIZE"
    "pinned s (lh_sector s ` {..<nat (lh_n s)})"
    "\<And>i. i < nat (lh_n s) \<Longrightarrow> lh_sector s i < 0x10000000 \<and> \<not> in_log start (lh_sector s i) \<and>
       view s (lh_sector s i) = view s (slot s i)"
    unfolding trans_ok_def start_def by blast+
  note n = head_block_fields [OF s(3,4)]
  have slot: "slot s i = start + of_nat i + 1" for i by (simp add: slot_def start_def)
  have "d (slot s i) = view s (slot s i)" if "i < nat (lh_n s)" for i
  proof -
    have l: "in_log start (slot s i)" "slot s i \<noteq> start"
      using slot_in_log(1,3) [OF s(2), of i] that s(4) by (simp_all add: slot)
    then have "slot s i \<notin> lh_sector s ` {..<nat (lh_n s)}" using s(6) by fastforce
    then show ?thesis using view_clean [OF s(1,5)] l(2) by (simp add: d_def)
  qed
  then show ws: "logged start d = map (\<lambda>i. (1, lh_sector s i, view s (slot s i))) [0..<nat (lh_n s)]"
    using n by (simp add: logged_def slot) (simp add: d_def)
  show "log_ok start d" using s n by (simp add: log_ok_def d_def)
  show "recovered start d sec = view s sec" if "\<not> in_log start sec"
  proof (cases "sec \<in> lh_sector s ` {..<nat (lh_n s)}")
    case True
    have "recovered start d sec = (if sec \<in> fst ` snd ` set (logged start d) then view s sec else d sec)"
      unfolding recovered_def by (rule apply_writes_const) (use s(6) in \<open>auto simp: ws\<close>)
    then show ?thesis using True by (auto simp: ws image_image)
  next
    case False
    then have "recovered start d sec = d sec"
      unfolding recovered_def by (intro apply_writes_other) (auto simp: ws)
    then show ?thesis
      using view_clean [OF s(1,5) False] that start_in_log by (auto simp: d_def)
  qed
qed

lemma log_section:
  fixes s :: "'a logst_scheme"
  assumes "settled s" and "lock_free LogLock s"
  shows "\<exists>t. acquire LogLock s = Inr (with_lock LogLock s) \<and> log_busy (with_lock LogLock s) = log_busy s \<and>
    release LogLock ((with_lock LogLock s)\<lparr>log_busy := q\<rparr>) = Inr t \<and> settled t \<and> log_busy t = q \<and>
    bufs t = bufs s \<and> disk t = disk s \<and> writes t = writes s \<and> locks t = locks s \<and> log_start t = log_start s \<and>
    log_dev t = log_dev s \<and> lh_n t = lh_n s \<and> lh_sector t = lh_sector s \<and> log_size t = log_size s"
proof -
  let ?u = "(with_lock LogLock s)\<lparr>log_busy := q\<rparr>"
  let ?t = "?u\<lparr>locks := locks s, cpus := cpus (after_cli s)\<rparr>"
  have cli: "cli_ok s"
    using assms(1) by (simp add: settled_def store_ok_def bcache_ready_def ptable_idle_def)
  have keep: "log_busy (with_lock LogLock s) = log_busy s" "log_start (with_lock LogLock s) = log_start s"
    "log_dev (with_lock LogLock s) = log_dev s" "lh_n (with_lock LogLock s) = lh_n s"
    "lh_sector (with_lock LogLock s) = lh_sector s" "log_size (with_lock LogLock s) = log_size s" "mycpu (with_lock LogLock s) = mycpu s"
    by (simp_all add: with_lock_def pushcli_def Let_def)
  have "release LogLock ?u = Inr ?t"
    using assms(2) cli keep by (intro release_critical) simp_all
  moreover have "settled ?t"
    using assms(1) keep
    by (simp add: settled_def store_ok_def bcache_ready_def ptable_idle_def lock_free_def cli_ok_def ide_idle_def lru_def
        after_cli_def cli_visited_def)
  ultimately show ?thesis using acquire_free [OF assms(2)] keep by simp
qed

lemma commit_runs:
  fixes s :: "'a logst_scheme"
  assumes "trans_ok s" and "0 < lh_n s" and "lh_n s \<le> 8"
  defines "start \<equiv> log_start s"
  defines "h \<equiv> head_block (lh_n s) (lh_sector s) (view s start)"
  defines "ws \<equiv> (1, start, h) # recovery_writes start ((disk s 1)(start := h))"
  shows "\<exists>t. commit_trans s = Inr t \<and> settled t \<and> pinned t {} \<and> locks t = locks s \<and> writes t = writes s @ ws \<and>
    disk t 1 = apply_writes ws (disk s 1) \<and> lh_n t = 0 \<and> \<not> log_busy t \<and> log_start t = start \<and> log_dev t = 1"
proof -
  let ?S = "lh_sector s ` {..<nat (lh_n s)}"
  from assms(1) have s: "settled s" "lock_free LogLock s" "log_dev s = 1" "unat start + LOGSIZE < 0x10000000"
    "pinned s ?S" "\<And>i. i < nat (lh_n s) \<Longrightarrow> lh_sector s i < 0x10000000 \<and> \<not> in_log start (lh_sector s i)"
    unfolding trans_ok_def start_def by blast+
  have small: "finite ?S" "card ?S + 1 < NBUF"
    using card_image_le [of "{..<nat (lh_n s)}" "lh_sector s"] assms(3) by simp_all
  have start: "start < 0x10000000" using s(4) by (simp add: word_less_nat_alt)
  obtain u where u: "write_head s = Inr u" "bframe s u" "runs [(1, start, h)] s u"
    using write_head_runs [OF s(1,5) small(1) _ s(3)] small(2) start unfolding start_def h_def by auto
  have fu: "log_start u = start" "log_dev u = 1" "lh_n u = lh_n s" "lh_sector u = lh_sector s" "slot u = slot s"
    using bframe_log [OF u(2)] s(3) by (simp_all add: start_def slot_def fun_eq_iff)
  have slot: "slot s i = start + of_nat i + 1" for i by (simp add: slot_def start_def)
  have slots: "slot s i < 0x10000000" "in_log start (slot s i)" "slot s i \<noteq> start" if "i < nat (lh_n s)" for i
    using slot_in_log [OF s(4), of i] that assms(3) by (simp_all add: slot)
  have view_u: "view u = (view s)(start := h)" using runsD(1) [OF u(3)] by simp
  have logged: "map (\<lambda>i. (1, lh_sector u i, view u (slot u i))) [0..<nat (lh_n s)] = logged start ((disk s 1)(start := h))"
    using slots(3) unfolding fu(4,5) view_u header_commits(1) [OF assms(1), folded start_def, folded h_def] by simp
  have "lh_sector s i \<noteq> slot s j" if "i < nat (lh_n s)" "j < nat (lh_n s)" for i j
    using s(6) slots(2) that by metis
  then obtain v where v: "install_trans u = Inr v" "bframe u v" "runs (logged start ((disk s 1)(start := h))) u v"
    using install_runs [OF runsD(3) [OF u(3)] runsD(4) [OF u(3) s(5)] small fu(2), of "[0..<nat (lh_n s)]"] s(6) slots(1)
    unfolding logged by (auto simp: install_trans_def fu)
  note sv = runs_trans [OF u(3) v(3)]
  have fv: "log_start v = start" "log_dev v = 1" using bframe_log [OF v(2)] fu by simp_all
  have "start \<notin> fst ` snd ` set (logged start ((disk s 1)(start := h)))"
    using logged_secs header_commits(2) [OF assms(1), folded start_def, folded h_def] start_in_log by blast
  then have "view v start = h" unfolding runsD(1) [OF v(3)] view_u by (simp add: apply_writes_other)
  then obtain w where w: "write_head (v\<lparr>lh_n := 0\<rparr>) = Inr w" "bframe (v\<lparr>lh_n := 0\<rparr>) w"
      "runs [(1, start, put32 0 0 h)] v w"
    using write_head_runs [of "v\<lparr>lh_n := 0\<rparr>" ?S] runsD(3) [OF sv] runsD(4) [OF sv s(5)] fv start small by auto
  have sw: "runs ws s w" using runs_trans [OF sv w(3)] by (simp add: ws_def recovery_writes_def)
  have fw: "log_start w = start" "log_dev w = 1" "lh_n w = 0" using bframe_log [OF w(2)] fv by simp_all
  have "pinned w {}"
    using runsD(7) [OF sw s(5)] by (rule pinned_mono)
      (auto simp: ws_def recovery_writes_def header_commits(1) [OF assms(1), folded start_def, folded h_def] image_image)
  moreover obtain t where t: "acquire LogLock w = Inr (with_lock LogLock w)"
    "release LogLock ((with_lock LogLock w)\<lparr>log_busy := False\<rparr>) = Inr t" "settled t" "\<not> log_busy t"
    "bufs t = bufs w" "disk t = disk w" "writes t = writes w" "locks t = locks w" "log_start t = log_start w"
    "log_dev t = log_dev w" "lh_n t = lh_n w"
    using log_section [OF runsD(3) [OF sw], of False] s(2) runsD(6) [OF sw] by (auto simp: lock_free_def)
  moreover have "commit_trans s = Inr t"
    using assms(2) u(1) v(1) w(1) t(1,2) by (simp add: commit_trans_def)
  ultimately show ?thesis
    using runsD(2,5,6) [OF sw] fw by (intro exI [of _ t]) (simp add: pinned_def)
qed

end
