(* ===== verification/Transaction.thy ===== *)
theory Transaction
  imports Log_Crash
begin

text \<open>
  Whole transactions: \<open>log_write\<close> adds blocks to the log without touching the rest of the disk,
  and a transaction that is interrupted anywhere recovers to the contents before it or after it.
\<close>

section \<open>Adding a block to a transaction\<close>

lemma view_update_other:
  assumes "\<not> holds (bs ! i) sec" and "\<not> holds b sec"
  shows "view_of (bs[i := b]) d sec = view_of bs d sec"
proof (cases "i < length bs")
  case True
  then obtain us vs where bs: "bs = us @ bs ! i # vs" "length us = i" by (metis id_take_nth_drop length_take min.absorb4)
  then have up: "bs[i := b] = us @ b # vs" by (metis list_update_length)
  have "view_of (us @ b # vs) d sec = view_of (us @ bs ! i # vs) d sec"
    using assms by (auto simp: view_of_def find_app split: option.splits)
  then show ?thesis using up bs(1) by simp
qed (simp add: list_update_beyond)

lemma view_update_dirty:
  assumes "bufs_ok bs d" and "i < length bs" and "holds (bs ! i) sec" and "holds b sec" and "b_dirty b"
  shows "view_of (bs[i := b]) d = (view_of bs d)(sec := b_data b)"
proof
  fix sec'
  obtain us vs where bs: "bs = us @ bs ! i # vs" "length us = i"
    using assms(2) by (metis id_take_nth_drop length_take min.absorb4)
  then have up: "bs[i := b] = us @ b # vs" by (metis list_update_length)
  show "view_of (bs[i := b]) d sec' = ((view_of bs d)(sec := b_data b)) sec'"
  proof (cases "sec' = sec")
    case True
    have "\<not> holds u sec" if u: "u \<in> set us" for u
    proof
      assume h: "holds u sec"
      obtain k where k: "k < i" "us ! k = u" using u bs(2) by (auto simp: in_set_conv_nth)
      then have "bs ! k = u" using bs by (metis nth_append)
      then show False using bufs_ok_unique [OF assms(1), of k i sec] h k assms(2,3) by auto
    qed
    then have "find (\<lambda>b. holds b sec \<and> b_dirty b) us = None" by (auto simp: find_None_iff)
    then show ?thesis unfolding up using True assms(4,5) by (simp add: view_of_def find_app)
  next
    case False
    then have "\<not> holds b sec'" "\<not> holds (bs ! i) sec'" using assms(3,4) by (auto simp: holds_def)
    then show ?thesis using False view_update_other by simp
  qed
qed

text \<open>Changing a buffer that is held.\<close>

lemma held_update:
  fixes s :: "'a bcache_scheme"
  assumes "store_ok s" and "i < NBUF" and "b_busy (bufs s ! i)" "b_valid (bufs s ! i)" "holds (bufs s ! i) sec"
    and "bufs t = (bufs s)[i := b]" and "b_busy b" "b_valid b" "holds b sec"
    and "bframe s t" "disk t = disk s" "bnext t = bnext s" "bprev t = bprev s"
  shows "store_ok t"
proof (rule store_ok_frame [OF assms(1,10)])
  from assms(1) have ok: "bufs_ok (bufs s) (disk s 1)" and len: "length (bufs s) = NBUF" by (simp_all add: store_ok_def)
  show "length (bufs t) = length (bufs s)" by (simp add: assms(6))
  show "\<exists>xs. lru t xs \<and> length xs = NBUF \<and> set xs = {..<NBUF}"
    using assms(1,12,13) lru_cong [of t s] unfolding store_ok_def by simp
  show "bufs_ok (bufs t) (disk t 1)"
    unfolding assms(6,11)
  proof (rule bufs_ok_update [OF ok])
    show "\<not> holds b sec'" if "j < length (bufs s)" "j \<noteq> i" "holds (bufs s ! j) sec'" for j sec'
      using bufs_ok_unique [OF ok that(1), of i sec'] that assms(2,5,9) len by (auto simp: holds_def)
    show "b_valid b \<longrightarrow> b_dev b = 1 \<and> b_sector b < 0x10000000 \<and> (b_dirty b \<or> b_busy b \<or> b_data b = disk s 1 (b_sector b))"
      using bufs_ok_valid [OF ok, of i] assms(2-5,7-9) len by (auto simp: holds_def)
  qed (use assms(8) in auto)
qed

lemma log_slot_cases:
  fixes s :: "'a logst_scheme"
  obtains (old) "log_slot sec s < nat (lh_n s)" "lh_sector s (log_slot sec s) = sec"
  | (new) "log_slot sec s = nat (lh_n s)" "\<forall>k<nat (lh_n s). lh_sector s k \<noteq> sec"
proof (cases "find (\<lambda>i. lh_sector s i = sec) [0..<nat (lh_n s)]")
  case None
  then have "log_slot sec s = nat (lh_n s)" "\<forall>k<nat (lh_n s). lh_sector s k \<noteq> sec"
    by (simp add: log_slot_def) (use None in \<open>auto simp: find_None_iff\<close>)
  then show ?thesis by (rule new)
next
  case (Some i)
  then have "log_slot sec s = i" "i < nat (lh_n s)" "lh_sector s i = sec"
    by (simp add: log_slot_def) (use Some in \<open>auto simp: find_Some_iff\<close>)
  then show ?thesis using old by simp
qed

lemma upd_buf_log [simp]:
  fixes s :: "'a logst_scheme"
  shows "lh_n (upd_buf i f s) = lh_n s" "lh_sector (upd_buf i f s) = lh_sector s" "log_busy (upd_buf i f s) = log_busy s"
    "log_start (upd_buf i f s) = log_start s" "log_dev (upd_buf i f s) = log_dev s" "log_size (upd_buf i f s) = log_size s"
  by (simp_all add: upd_buf_def)

text \<open>\<open>log_write\<close> on the one buffer that is held.\<close>

lemma log_write_store:
  fixes s :: "'a logst_scheme"
  assumes "store_ok s" and "b < NBUF" and "b_valid (bufs s ! b)" "holds (bufs s ! b) sec"
    and "\<And>j. j < NBUF \<Longrightarrow> b_busy (bufs s ! j) \<longleftrightarrow> j = b"
    and "pinned s S" and "finite S" and "card S + 1 < NBUF"
    and "log_busy s" and "lh_n s < int LOGSIZE" and "lh_n s < sint (log_size s) - 1"
  defines "i \<equiv> log_slot sec s" and "x \<equiv> b_data (bufs s ! b)"
  assumes "slot s i < 0x10000000" and "slot s i \<noteq> sec"
  shows "\<exists>t j c. log_write b s = Inr t \<and> store_ok t \<and> locks t = locks s \<and> j \<noteq> b \<and> \<not> b_busy c \<and> \<not> b_dirty c \<and>
    bufs t = (bufs s)[j := c, b := (bufs s ! b)\<lparr>b_dirty := True\<rparr>] \<and>
    disk t 1 = (disk s 1)(slot s i := x) \<and> writes t = writes s @ [(1, slot s i, x)] \<and>
    view t = (view s)(slot s i := x, sec := x) \<and> lh_sector t = (lh_sector s)(i := sec) \<and>
    lh_n t = (if int i = lh_n s then lh_n s + 1 else lh_n s) \<and> log_busy t \<and> log_start t = log_start s \<and>
    log_dev t = log_dev s \<and> log_size t = log_size s"
proof -
  let ?s = "s\<lparr>lh_sector := (lh_sector s)(i := sec)\<rparr>"
  have len: "length (bufs s) = NBUF" using assms(1) by (simp add: store_ok_def)
  have sec: "b_sector (bufs s ! b) = sec" "b_dev (bufs s ! b) = 1" using assms(4) by (simp_all add: holds_def)
  have "{j. j < NBUF \<and> b_busy (bufs s ! j)} = {b}" using assms(2,5) by auto
  then have free: "\<exists>j<NBUF. \<not> b_busy (bufs s ! j) \<and> \<not> b_dirty (bufs s ! j)"
    using assms(8) by (intro free_buf [OF assms(1,6,7)]) (simp only: card.insert card.empty, auto)
  obtain u j c where u: "bindE (bread 1 (slot s i) ?s)
      (\<lambda>(l, u). bindE (bwrite l (set_data l (\<lambda>_. b_data (bufs u ! b)) u)) (brelse l)) = Inr u"
    "store_ok u" "bframe ?s u" "j < NBUF" "\<not> b_busy (bufs ?s ! j)" "bufs u = (bufs ?s)[j := c]" "\<not> b_busy c" "\<not> b_dirty c"
    "disk u 1 = (disk ?s 1)(slot s i := x)" "writes u = writes ?s @ [(1, slot s i, x)]" "view u = (view ?s)(slot s i := x)"
  proof (rule rmw_store [where s = ?s and sec = "slot s i" and F = "\<lambda>u _. b_data (bufs u ! b)" and f = "\<lambda>_. x"])
    show "\<not> b_busy (bufs ?s ! j)" if "j < NBUF" "holds (bufs ?s ! j) (slot s i)" for j
      using that assms(5,15) sec by (auto simp: holds_def)
    show "(\<lambda>_. b_data (bufs u ! b)) = (\<lambda>_. x)" if "\<not> b_busy (bufs ?s ! j)" "bufs u = (bufs ?s)[j := c]"
      for u :: "'a logst_scheme" and j c
      using that assms(2) assms(5) [of b] by (cases "j = b") (simp_all add: x_def)
  qed (use assms(1,14) free in simp_all)
  have jb: "j \<noteq> b" using u(4,5) assms(5) by auto
  have fu: "log_busy u" "lh_n u = lh_n s" "lh_sector u = (lh_sector s)(i := sec)" "log_start u = log_start s"
      "log_dev u = log_dev s" "log_size u = log_size s"
    using bframe_log [OF u(3)] assms(9) by simp_all
  define v where "v = (if int i = lh_n u then u\<lparr>lh_n := lh_n u + 1\<rparr> else u)"
  have v: "store_ok v" "bufs v = bufs u" "disk v = disk u" "writes v = writes u" "locks v = locks u"
    using u(2) by (simp_all add: v_def)
  let ?t = "upd_buf b (\<lambda>b. b\<lparr>b_dirty := True\<rparr>) v"
  have at: "bufs v ! b = bufs s ! b" using v(2) u(6) jb by simp
  have bufs_t: "bufs ?t = (bufs v)[b := (bufs s ! b)\<lparr>b_dirty := True\<rparr>]" using at by simp
  have h: "holds ((bufs s ! b)\<lparr>b_dirty := True\<rparr>) sec" using assms(4) by (simp add: holds_def)
  have "store_ok ?t"
    using assms(2-5) at h
    by (intro held_update [OF v(1) assms(2), of sec, OF _ _ _ bufs_t]) (simp_all add: bframe_def cli_ok_def)
  moreover have "view ?t = (view s)(slot s i := x, sec := x)"
  proof -
    have "view ?t = (view v)(sec := x)"
      using v(1) assms(2,4) at h len u(6) v(2) unfolding bufs_t
      by (subst view_update_dirty [where sec = sec]) (simp_all add: store_ok_def x_def)
    then show ?thesis unfolding v(2,3) u(11) by simp
  qed
  moreover have "log_write b s =
      bindE (bindE (bread 1 (slot s i) ?s)
        (\<lambda>(l, u). bindE (bwrite l (set_data l (\<lambda>_. b_data (bufs u ! b)) u)) (brelse l)))
        (\<lambda>u. Inr (upd_buf b (\<lambda>b. b\<lparr>b_dirty := True\<rparr>) (if int i = lh_n u then u\<lparr>lh_n := lh_n u + 1\<rparr> else u)))"
    using assms(9-11) sec by (simp add: log_write_def Let_def i_def [symmetric] slot_def bindE_assoc split_def)
  then have "log_write b s = Inr ?t" unfolding u(1) v_def by simp
  moreover have "locks ?t = locks s" using u(3) v(5) by (simp add: bframe_def)
  ultimately show ?thesis
    using u(6-10) v jb fu bufs_t
    by (intro exI [of _ ?t] exI [of _ j] exI [of _ c]) (auto simp: v_def)
qed

text \<open>The use of \<open>log_write\<close> its comment gives: read a block, change it, log it, release it.\<close>

definition log_update :: "uint \<times> (block \<Rightarrow> block) \<Rightarrow> 'a logst_scheme \<Rightarrow> kerror + 'a logst_scheme" where
  "log_update up s =
     bindE (bread 1 (fst up) s) (\<lambda>(b, s). bindE (log_write b (set_data b (snd up) s)) (brelse b))"

lemma log_update_store:
  fixes s :: "'a logst_scheme" and f :: "block \<Rightarrow> block"
  assumes "settled s" and "pinned s S" and "finite S" and "card S + 1 < NBUF"
    and "log_busy s" and "lh_n s < int LOGSIZE" and "lh_n s < sint (log_size s) - 1" and "sec < 0x10000000"
  defines "i \<equiv> log_slot sec s" and "x \<equiv> f (view s sec)"
  assumes "slot s i < 0x10000000" and "slot s i \<noteq> sec"
  shows "\<exists>t. log_update (sec, f) s = Inr t \<and> settled t \<and> pinned t (insert sec S) \<and> locks t = locks s \<and>
    disk t 1 = (disk s 1)(slot s i := x) \<and> writes t = writes s @ [(1, slot s i, x)] \<and>
    view t = (view s)(slot s i := x, sec := x) \<and> lh_sector t = (lh_sector s)(i := sec) \<and>
    lh_n t = (if int i = lh_n s then lh_n s + 1 else lh_n s) \<and> log_busy t \<and> log_start t = log_start s \<and>
    log_dev t = log_dev s \<and> log_size t = log_size s"
proof -
  have ok: "store_ok s" and len: "length (bufs s) = NBUF" and quiet: "\<And>j. j < NBUF \<Longrightarrow> \<not> b_busy (bufs s ! j)"
    using assms(1) by (simp_all add: settled_def store_ok_def)
  have room: "card S < NBUF" using assms(4) by simp
  obtain b u c where u: "bread 1 sec s = Inr (b, u)" "b < NBUF" "store_ok u" "bframe s u" "bufs u = (bufs s)[b := c]"
    "b_busy c" "b_valid c" "holds c sec" "b_data c = view s sec" "b_dirty c = b_dirty (bufs s ! b)" "disk u = disk s"
    "writes u = writes s" "view u = view s" "b_dirty c \<longrightarrow> holds (bufs s ! b) sec"
    by (rule bread_store [OF ok assms(8) quiet settled_free [OF assms(1-3) room]]) blast+
  have at: "bufs u ! b = c" using u(2,5) len by simp
  define v where "v = set_data b f u"
  let ?c = "c\<lparr>b_data := x\<rparr>"
  have bufs_v: "bufs v = (bufs u)[b := ?c]" using at u(9) by (simp add: v_def set_data_def x_def)
  then have bv: "bufs v = (bufs s)[b := ?c]" "bufs v ! b = ?c" using u(2,5) len by simp_all
  have v: "bframe u v" "disk v = disk u" "writes v = writes u" "bnext v = bnext u" "bprev v = bprev u" "locks v = locks u"
    by (simp_all add: v_def set_data_def bframe_def cli_ok_def)
  have hc: "holds ?c sec" using u(8) by (simp add: holds_def)
  have ok_v: "store_ok v"
    using at u(6-8) hc by (intro held_update [OF u(3,2) _ _ _ bufs_v _ _ _ v(1,2,4,5), where sec = sec]) simp_all
  have busy: "b_busy (bufs v ! j) \<longleftrightarrow> j = b" if "j < NBUF" for j
    using quiet [OF that] u(2,6) len unfolding bv(1) by (cases "j = b") simp_all
  have pv: "pinned v S"
    using u(2,10,14) hc assms(2) by (intro pinned_update [OF assms(2) bv(1) len]) (auto simp: pinned_def holds_def)
  have fv: "lh_n v = lh_n s" "lh_sector v = lh_sector s" "log_busy v = log_busy s" "log_start v = log_start s"
      "log_dev v = log_dev s" "log_size v = log_size s"
    using bframe_log [OF v(1)] bframe_log [OF u(4)] by simp_all
  have same: "log_slot sec v = i" "slot v = slot s" "b_data (bufs v ! b) = x"
    unfolding i_def log_slot_def slot_def fun_eq_iff fv bv(2) by simp_all
  obtain w j d where w: "log_write b v = Inr w" "store_ok w" "locks w = locks v" "j \<noteq> b" "\<not> b_busy d" "\<not> b_dirty d"
    "bufs w = (bufs v)[j := d, b := ?c\<lparr>b_dirty := True\<rparr>]"
    "disk w 1 = (disk v 1)(slot s i := x)" "writes w = writes v @ [(1, slot s i, x)]"
    "view w = (view v)(slot s i := x, sec := x)" "lh_sector w = (lh_sector s)(i := sec)"
    "lh_n w = (if int i = lh_n s then lh_n s + 1 else lh_n s)" "log_busy w" "log_start w = log_start s"
    "log_dev w = log_dev s" "log_size w = log_size s"
    using log_write_store [OF ok_v u(2) _ _ busy pv assms(3,4), of sec] u(7) hc assms(5-7,11,12)
    unfolding same fv bv(2) by auto
  have "view v sec' = view s sec'" if "sec' \<noteq> sec" for sec'
    using that hc at u(8,13) v(2) view_update_other [of "bufs u" b sec' ?c "disk u 1"] unfolding bufs_v
    by (auto simp: holds_def)
  then have view_w: "view w = (view s)(slot s i := x, sec := x)" unfolding w(10) by (auto simp: fun_eq_iff)
  have "bufs w ! b = ?c\<lparr>b_dirty := True\<rparr>" using w(7) u(2) len bv(1) by simp
  then obtain t where t: "brelse b w = Inr t" "store_ok t" "bframe w t"
    "bufs t = (bufs w)[b := ?c\<lparr>b_dirty := True, b_busy := False\<rparr>]" "disk t = disk w" "writes t = writes w" "view t = view w"
    using brelse_store [OF w(2) u(2)] u(6) by auto
  have bufs_t: "bufs t = (bufs s)[j := d, b := ?c\<lparr>b_dirty := True, b_busy := False\<rparr>]"
    unfolding t(4) w(7) bv(1) by (simp add: list_update_swap [OF w(4)])
  have nth: "bufs t ! k = (if k = b then ?c\<lparr>b_dirty := True, b_busy := False\<rparr> else if k = j then d else bufs s ! k)"
    if "k < NBUF" for k
    unfolding bufs_t using that len by (cases "k = b"; cases "k = j") simp_all
  have "settled t" using t(2) quiet w(5) by (auto simp: settled_def nth)
  moreover have "pinned t (insert sec S)" using assms(2) w(6) hc by (auto simp: pinned_def holds_def nth)
  moreover have "log_update (sec, f) s = Inr t" using u(1) w(1) t(1) by (simp add: log_update_def v_def)
  moreover have "locks t = locks s" using t(3) w(3) v(6) u(4) by (simp add: bframe_def)
  moreover have "disk t 1 = (disk s 1)(slot s i := x)" "writes t = writes s @ [(1, slot s i, x)]"
    by (simp_all only: t(5,6) w(8,9) v(2,3) u(11,12))
  moreover have "view t = (view s)(slot s i := x, sec := x)" by (simp only: t(7) view_w)
  ultimately show ?thesis using w bframe_log [OF t(3)] by (intro exI [of _ t]) simp
qed

section \<open>The transaction invariant\<close>

lemma log_slot_next:
  fixes s :: "'a logst_scheme" and sec :: uint
  defines "i \<equiv> log_slot sec s" and "n \<equiv> nat (lh_n s)"
  defines "m \<equiv> if int i = lh_n s then lh_n s + 1 else lh_n s"
  assumes "0 \<le> lh_n s" and "inj_on (lh_sector s) {..<n}"
  shows "0 < m" "m \<le> lh_n s + 1" "i \<le> n" "i < nat m" "k < nat m \<Longrightarrow> k \<noteq> i \<Longrightarrow> k < n \<and> lh_sector s k \<noteq> sec"
    "insert sec (lh_sector s ` {..<n}) \<subseteq> (lh_sector s)(i := sec) ` {..<nat m}"
proof -
  have sub: "insert sec (lh_sector s ` {..<n}) \<subseteq> (lh_sector s)(i := sec) ` {..<nat m}"
    if "i < nat m" "n \<le> nat m" "i < n \<Longrightarrow> lh_sector s i = sec"
  proof
    fix x assume "x \<in> insert sec (lh_sector s ` {..<n})"
    then consider "x = sec" | k where "k < n" "x = lh_sector s k" by auto
    then show "x \<in> (lh_sector s)(i := sec) ` {..<nat m}"
    proof cases
      case 1 then show ?thesis using that(1) by (intro image_eqI [of _ _ i]) simp_all
    next
      case 2 then show ?thesis using that by (intro image_eqI [of _ _ k]) auto
    qed
  qed
  have "0 < m \<and> m \<le> lh_n s + 1 \<and> i \<le> n \<and> i < nat m \<and> n \<le> nat m \<and> (i < n \<longrightarrow> lh_sector s i = sec) \<and>
    (\<forall>k<nat m. k \<noteq> i \<longrightarrow> k < n \<and> lh_sector s k \<noteq> sec)"
  proof (rule log_slot_cases [where sec = sec and s = s])
    assume a: "log_slot sec s < nat (lh_n s)" "lh_sector s (log_slot sec s) = sec"
    then have m: "m = lh_n s" "i < n" "lh_sector s i = sec" by (simp_all add: m_def i_def n_def)
    then have "lh_sector s k \<noteq> sec" if "k < n" "k \<noteq> i" for k
      using assms(5) that by (metis inj_onD lessThan_iff)
    then show ?thesis using m assms(4) by (auto simp: n_def)
  next
    assume a: "log_slot sec s = nat (lh_n s)" "\<forall>k<nat (lh_n s). lh_sector s k \<noteq> sec"
    then have m: "m = lh_n s + 1" "i = n" "\<forall>k<n. lh_sector s k \<noteq> sec" "nat m = Suc n"
      using assms(4) by (simp_all add: m_def i_def n_def)
    then show ?thesis using assms(4) by auto
  qed
  then show "0 < m" "m \<le> lh_n s + 1" "i \<le> n" "i < nat m" "k < nat m \<Longrightarrow> k \<noteq> i \<Longrightarrow> k < n \<and> lh_sector s k \<noteq> sec"
    "insert sec (lh_sector s ` {..<n}) \<subseteq> (lh_sector s)(i := sec) ` {..<nat m}"
    using sub by simp_all
qed

lemma log_update_ok:
  fixes s :: "'a logst_scheme" and f :: "block \<Rightarrow> block"
  assumes "trans_ok s" and "log_busy s" and "lh_n s < 8" and "lh_n s < sint (log_size s) - 1"
    and "sec < 0x10000000" and "\<not> in_log (log_start s) sec" and "sec \<noteq> 1"
  shows "\<exists>t l x. log_update (sec, f) s = Inr t \<and> trans_ok t \<and> log_busy t \<and> log_start t = log_start s \<and>
    log_size t = log_size s \<and> 0 < lh_n t \<and> lh_n t \<le> lh_n s + 1 \<and> in_log (log_start s) l \<and> l \<noteq> log_start s \<and>
    writes t = writes s @ [(1, l, x)] \<and> disk t 1 = (disk s 1)(l := x) \<and> view t = (view s)(l := x, sec := f (view s sec))"
proof -
  let ?n = "nat (lh_n s)" let ?S = "lh_sector s ` {..<?n}" let ?i = "log_slot sec s" let ?x = "f (view s sec)"
  let ?l = "slot s ?i"
  from assms(1) have s: "settled s" "lock_free LogLock s" "log_dev s = 1" "unat (log_start s) + LOGSIZE < 0x10000000"
    "1 < log_start s" "sb_log (disk s 1) = log_start s" "get32 (disk s 1 (log_start s)) 0 = 0" "0 \<le> lh_n s"
    "inj_on (lh_sector s) {..<?n}" "pinned s ?S"
    "\<And>i. i < ?n \<Longrightarrow> lh_sector s i < 0x10000000 \<and> \<not> in_log (log_start s) (lh_sector s i) \<and> lh_sector s i \<noteq> 1 \<and>
        view s (lh_sector s i) = view s (slot s i)"
    unfolding trans_ok_def by blast+
  have small: "finite ?S" "card ?S + 1 < NBUF"
    using card_image_le [of "{..<?n}" "lh_sector s"] assms(3) by simp_all
  note nx = log_slot_next [OF s(8,9), where sec = sec]
  have i: "?i < LOGSIZE" using nx(3) assms(3) by simp
  have slots: "slot s k < 0x10000000" "in_log (log_start s) (slot s k)" "slot s k \<noteq> log_start s" if "k < LOGSIZE" for k
    using slot_in_log [OF s(4) that] by (simp_all add: slot_def)
  have l: "?l < 0x10000000" "in_log (log_start s) ?l" "?l \<noteq> log_start s" "?l \<noteq> sec" "?l \<noteq> 1"
    using slots [OF i] assms(6) s(5) by (auto simp: in_log_def word_less_nat_alt)
  obtain t where t: "log_update (sec, f) s = Inr t" "settled t" "pinned t (insert sec ?S)" "locks t = locks s"
    "disk t 1 = (disk s 1)(?l := ?x)" "writes t = writes s @ [(1, ?l, ?x)]" "view t = (view s)(?l := ?x, sec := ?x)"
    "lh_sector t = (lh_sector s)(?i := sec)" "lh_n t = (if int ?i = lh_n s then lh_n s + 1 else lh_n s)"
    "log_busy t" "log_start t = log_start s" "log_dev t = log_dev s" "log_size t = log_size s"
    using log_update_store [OF s(1,10) small assms(2) _ assms(4,5), of f] l(1,4) assms(3) by auto
  note n = nx(1-6) [folded t(9)]
  have small_t: "nat (lh_n t) \<le> LOGSIZE" using n(2) assms(3) by simp
  have "pinned t (lh_sector t ` {..<nat (lh_n t)})" using pinned_mono [OF t(3)] n(6) unfolding t(8) by blast
  moreover have "inj_on (lh_sector t) {..<nat (lh_n t)}"
    unfolding t(8)
  proof (rule inj_onI)
    fix k m assume a: "k \<in> {..<nat (lh_n t)}" "m \<in> {..<nat (lh_n t)}"
      "((lh_sector s)(?i := sec)) k = ((lh_sector s)(?i := sec)) m"
    then show "k = m"
      using n(5) [of k] n(5) [of m] inj_onD [OF s(9), of k m] by (cases "k = ?i"; cases "m = ?i") auto
  qed
  moreover have "view t (lh_sector t k) = view t (slot t k)" if k: "k < nat (lh_n t)" for k
  proof (cases "k = ?i")
    case True
    then show ?thesis unfolding t(7,8) by (simp add: slot_def t(11))
  next
    case False
    then have k': "k < ?n" "lh_sector s k \<noteq> sec" using n(5) [OF k] by simp_all
    have "unat (slot s k) = unat (log_start s) + k + 1"
      unfolding slot_def by (rule unat_slot [OF s(4)]) (use k small_t in simp)
    moreover have "unat ?l = unat (log_start s) + ?i + 1" unfolding slot_def by (rule unat_slot [OF s(4) i])
    ultimately have "slot s k \<noteq> ?l" using False by (metis add_right_cancel add_left_cancel)
    moreover have "lh_sector s k \<noteq> ?l" "slot s k \<noteq> sec"
      using s(11) [OF k'(1)] l(2) slots(2) [of k] k small_t assms(6) by auto
    ultimately show ?thesis
      using k' s(11) [OF k'(1)] False unfolding t(7,8) by (simp add: slot_def t(11))
  qed
  moreover have "lh_sector t k < 0x10000000 \<and> \<not> in_log (log_start t) (lh_sector t k) \<and> lh_sector t k \<noteq> 1"
    if "k < nat (lh_n t)" for k
    using n(5) [OF that] s(11) [of k] assms(5-7) unfolding t(8,11) by auto
  moreover have "lock_free LogLock t" "log_dev t = 1" using t(4,12) s(2,3) by (simp_all add: lock_free_def)
  moreover have "unat (log_start t) + LOGSIZE < 0x10000000" "1 < log_start t" using s(4,5) by (simp_all add: t(11))
  moreover have "sb_log (disk t 1) = log_start t" "get32 (disk t 1 (log_start t)) 0 = 0"
    using s(6,7) l(3,5) unfolding t(5,11) by (simp_all add: sb_log_def)
  moreover have "0 \<le> lh_n t" "lh_n t \<le> int LOGSIZE" using n(1,2) assms(3) by simp_all
  ultimately have "trans_ok t" using t(2) unfolding trans_ok_def by blast
  then show ?thesis using t n(1,2) l by blast
qed

section \<open>Whole transactions\<close>

definition updated :: "(uint \<times> (block \<Rightarrow> block)) list \<Rightarrow> (uint \<Rightarrow> block) \<Rightarrow> uint \<Rightarrow> block" where
  "updated ups v = fold (\<lambda>(sec, f) v. v(sec := f (v sec))) ups v"

definition transaction :: "(uint \<times> (block \<Rightarrow> block)) list \<Rightarrow> 'a logst_scheme \<Rightarrow> kerror + 'a logst_scheme" where
  "transaction ups s = bindE (begin_trans s) (\<lambda>s. bindE (foldE log_update ups s) commit_trans)"

text \<open>A block a transaction may change: on the disk, and neither in the log nor the superblock.\<close>

definition loggable :: "uint \<Rightarrow> uint \<Rightarrow> bool" where
  "loggable start sec \<longleftrightarrow> sec < 0x10000000 \<and> \<not> in_log start sec \<and> sec \<noteq> 1"

lemma updated_simps [simp]:
  "updated [] v = v" "updated ((sec, f) # ups) v = updated ups (v(sec := f (v sec)))"
  by (simp_all add: updated_def)

lemma updated_cong: "v sec = v' sec \<Longrightarrow> updated ups v sec = updated ups v' sec"
proof (induction ups arbitrary: v v')
  case (Cons up ups)
  obtain sec' f where up: "up = (sec', f)" by (cases up)
  show ?case
    unfolding up updated_simps
    by (rule Cons.IH [of "v(sec' := f (v sec'))" "v'(sec' := f (v' sec'))"]) (use Cons.prems in \<open>auto simp only: fun_upd_apply split: if_split\<close>)
qed simp

lemma updates_ok:
  fixes s :: "'a logst_scheme"
  assumes "trans_ok s" and "log_busy s" and "lh_n s + int (length ups) \<le> 8"
    and "lh_n s + int (length ups) < sint (log_size s)" and "\<And>up. up \<in> set ups \<Longrightarrow> loggable (log_start s) (fst up)"
  shows "\<exists>t ws. foldE log_update ups s = Inr t \<and> trans_ok t \<and> log_start t = log_start s \<and>
    lh_n t \<le> lh_n s + int (length ups) \<and> (ups = [] \<or> 0 < lh_n t) \<and> length ws = length ups \<and>
    writes t = writes s @ ws \<and> disk t 1 = apply_writes ws (disk s 1) \<and>
    (\<forall>l\<in>fst ` snd ` set ws. in_log (log_start s) l \<and> l \<noteq> log_start s) \<and>
    (\<forall>sec. \<not> in_log (log_start s) sec \<longrightarrow> view t sec = updated ups (view s) sec)"
  using assms
proof (induction ups arbitrary: s)
  case Nil
  then show ?case by (intro exI [of _ s] exI [of _ "[]"]) simp
next
  case (Cons up ups)
  obtain sec f where up: "up = (sec, f)" by (cases up)
  have sec: "sec < 0x10000000" "\<not> in_log (log_start s) sec" "sec \<noteq> 1"
    using Cons.prems(5) [of up] by (simp_all add: up loggable_def)
  obtain u l x where u: "log_update up s = Inr u" "trans_ok u" "log_busy u" "log_start u = log_start s"
    "log_size u = log_size s" "0 < lh_n u" "lh_n u \<le> lh_n s + 1" "in_log (log_start s) l" "l \<noteq> log_start s"
    "writes u = writes s @ [(1, l, x)]" "disk u 1 = (disk s 1)(l := x)" "view u = (view s)(l := x, sec := f (view s sec))"
    using log_update_ok [OF Cons.prems(1,2) _ _ sec] Cons.prems(3,4) unfolding up by fastforce
  have len: "lh_n u + int (length ups) \<le> lh_n s + int (length (up # ups))" using u(7) by simp
  obtain t ws where t: "foldE log_update ups u = Inr t" "trans_ok t" "log_start t = log_start u"
    "lh_n t \<le> lh_n u + int (length ups)" "ups = [] \<or> 0 < lh_n t" "length ws = length ups"
    "writes t = writes u @ ws" "disk t 1 = apply_writes ws (disk u 1)"
    "\<forall>l\<in>fst ` snd ` set ws. in_log (log_start u) l \<and> l \<noteq> log_start u"
    "\<forall>sec. \<not> in_log (log_start u) sec \<longrightarrow> view t sec = updated ups (view u) sec"
    using Cons.IH [OF u(2,3)] Cons.prems(3-5) len u(4,5) by auto
  have "view t sec' = updated (up # ups) (view s) sec'" if "\<not> in_log (log_start s) sec'" for sec'
  proof -
    have "(view u) sec' = ((view s)(sec := f (view s sec))) sec'" using u(8,12) that by auto
    then have "updated ups (view u) sec' = updated ups ((view s)(sec := f (view s sec))) sec'"
      by (rule updated_cong [of "view u" sec' "(view s)(sec := f (view s sec))"])
    then show ?thesis using t(10) u(4) that unfolding up updated_simps by simp
  qed
  moreover have "0 < lh_n t" using t(1,5) u(6) by auto
  ultimately show ?case
    using t u len by (intro exI [of _ t] exI [of _ "(1, l, x) # ws"]) auto
qed

lemma reboot:
  fixes r :: "'a logst_scheme"
  assumes "booted d r" and "sb_log d = start" and "log_ok start d"
  shows "\<exists>u. initlog r = Inr u \<and> (\<forall>sec. sec \<noteq> start \<longrightarrow> disk u 1 sec = recovered start d sec)"
  using initlog_runs [OF assms(1)] assms(2,3) by (auto simp: booted_def recovery_writes_def recovered_def)

lemma sb_prefix:
  assumes "start \<noteq> 1" and "1 \<notin> fst ` snd ` set (logged start d)"
  shows "sb_log (apply_writes (take k (recovery_writes start d)) d) = sb_log d"
proof -
  have "1 \<notin> fst ` snd ` set (recovery_writes start d)" using assms by (simp add: recovery_writes_def)
  then have "1 \<notin> fst ` snd ` set (take k (recovery_writes start d))" by (meson image_mono set_take_subset subsetD)
  then show ?thesis by (simp add: sb_log_def apply_writes_other)
qed

text \<open>Before the header is written, a crash leaves the contents from before the transaction.\<close>

lemma crash_before:
  fixes s :: "'a logst_scheme"
  assumes "trans_ok s" and "\<And>l. l \<in> fst ` snd ` set ws \<Longrightarrow> in_log (log_start s) l \<and> l \<noteq> log_start s"
    and "booted (apply_writes ws (disk s 1)) (r :: 'b logst_scheme)"
  shows "\<exists>u. initlog r = Inr u \<and> (\<forall>sec. \<not> in_log (log_start s) sec \<longrightarrow> disk u 1 sec = disk s 1 sec)"
proof -
  let ?start = "log_start s" let ?d = "apply_writes ws (disk s 1)"
  from assms(1) have s: "unat ?start + LOGSIZE < 0x10000000" "1 < ?start" "sb_log (disk s 1) = ?start"
    "get32 (disk s 1 ?start) 0 = 0"
    unfolding trans_ok_def by blast+
  have out: "?d sec = disk s 1 sec" if "\<not> in_log ?start sec \<or> sec = ?start" for sec
    using assms(2) that by (intro apply_writes_other) auto
  have "\<not> in_log ?start 1" using s(2) by (simp add: in_log_def word_less_nat_alt)
  then have "sb_log ?d = ?start" using out s(3) by (simp add: sb_log_def)
  moreover have "logged ?start ?d = []" "log_ok ?start ?d" using s out by (simp_all add: logged_def log_ok_def)
  moreover have "?d sec = disk s 1 sec" "sec \<noteq> ?start" if "\<not> in_log ?start sec" for sec
    using out that start_in_log by auto
  ultimately show ?thesis using reboot [OF assms(3)] by (auto simp: recovered_def)
qed

text \<open>From then on, it leaves the contents from after it.\<close>

lemma crash_after:
  fixes s :: "'a logst_scheme"
  assumes "trans_ok s"
  defines "d \<equiv> (disk s 1)(log_start s := head_block (lh_n s) (lh_sector s) (view s (log_start s)))"
  assumes "booted (apply_writes (take k (recovery_writes (log_start s) d)) d) (r :: 'b logst_scheme)"
  shows "\<exists>u. initlog r = Inr u \<and> (\<forall>sec. \<not> in_log (log_start s) sec \<longrightarrow> disk u 1 sec = view s sec)"
proof -
  let ?start = "log_start s"
  from assms(1) have s: "1 < ?start" "sb_log (disk s 1) = ?start" "\<And>i. i < nat (lh_n s) \<Longrightarrow> lh_sector s i \<noteq> 1"
    unfolding trans_ok_def by blast+
  note c = header_commits [OF assms(1), folded d_def]
  have "1 \<notin> fst ` snd ` set (logged ?start d)" using s(3) by (auto simp: c(1))
  moreover have "?start \<noteq> 1" using s(1) by auto
  ultimately have "sb_log (apply_writes (take k (recovery_writes ?start d)) d) = ?start"
    using sb_prefix s(2) by (auto simp: d_def sb_log_def)
  from reboot [OF assms(3) this recovered_prefix(1) [OF c(2)]] show ?thesis
    using recovered_prefix(2) [OF c(2)] c(3) start_in_log by metis
qed

lemma begin_ok:
  fixes s :: "'a logst_scheme"
  assumes "trans_ok s" and "\<not> log_busy s"
  shows "\<exists>t. begin_trans s = Inr t \<and> trans_ok t \<and> log_busy t \<and> lh_n t = lh_n s \<and> log_start t = log_start s \<and>
    log_size t = log_size s \<and> disk t = disk s \<and> bufs t = bufs s \<and> writes t = writes s"
proof -
  from assms(1) have s: "settled s" "lock_free LogLock s" unfolding trans_ok_def by blast+
  obtain t where t: "acquire LogLock s = Inr (with_lock LogLock s)" "log_busy (with_lock LogLock s) = log_busy s"
    "release LogLock ((with_lock LogLock s)\<lparr>log_busy := True\<rparr>) = Inr t" "settled t" "log_busy t"
    "bufs t = bufs s" "disk t = disk s" "writes t = writes s" "locks t = locks s" "log_start t = log_start s"
    "log_dev t = log_dev s" "lh_n t = lh_n s" "lh_sector t = lh_sector s" "log_size t = log_size s"
    using log_section [OF s, of True] by auto
  have "trans_ok t"
    using assms(1) t(4,6-13) unfolding trans_ok_def by (simp add: lock_free_def pinned_def slot_def)
  then show ?thesis using t assms(2) by (simp add: begin_trans_def)
qed

lemma transaction_runs:
  fixes s :: "'a logst_scheme"
  assumes "trans_ok s" and "lh_n s = 0" and "\<not> log_busy s" and "ups \<noteq> []" and "length ups \<le> 8"
    and "int (length ups) < sint (log_size s)" and "\<And>up. up \<in> set ups \<Longrightarrow> loggable (log_start s) (fst up)"
  obtains t u :: "'a logst_scheme" and ws where "transaction ups s = Inr t" "trans_ok t" "lh_n t = 0" "\<not> log_busy t"
    "trans_ok u" "log_start u = log_start s" "length ws = length ups" "disk u 1 = apply_writes ws (disk s 1)"
    "\<forall>l\<in>fst ` snd ` set ws. in_log (log_start s) l \<and> l \<noteq> log_start s"
    "\<forall>sec. \<not> in_log (log_start s) sec \<longrightarrow> view u sec = updated ups (disk s 1) sec"
    "writes t = writes s @ ws @ (1, log_start s, head_block (lh_n u) (lh_sector u) (view u (log_start s))) #
      recovery_writes (log_start s)
        ((disk u 1)(log_start s := head_block (lh_n u) (lh_sector u) (view u (log_start s))))"
    "\<forall>sec. \<not> in_log (log_start s) sec \<longrightarrow> disk t 1 sec = updated ups (disk s 1) sec"
proof -
  let ?start = "log_start s"
  obtain v where v: "begin_trans s = Inr v" "trans_ok v" "log_busy v" "lh_n v = 0" "log_start v = ?start"
    "log_size v = log_size s" "disk v = disk s" "bufs v = bufs s" "writes v = writes s"
    using begin_ok [OF assms(1,3)] assms(2) by auto
  obtain u ws where u: "foldE log_update ups v = Inr u" "trans_ok u" "log_start u = ?start"
    "lh_n u \<le> int (length ups)" "0 < lh_n u" "length ws = length ups" "writes u = writes s @ ws"
    "disk u 1 = apply_writes ws (disk s 1)" "\<forall>l\<in>fst ` snd ` set ws. in_log ?start l \<and> l \<noteq> ?start"
    "\<forall>sec. \<not> in_log ?start sec \<longrightarrow> view u sec = updated ups (view v) sec"
    using updates_ok [OF v(2,3), of ups] v assms(4-7) by auto
  from assms(1,2) have "settled s" "pinned s {}" unfolding trans_ok_def by auto
  then have "view s = disk s 1" using view_clean by blast
  then have view_u: "\<forall>sec. \<not> in_log ?start sec \<longrightarrow> view u sec = updated ups (disk s 1) sec"
    using u(10) unfolding v(7,8) by simp
  define d where "d = (disk u 1)(?start := head_block (lh_n u) (lh_sector u) (view u ?start))"
  note c = header_commits [OF u(2), unfolded u(3), folded d_def]
  obtain t where t: "commit_trans u = Inr t" "settled t" "pinned t {}" "locks t = locks u"
    "writes t = writes u @ (1, ?start, head_block (lh_n u) (lh_sector u) (view u ?start)) # recovery_writes ?start d"
    "disk t 1 = apply_writes (recovery_writes ?start d) d" "lh_n t = 0" "\<not> log_busy t" "log_start t = ?start" "log_dev t = 1"
    using commit_runs [OF u(2,5)] u(4) assms(5) unfolding u(3) d_def by auto
  have out: "disk t 1 sec = recovered ?start d sec" if "sec \<noteq> ?start" for sec
    using that unfolding t(6) by (simp add: recovery_writes_def recovered_def)
  from u(2) have s: "lock_free LogLock u" "unat ?start + LOGSIZE < 0x10000000" "1 < ?start" "sb_log (disk u 1) = ?start"
    "\<And>i. i < nat (lh_n u) \<Longrightarrow> lh_sector u i \<noteq> 1"
    unfolding trans_ok_def u(3) by blast+
  have "1 \<notin> fst ` snd ` set (logged ?start d)" "?start \<noteq> 1" using s(3,5) by (auto simp: c(1))
  from sb_prefix [OF this(2,1), of "length (recovery_writes ?start d)"] have "sb_log (disk t 1) = ?start"
    unfolding t(6) using s(3,4) by (auto simp: d_def sb_log_def)
  moreover have "get32 (disk t 1 ?start) 0 = 0" unfolding t(6) by (simp add: recovery_writes_def)
  ultimately have "trans_ok t"
    using t s(1-3) unfolding trans_ok_def by (simp add: lock_free_def)
  moreover have "\<forall>sec. \<not> in_log ?start sec \<longrightarrow> disk t 1 sec = updated ups (disk s 1) sec"
    using out c(3) view_u start_in_log by metis
  ultimately show ?thesis
    using that [of t u ws] t u v(1) view_u by (simp add: transaction_def d_def)
qed

text \<open>
  (C1) A transaction of at most eight block updates is atomic across a crash. However many of its writes have
  reached the disk when the machine stops, starting again recovers either the contents from before the
  transaction, when the log header was not written yet, or those with every update made. When nothing
  interrupts it, it ends with all the updates on the disk, and the log is ready for the next transaction.
\<close>

theorem transaction_atomic:
  fixes s :: "'a logst_scheme"
  assumes "trans_ok s" and "lh_n s = 0" and "\<not> log_busy s" and "ups \<noteq> []" and "length ups \<le> 8"
    and "int (length ups) < sint (log_size s)" and "\<And>up. up \<in> set ups \<Longrightarrow> loggable (log_start s) (fst up)"
  shows "\<exists>t ws. transaction ups s = Inr t \<and> trans_ok t \<and> lh_n t = 0 \<and> \<not> log_busy t \<and> writes t = writes s @ ws \<and>
    (\<forall>sec. \<not> in_log (log_start s) sec \<longrightarrow> disk t 1 sec = updated ups (disk s 1) sec) \<and>
    (\<forall>k (r :: 'a logst_scheme). booted (apply_writes (take k ws) (disk s 1)) r \<longrightarrow>
      (\<exists>u. initlog r = Inr u \<and> (\<forall>sec. \<not> in_log (log_start s) sec \<longrightarrow>
         disk u 1 sec = (if k \<le> length ups then disk s 1 sec else updated ups (disk s 1) sec))))"
proof -
  let ?start = "log_start s"
  obtain t u :: "'a logst_scheme" and ws where t: "transaction ups s = Inr t" "trans_ok t" "lh_n t = 0" "\<not> log_busy t"
    "trans_ok u" "log_start u = ?start" "length ws = length ups" "disk u 1 = apply_writes ws (disk s 1)"
    "\<forall>l\<in>fst ` snd ` set ws. in_log ?start l \<and> l \<noteq> ?start"
    "\<forall>sec. \<not> in_log ?start sec \<longrightarrow> view u sec = updated ups (disk s 1) sec"
    "writes t = writes s @ ws @ (1, ?start, head_block (lh_n u) (lh_sector u) (view u ?start)) #
      recovery_writes ?start ((disk u 1)(?start := head_block (lh_n u) (lh_sector u) (view u ?start)))"
    "\<forall>sec. \<not> in_log ?start sec \<longrightarrow> disk t 1 sec = updated ups (disk s 1) sec"
    by (rule transaction_runs [OF assms])
  let ?h = "head_block (lh_n u) (lh_sector u) (view u ?start)" let ?d = "(disk u 1)(?start := ?h)"
  let ?ws = "ws @ (1, ?start, ?h) # recovery_writes ?start ?d"
  have crash: "\<exists>u. initlog r = Inr u \<and> (\<forall>sec. \<not> in_log ?start sec \<longrightarrow>
      disk u 1 sec = (if k \<le> length ups then disk s 1 sec else updated ups (disk s 1) sec))"
    if r: "booted (apply_writes (take k ?ws) (disk s 1)) r" for k and r :: "'a logst_scheme"
  proof (cases "k \<le> length ups")
    case True
    then have "booted (apply_writes (take k ws) (disk s 1)) r" using r t(7) by simp
    moreover have "in_log ?start l \<and> l \<noteq> ?start" if "l \<in> fst ` snd ` set (take k ws)" for l
      using t(9) that set_take_subset [of k ws] by blast
    ultimately show ?thesis using crash_before [OF assms(1), of "take k ws" r] True by simp
  next
    case False
    then obtain j where "k = length ws + Suc j" using t(7) by (metis add_Suc_right less_imp_Suc_add not_le)
    then have "booted (apply_writes (take j (recovery_writes ?start ?d)) ?d) r" using r t(8) by simp
    with crash_after [OF t(5), of j r] show ?thesis using t(6,10) False by auto
  qed
  then show ?thesis using t by (intro exI [of _ t] exI [of _ ?ws]) blast
qed

text \<open>A machine just started, on a disk of 1024 blocks with the log in the last eleven.\<close>

definition log_disk :: "block \<Rightarrow> uint \<Rightarrow> uint \<Rightarrow> block" where
  "log_disk h dv sec = (if sec = 1 then put32 0 1024 (put32 12 11 (\<lambda>_. 0)) else if sec = 1013 then h
     else if sec = 1014 then (\<lambda>_. 9) else (\<lambda>_. 0))"

definition a_log :: "block \<Rightarrow> logst" where
  "a_log h = bcache.extend (boot_cache\<lparr>disk := log_disk h\<rparr>) (logst.fields 1013 11 False 1 0 (\<lambda>_. 0))"

lemma a_log_bufs: "bufs (a_log h) = bufs boot_cache" "disk (a_log h) = log_disk h" "bnext (a_log h) = bnext boot_cache"
    "bprev (a_log h) = bprev boot_cache" "locks (a_log h) = locks boot_cache" "cpus (a_log h) = cpus boot_cache"
    "mycpu (a_log h) = mycpu boot_cache" "inswapper (a_log h) = inswapper boot_cache" "idequeue (a_log h) = idequeue boot_cache"
    "ide_fail (a_log h) = ide_fail boot_cache" "havedisk1 (a_log h) = havedisk1 boot_cache"
  by (simp_all add: a_log_def bcache.defs logst.defs)

lemma a_log_settled: "settled (a_log h)" "pinned (a_log h) {}"
proof -
  have all: "list_all (\<lambda>b. b_dev b \<noteq> 1 \<and> \<not> b_valid b \<and> \<not> b_dirty b \<and> \<not> b_busy b) (bufs boot_cache)" by code_simp
  have len: "length (bufs boot_cache) = NBUF" by code_simp
  have b: "b_dev (bufs boot_cache ! i) \<noteq> 1" "\<not> b_valid (bufs boot_cache ! i)" "\<not> b_dirty (bufs boot_cache ! i)"
    "\<not> b_busy (bufs boot_cache ! i)" if "i < NBUF" for i
    using all that len by (simp_all add: list_all_length)
  have idle: "ide_idle boot_cache" "havedisk1 boot_cache" by code_simp+
  have "bcache_ready (a_log h)" "ide_idle (a_log h)" "havedisk1 (a_log h)"
    using boot_cache_ready(1) idle
    by (simp_all add: bcache_ready_def ptable_idle_def lock_free_def cli_ok_def ide_idle_def a_log_bufs)
  moreover have "lru (a_log h) [9, 8, 7, 6, 5, 4, 3, 2, 1, 0]"
    using boot_cache_lru(1) by (simp add: lru_def a_log_bufs)
  moreover have "bufs_ok (bufs (a_log h)) (disk (a_log h) 1)"
    using b len by (simp add: bufs_ok_def holds_def a_log_bufs)
  moreover have "set [9, 8, 7, 6, 5, 4, 3, 2, 1, 0] = {..<NBUF}" by (auto simp: numeral_eq_Suc less_Suc_eq)
  ultimately show "settled (a_log h)" using b len
    by (auto simp: settled_def store_ok_def a_log_bufs intro!: exI [of _ "[9, 8, 7, 6, 5, 4, 3, 2, 1, 0]"])
  show "pinned (a_log h) {}" using b by (simp add: pinned_def a_log_bufs)
qed

theorem transaction_atomic_witness:
  "\<exists>t. transaction [(7, \<lambda>d. d(0 := 5)), (9, \<lambda>d. d(1 := 2))] (a_log (\<lambda>_. 0)) = Inr t \<and>
     disk t 1 7 0 = 5 \<and> disk t 1 9 1 = 2"
proof -
  let ?s = "a_log (\<lambda>_. 0)" let ?ups = "[(7, \<lambda>d. d(0 := 5)), (9, \<lambda>d. d(1 := 2))]"
  have f: "log_start ?s = 1013" "log_size ?s = 11" "\<not> log_busy ?s" "log_dev ?s = 1" "lh_n ?s = 0"
    by (simp_all add: a_log_def bcache.defs logst.defs)
  have "sb_log (disk ?s 1) = 1013" "get32 (disk ?s 1 1013) 0 = 0"
    by (simp_all add: a_log_bufs sb_log_def log_disk_def field_other) (simp add: get32_def)
  moreover have "lock_free LogLock ?s" by (simp add: lock_free_def a_log_bufs) code_simp
  ultimately have ok: "trans_ok ?s" using a_log_settled by (simp add: trans_ok_def f)
  have "?ups \<noteq> []" "length ?ups \<le> 8" "int (length ?ups) < sint (log_size ?s)" by (simp_all add: f)
  note size = this
  have up: "loggable (log_start ?s) (fst up)" if "up \<in> set ?ups" for up
    using that by (auto simp: f loggable_def in_log_def)
  obtain t where "transaction ?ups ?s = Inr t"
      "\<forall>sec. \<not> in_log 1013 sec \<longrightarrow> disk t 1 sec = updated ?ups (disk ?s 1) sec"
    using transaction_atomic [OF ok f(5,3) size up] unfolding f(1) by blast
  then show ?thesis by (simp add: in_log_def)
qed

text \<open>
  (C3) Recovery installs what the log on disk asks for, and may itself be interrupted: stopped after any of its
  writes and started again, it arrives at the same contents.
\<close>

theorem recovery_restartable:
  fixes s :: "'a logst_scheme"
  assumes "booted d s" and "log_ok (sb_log d) d" and "sb_log d \<noteq> 1" and "1 \<notin> fst ` snd ` set (logged (sb_log d) d)"
  shows "\<exists>t ws. initlog s = Inr t \<and> writes t = writes s @ ws \<and>
    (\<forall>sec. sec \<noteq> sb_log d \<longrightarrow> disk t 1 sec = recovered (sb_log d) d sec) \<and>
    (\<forall>k (r :: 'a logst_scheme). booted (apply_writes (take k ws) d) r \<longrightarrow>
      (\<exists>u. initlog r = Inr u \<and> (\<forall>sec. sec \<noteq> sb_log d \<longrightarrow> disk u 1 sec = disk t 1 sec)))"
proof -
  let ?ws = "recovery_writes (sb_log d) d"
  obtain t where t: "initlog s = Inr t" "booted (apply_writes ?ws d) t" "writes t = writes s @ ?ws"
    using initlog_runs [OF assms(1,2)] by blast
  have out: "disk t 1 sec = recovered (sb_log d) d sec" if "sec \<noteq> sb_log d" for sec
    using t(2) that by (simp add: booted_def recovery_writes_def recovered_def)
  have "\<exists>u. initlog r = Inr u \<and> (\<forall>sec. sec \<noteq> sb_log d \<longrightarrow> disk u 1 sec = disk t 1 sec)"
    if "booted (apply_writes (take k ?ws) d) r" for k and r :: "'a logst_scheme"
    using reboot [OF that sb_prefix [OF assms(3,4)] recovered_prefix(1) [OF assms(2)]]
      recovered_prefix(2) [OF assms(2)] out by metis
  then show ?thesis using t out by blast
qed

theorem recovery_restartable_witness:
  "\<exists>t. initlog (a_log (head_block 1 (\<lambda>_. 7) (\<lambda>_. 0))) = Inr t \<and> disk t 1 7 = (\<lambda>_. 9)"
proof -
  let ?d = "log_disk (head_block 1 (\<lambda>_. 7) (\<lambda>_. 0)) 1" let ?s = "a_log (head_block 1 (\<lambda>_. 7) (\<lambda>_. 0))"
  have b: "booted ?d ?s" using a_log_settled by (simp add: booted_def a_log_bufs)
  have sb: "sb_log ?d = 1013" by (simp add: sb_log_def log_disk_def field_other)
  have h: "sint (get32 (?d 1013) 0) = 1" "get32 (?d 1013) 4 = 7"
    using head_block_fields(1) [of 1 "\<lambda>_. 7" "\<lambda>_. 0"] head_block_fields(2) [of 1 0 "\<lambda>_. 7" "\<lambda>_. 0"]
    by (simp_all add: log_disk_def)
  have ok: "log_ok (sb_log ?d) ?d" using h unfolding sb by (simp add: log_ok_def in_log_def)
  have ws: "logged (sb_log ?d) ?d = [(1, 7, \<lambda>_. 9)]" using h unfolding sb by (simp add: logged_def) (simp add: log_disk_def)
  obtain t where "initlog ?s = Inr t" "\<forall>sec. sec \<noteq> 1013 \<longrightarrow> disk t 1 sec = recovered 1013 ?d sec"
    using recovery_restartable [OF b ok] unfolding ws unfolding sb by auto
  then show ?thesis using ws sb by (simp add: recovered_def)
qed

end
