(* ===== verification/Console.thy ===== *)
theory Console
  imports Process
begin

text \<open>
  The console of \<^verbatim>\<open>console.c\<close>: formatted output, the text screen, line editing and reading; with the
  serial port of \<^verbatim>\<open>uart.c\<close>.
\<close>

section \<open>State\<close>

text \<open>
  The screen is memory from \<open>crt\<close> on; \<open>crt_pos\<close> is the cursor register of the controller. The bytes
  the serial port has sent are \<open>uart_out\<close>; \<open>uart_in\<close> and \<open>kbd_in\<close> are the bytes that
  wait in the devices.
\<close>

record console = kproc +
  cons_locking :: bool
  panicked :: bool
  crt_pos :: ushort
  uart :: bool
  uart_out :: "uchar list"
  uart_in :: "uchar list"
  kbd_in :: "uchar list"
  kbd_shift :: uint
  in_buf :: "nat \<Rightarrow> uchar"
  in_r :: uint
  in_w :: uint
  in_e :: uint

definition BACKSPACE :: int where "BACKSPACE = 0x100"

abbreviation INPUT_BUF :: nat where "INPUT_BUF \<equiv> 128"

abbreviation crt :: uint where "crt \<equiv> 0x800B8000"

definition ctl :: "char \<Rightarrow> int" where
  "ctl x = of_char x - of_char CHR ''@''"

section \<open>The serial port (uart.c)\<close>

text \<open>The wait for the transmitter is bounded, and the byte is sent after it in any case.\<close>

definition uartputc :: "int \<Rightarrow> 'a console_scheme \<Rightarrow> 'a console_scheme" where
  "uartputc c s = (if \<not> uart s then s else s\<lparr>uart_out := uart_out s @ [of_int c]\<rparr>)"

definition uartgetc :: "'a console_scheme \<Rightarrow> int \<times> 'a console_scheme" where
  "uartgetc s =
     (if \<not> uart s then (-1, s)
      else case uart_in s of [] \<Rightarrow> (-1, s) | b # bs \<Rightarrow> (uint b, s\<lparr>uart_in := bs\<rparr>))"

section \<open>The screen\<close>

definition crt_put :: "memory \<Rightarrow> int \<Rightarrow> ushort \<Rightarrow> memory" where
  "crt_put m pos v = m(crt + 2 * of_int pos := ucast v, crt + 2 * of_int pos + 1 := ucast (drop_bit 8 v))"

definition cga_advance :: "int \<Rightarrow> int \<times> memory \<Rightarrow> int \<times> memory" where
  "cga_advance c = (\<lambda>(pos, m).
     if c = of_char (CHR 0x0A) then (pos + (80 - pos mod 80), m)
     else if c = BACKSPACE then (if pos > 0 then pos - 1 else pos, m)
     else (pos + 1, crt_put m pos (of_int c AND 0xFF OR 0x0700)))"

definition cga_scroll :: "int \<times> memory \<Rightarrow> int \<times> memory" where
  "cga_scroll = (\<lambda>(pos, m).
     if pos div 80 \<ge> 24 then
       let m = memmove m crt (crt + 160) (2 * 23 * 80); pos = pos - 80
       in (pos, memset m (crt + 2 * of_int pos) 0 (2 * of_int (24 * 80 - pos)))
     else (pos, m))"

definition cgaputc :: "int \<Rightarrow> 'a console_scheme \<Rightarrow> 'a console_scheme" where
  "cgaputc c s =
     (let (pos, m) = cga_scroll (cga_advance c (uint (crt_pos s), ram s))
      in s\<lparr>crt_pos := of_int pos, ram := crt_put m pos 0x0720\<rparr>)"

definition consputc :: "int \<Rightarrow> 'a console_scheme \<Rightarrow> kerror + 'a console_scheme" where
  "consputc c s =
     (if panicked s then Inl (Spins ''consputc'')
      else Inr (cgaputc c (if c = BACKSPACE then uartputc 8 (uartputc 0x20 (uartputc 8 s)) else uartputc c s)))"

text \<open>\<open>status\<close> is what the line status register of the port reads; it reads all ones when there is no port.\<close>

definition uartinit :: "uchar \<Rightarrow> 'a console_scheme \<Rightarrow> 'a console_scheme" where
  "uartinit status s =
     (if status = 0xFF then s
      else fold (\<lambda>c. uartputc (of_char c)) (''xv6...'' @ [CHR 0x0A]) (s\<lparr>uart := True\<rparr>))"

section \<open>Formatted output\<close>

definition cons_digit :: "uint \<Rightarrow> char" where
  "cons_digit d = ''0123456789abcdef'' ! unat d"

function cons_printint_loop :: "nat \<Rightarrow> uint \<Rightarrow> uint \<Rightarrow> kerror + string" where
  "cons_printint_loop i x b =
     (if i \<ge> 16 then Inl (Fault ''printint: buf'')
      else
        let c = cons_digit (x mod b); x' = x div b
        in if x' \<noteq> 0 then bindE (cons_printint_loop (Suc i) x' b) (\<lambda>cs. Inr (c # cs)) else Inr [c])"
  by pat_completeness auto
termination by (relation "measure (\<lambda>(i, x, b). 16 - i)") auto

declare cons_printint_loop.simps [simp del]

definition cons_printint :: "uint \<Rightarrow> uint \<Rightarrow> bool \<Rightarrow> 'a console_scheme \<Rightarrow> kerror + 'a console_scheme" where
  "cons_printint xx b sg s =
     (let neg = (sg \<and> sint xx < 0)
      in bindE (cons_printint_loop 0 (if neg then - xx else xx) b) (\<lambda>buf.
         if neg \<and> length buf \<ge> 16 then Inl (Fault ''printint: buf'')
         else foldE (\<lambda>c. consputc (of_char c)) (rev (buf @ (if neg then ''-'' else []))) s))"

text \<open>A word of the argument list, or the string a pointer argument leads to (none for a null pointer).\<close>

datatype cparg = CInt uint | CStr "string option"

fun cprintf_loop :: "string \<Rightarrow> cparg list \<Rightarrow> 'a console_scheme \<Rightarrow> kerror + 'a console_scheme" where
  "cprintf_loop [] ap s = Inr s"
| "cprintf_loop [c] ap s = (if c \<noteq> CHR ''%'' then consputc (of_char c) s else Inr s)"
| "cprintf_loop (c # d # fmt) ap s =
     (if c \<noteq> CHR ''%'' then bindE (consputc (of_char c) s) (cprintf_loop (d # fmt) ap)
      else if d = CHR ''d'' then
        (case ap of CInt x # ap' \<Rightarrow> bindE (cons_printint x 10 True s) (cprintf_loop fmt ap')
         | _ \<Rightarrow> Inl (Fault ''cprintf''))
      else if d = CHR ''x'' \<or> d = CHR ''p'' then
        (case ap of CInt x # ap' \<Rightarrow> bindE (cons_printint x 16 False s) (cprintf_loop fmt ap')
         | _ \<Rightarrow> Inl (Fault ''cprintf''))
      else if d = CHR ''s'' then
        (case ap of
           CStr x # ap' \<Rightarrow>
             bindE (foldE (\<lambda>c. consputc (sint (of_char c :: uchar))) (case x of None \<Rightarrow> ''(null)'' | Some t \<Rightarrow> t) s)
               (cprintf_loop fmt ap')
         | _ \<Rightarrow> Inl (Fault ''cprintf''))
      else if d = CHR ''%'' then bindE (consputc (of_char CHR ''%'') s) (cprintf_loop fmt ap)
      else bindE (consputc (of_char CHR ''%'') s) (\<lambda>s. bindE (consputc (of_char d) s) (cprintf_loop fmt ap)))"

definition cprintf :: "string \<Rightarrow> cparg list \<Rightarrow> 'a console_scheme \<Rightarrow> kerror + 'a console_scheme" where
  "cprintf fmt ap s =
     (let locking = cons_locking s
      in bindE (if locking then acquire ConsLock s else Inr s) (\<lambda>s.
         bindE (cprintf_loop fmt ap s) (\<lambda>s.
         if locking then release ConsLock s else Inr s)))"

text \<open>The state in which the processor stays for ever; \<open>v\<close> is the address of the argument on the stack.\<close>

definition panic :: "uint \<Rightarrow> string \<Rightarrow> 'a console_scheme \<Rightarrow> kerror + 'a console_scheme" where
  "panic v msg s =
     (let s = s\<lparr>cpus := (cpus s)(mycpu s := (cpus s (mycpu s))\<lparr>cpu_if := False\<rparr>), cons_locking := False\<rparr>
      in bindE (cprintf ''cpu%d: panic: '' [CInt (of_nat (mycpu s))] s) (\<lambda>s.
         bindE (cprintf msg [] s) (\<lambda>s.
         bindE (cprintf [CHR 0x0A] [] s) (\<lambda>s.
         bindE (foldE (\<lambda>pc. cprintf '' %p'' [CInt pc]) (getcallerpcs (ram s) v) s) (\<lambda>s.
         Inr (s\<lparr>panicked := True\<rparr>))))))"

definition procdump_line ::
    "int \<times> string \<times> string \<times> uint list \<Rightarrow> 'a console_scheme \<Rightarrow> kerror + 'a console_scheme" where
  "procdump_line = (\<lambda>(pid, st, name, pcs) s.
     bindE (cprintf ''%d %s %s'' [CInt (of_int pid), CStr (Some st), CStr (Some name)] s) (\<lambda>s.
     bindE (foldE (\<lambda>pc. cprintf '' %p'' [CInt pc]) pcs s) (cprintf [CHR 0x0A] [])))"

section \<open>Line editing\<close>

text \<open>The loop for control-U runs at most once for each byte after the write index.\<close>

fun kill_line :: "nat \<Rightarrow> 'a console_scheme \<Rightarrow> kerror + 'a console_scheme" where
  "kill_line 0 s = Inr s"
| "kill_line (Suc n) s =
     (if in_e s \<noteq> in_w s \<and> in_buf s (unat (in_e s - 1) mod INPUT_BUF) \<noteq> 0x0A
      then bindE (consputc BACKSPACE (s\<lparr>in_e := in_e s - 1\<rparr>)) (kill_line n)
      else Inr s)"

definition store_key :: "int \<Rightarrow> 'a console_scheme \<Rightarrow> kerror + 'a console_scheme" where
  "store_key c s =
     (let c = (if c = of_char (CHR 0x0D) then of_char (CHR 0x0A) else c);
          s = s\<lparr>in_buf := (in_buf s)(unat (in_e s) mod INPUT_BUF := of_int c), in_e := in_e s + 1\<rparr>
      in bindE (consputc c s) (\<lambda>s.
         if c = of_char (CHR 0x0A) \<or> c = ctl CHR ''D'' \<or> in_e s = in_r s + of_nat INPUT_BUF
         then wakeup ChInput (s\<lparr>in_w := in_e s\<rparr>)
         else Inr s))"

definition console_key :: "int \<Rightarrow> 'a console_scheme \<Rightarrow> kerror + 'a console_scheme" where
  "console_key c s =
     (if c = ctl CHR ''P'' then foldE procdump_line (procdump s) s
      else if c = ctl CHR ''U'' then kill_line (unat (in_e s - in_w s)) s
      else if c = ctl CHR ''H'' \<or> c = 0x7F then
        if in_e s \<noteq> in_w s then consputc BACKSPACE (s\<lparr>in_e := in_e s - 1\<rparr>) else Inr s
      else if c \<noteq> 0 \<and> unat (in_e s - in_r s) < INPUT_BUF then store_key c s
      else Inr s)"

fun consoleintr_loop ::
    "nat \<Rightarrow> ('a console_scheme \<Rightarrow> int \<times> 'a console_scheme) \<Rightarrow> 'a console_scheme \<Rightarrow> kerror + 'a console_scheme" where
  "consoleintr_loop 0 getc s = Inl OutOfFuel"
| "consoleintr_loop (Suc n) getc s =
     (let (c, s) = getc s in if c < 0 then Inr s else bindE (console_key c s) (consoleintr_loop n getc))"

definition consoleintr ::
    "nat \<Rightarrow> ('a console_scheme \<Rightarrow> int \<times> 'a console_scheme) \<Rightarrow> 'a console_scheme \<Rightarrow> kerror + 'a console_scheme" where
  "consoleintr fuel getc s =
     bindE (acquire InputLock s) (\<lambda>s. bindE (consoleintr_loop fuel getc s) (release InputLock))"

definition uartintr :: "'a console_scheme \<Rightarrow> kerror + 'a console_scheme" where
  "uartintr s = consoleintr (Suc (length (uart_in s))) uartgetc s"

section \<open>Reading and writing\<close>

datatype cread = CRead "uchar list" | CKilled "uchar list" | CSleep

fun consoleread_loop :: "nat \<Rightarrow> bool \<Rightarrow> bool \<Rightarrow> 'a console_scheme \<Rightarrow> cread \<times> 'a console_scheme" where
  "consoleread_loop 0 got killed s = (CRead [], s)"
| "consoleread_loop (Suc n) got killed s =
     (if in_r s = in_w s then (if killed then CKilled [] else CSleep, s)
      else
        let c = in_buf s (unat (in_r s) mod INPUT_BUF);
            t = s\<lparr>in_r := in_r s + 1\<rparr>
        in if uint c = ctl CHR ''D'' then (CRead [], if got then s else t)
           else if c = 0x0A then (CRead [c], t)
           else case consoleread_loop n True killed t of
                  (CRead cs, u) \<Rightarrow> (CRead (c # cs), u)
                | (CKilled cs, u) \<Rightarrow> (CKilled (c # cs), u)
                | (CSleep, u) \<Rightarrow> (CSleep, u))"

definition consoleread :: "nat \<Rightarrow> uint \<Rightarrow> 'a console_scheme \<Rightarrow> kerror + (int \<times> uchar list \<times> 'a console_scheme)" where
  "consoleread ip n s =
     bindE (iunlock (Some ip) s) (\<lambda>s.
     bindE (acquire InputLock s) (\<lambda>s.
     bindE (myproc s) (\<lambda>me.
     case consoleread_loop (nat (sint n)) False (p_killed (procs s ! me)) s of
       (CSleep, s) \<Rightarrow> Inl (Sleeps ''consoleread'')
     | (CKilled cs, s) \<Rightarrow>
         bindE (release InputLock s) (\<lambda>s. bindE (ilock (Some ip) s) (\<lambda>s. Inr (-1, cs, s)))
     | (CRead cs, s) \<Rightarrow>
         bindE (release InputLock s) (\<lambda>s. bindE (ilock (Some ip) s) (\<lambda>s. Inr (int (length cs), cs, s))))))"

definition consolewrite :: "nat \<Rightarrow> uchar list \<Rightarrow> 'a console_scheme \<Rightarrow> kerror + (int \<times> 'a console_scheme)" where
  "consolewrite ip bytes s =
     bindE (iunlock (Some ip) s) (\<lambda>s.
     bindE (acquire ConsLock s) (\<lambda>s.
     bindE (foldE (\<lambda>b. consputc (uint b)) bytes s) (\<lambda>s.
     bindE (release ConsLock s) (\<lambda>s.
     bindE (ilock (Some ip) s) (\<lambda>s. Inr (int (length bytes), s))))))"

definition consoleinit :: "'a console_scheme \<Rightarrow> 'a console_scheme" where
  "consoleinit s = (initlock InputLock (initlock ConsLock s))\<lparr>cons_locking := True\<rparr>"

text \<open>The entry of the device table \<open>consoleinit\<close> fills in.\<close>

definition console_devread :: "'a console_scheme devread" where
  "console_devread = [1 \<mapsto> consoleread]"

definition console_devwrite :: "'a console_scheme devwrite" where
  "console_devwrite = [1 \<mapsto> consolewrite]"

end
