(* ===== verification/Console_Line.thy ===== *)
theory Console_Line
  imports Console Pipes
begin

text \<open>
  The console's line discipline: the input ring holds the lines that were finished and the line being
  edited, every key changes them as an editor would, and a reader takes finished lines in order. The
  screen driver stays inside the screen.
\<close>

section \<open>The input ring as two lists\<close>

definition ringl :: "(nat \<Rightarrow> uchar) \<Rightarrow> uint \<Rightarrow> nat \<Rightarrow> uchar list" where
  "ringl buf r n = map (\<lambda>i. buf ((unat r + i) mod INPUT_BUF)) [0..<n]"

definition typed :: "'a console_scheme \<Rightarrow> uchar list" where
  "typed s = ringl (in_buf s) (in_r s) (unat (in_e s - in_r s))"

definition committed :: "'a console_scheme \<Rightarrow> uchar list" where
  "committed s = take (unat (in_w s - in_r s)) (typed s)"

definition editing :: "'a console_scheme \<Rightarrow> uchar list" where
  "editing s = drop (unat (in_w s - in_r s)) (typed s)"

definition input_ok :: "'a console_scheme \<Rightarrow> bool" where
  "input_ok s \<longleftrightarrow> unat (in_w s - in_r s) \<le> unat (in_e s - in_r s) \<and> unat (in_e s - in_r s) \<le> INPUT_BUF"

lemma ring_slot: "unat (a + of_nat k :: uint) mod 128 = (unat a + k) mod 128"
proof -
  have "unat (a + of_nat k) = (unat a + k) mod 2 ^ 32" by (simp add: unat_word_ariths unat_of_nat mod_simps)
  then show ?thesis by (simp add: mod_mod_cancel)
qed

lemma ring128_inj:
  assumes "(a + j) mod 128 = (a + k) mod 128" and "j < k" "k < (128 :: nat)"
  shows False
proof -
  have "128 dvd (a + k) - (a + j)"
    by (rule iffD1 [OF mod_eq_dvd_iff_nat]) (use assms in simp_all)
  then have "128 dvd k - j" by (simp only: add_diff_cancel_left)
  then show False using dvd_imp_le [of 128 "k - j"] assms(2,3) by linarith
qed

lemma length_ringl [simp]: "length (ringl buf r n) = n"
  by (simp add: ringl_def)

lemma ringl_snoc: "n < 128 \<Longrightarrow> ringl (buf((unat r + n) mod 128 := b)) r (Suc n) = ringl buf r n @ [b]"
  by (auto simp: ringl_def dest: ring128_inj [of "unat r" _ n])

lemma ringl_Suc: "ringl buf r (Suc n) = ringl buf r n @ [buf ((unat r + n) mod 128)]"
  by (simp add: ringl_def)

lemma ringl_Cons: "ringl buf r (Suc n) = buf (unat r mod 128) # ringl buf (r + 1) n"
proof -
  have "(unat r + Suc i) mod 128 = (unat (r + 1) + i) mod 128" for i
    using ring_slot [of r "Suc i"] ring_slot [of "r + 1" i] by (simp add: algebra_simps)
  then show ?thesis
    by (simp add: ringl_def upt_conv_Cons map_Suc_upt [symmetric] comp_def del: upt_Suc)
qed

lemma edit_split: "typed s = committed s @ editing s"
  by (simp add: committed_def editing_def)

lemma length_typed: "length (typed s) = unat (in_e s - in_r s)"
  by (simp add: typed_def)

lemma length_committed: "input_ok s \<Longrightarrow> length (committed s) = unat (in_w s - in_r s)"
  by (simp add: committed_def length_typed input_ok_def)

lemma edit_index: "unat (in_e s) mod 128 = (unat (in_r s) + length (typed s)) mod 128"
  using ring_slot [of "in_r s" "length (typed s)"] by (simp add: length_typed)

lemma editing_Nil: "input_ok s \<Longrightarrow> editing s = [] \<longleftrightarrow> in_e s = in_w s"
proof -
  assume "input_ok s"
  then have "editing s = [] \<longleftrightarrow> unat (in_e s - in_r s) = unat (in_w s - in_r s)"
    by (auto simp: editing_def length_typed input_ok_def)
  also have "\<dots> \<longleftrightarrow> in_e s - in_r s = in_w s - in_r s" by (simp only: word_unat_eq_iff)
  finally show ?thesis by simp
qed

text \<open>Deleting the last byte.\<close>

lemma edit_back:
  assumes "input_ok s" and "in_e s \<noteq> in_w s"
  shows "typed (s\<lparr>in_e := in_e s - 1\<rparr>) = butlast (typed s)" "input_ok (s\<lparr>in_e := in_e s - 1\<rparr>)"
    "committed (s\<lparr>in_e := in_e s - 1\<rparr>) = committed s" "editing (s\<lparr>in_e := in_e s - 1\<rparr>) = butlast (editing s)"
    "in_buf s (unat (in_e s - 1) mod 128) = last (editing s)" "editing s \<noteq> []"
proof -
  let ?n = "unat (in_e s - in_r s)" let ?k = "unat (in_w s - in_r s)"
  have lt: "?k < ?n" using assms editing_Nil [of s] by (auto simp: editing_def length_typed)
  then have "in_e s - in_r s \<noteq> 0" by (metis less_nat_zero_code unat_0)
  then have "unat (in_e s - in_r s - 1) = ?n - 1" by (metis unat_minus_one)
  then have n: "unat (in_e s - 1 - in_r s) = ?n - 1" by (simp add: algebra_simps)
  obtain m where m: "?n = Suc m" using lt by (cases ?n) auto
  show t: "typed (s\<lparr>in_e := in_e s - 1\<rparr>) = butlast (typed s)"
    using n m by (simp add: typed_def ringl_Suc)
  show "input_ok (s\<lparr>in_e := in_e s - 1\<rparr>)" using assms(1) n lt unfolding input_ok_def by auto
  show "committed (s\<lparr>in_e := in_e s - 1\<rparr>) = committed s"
    using lt by (simp add: committed_def t take_butlast length_typed)
  show "editing (s\<lparr>in_e := in_e s - 1\<rparr>) = butlast (editing s)"
    by (simp add: editing_def t drop_butlast)
  show ne: "editing s \<noteq> []" using editing_Nil assms by blast
  have "m = unat (in_e s - 1 - in_r s)" using n m by simp
  then have "in_e s - 1 = in_r s + of_nat m" by simp
  then have "in_buf s (unat (in_e s - 1) mod 128) = last (typed s)"
    using ring_slot [of "in_r s" m] m by (simp add: typed_def ringl_Suc)
  also have "\<dots> = last (editing s)" using ne by (simp add: edit_split)
  finally show "in_buf s (unat (in_e s - 1) mod 128) = last (editing s)" .
qed

text \<open>Appending a byte, and finishing the line.\<close>

lemma edit_store:
  fixes s :: "'a console_scheme" and b :: uchar
  assumes "input_ok s" and "length (typed s) < 128"
  defines "t \<equiv> s\<lparr>in_buf := (in_buf s)(unat (in_e s) mod 128 := b), in_e := in_e s + 1\<rparr>"
  shows "typed t = typed s @ [b]" "input_ok t" "committed t = committed s" "editing t = editing s @ [b]"
proof -
  let ?n = "unat (in_e s - in_r s)"
  have lt: "?n < 128" using assms(2) by (simp add: length_typed)
  then have "unat (in_e s - in_r s + 1) = Suc ?n" by (simp add: unat_word_ariths)
  then have n: "unat (in_e s + 1 - in_r s) = Suc ?n" by (simp add: algebra_simps)
  show t: "typed t = typed s @ [b]"
    using ringl_snoc [OF lt, of "in_buf s" "in_r s" b] n edit_index [of s]
    by (simp add: t_def typed_def length_typed)
  show "input_ok t" using assms(1) n lt by (simp add: input_ok_def t_def)
  have w: "unat (in_w t - in_r t) = unat (in_w s - in_r s)" by (simp add: t_def)
  show "committed t = committed s" "editing t = editing s @ [b]"
    using assms(1) by (simp_all add: committed_def editing_def t w length_typed input_ok_def)
qed

lemma edit_commit:
  assumes "input_ok s"
  shows "input_ok (s\<lparr>in_w := in_e s\<rparr>)" "committed (s\<lparr>in_w := in_e s\<rparr>) = typed s" "editing (s\<lparr>in_w := in_e s\<rparr>) = []"
  using assms by (simp_all add: input_ok_def committed_def editing_def typed_def)

section \<open>Keys\<close>

definition console_ready :: "'a console_scheme \<Rightarrow> bool" where
  "console_ready s \<longleftrightarrow> \<not> panicked s \<and> ptable_idle s \<and> inswapper s \<noteq> None"

text \<open>Output and wakeup leave the input ring alone.\<close>

definition same_input :: "'a console_scheme \<Rightarrow> 'a console_scheme \<Rightarrow> bool" where
  "same_input s t \<longleftrightarrow> in_buf t = in_buf s \<and> in_r t = in_r s \<and> in_w t = in_w s \<and> in_e t = in_e s"

lemma same_inputD:
  assumes "same_input s t"
  shows "typed t = typed s" "committed t = committed s" "editing t = editing s" "input_ok t = input_ok s"
  using assms by (simp_all add: same_input_def typed_def committed_def editing_def input_ok_def)

lemma consputc_same:
  assumes "console_ready s"
  shows "\<exists>t. consputc c s = Inr t \<and> console_ready t \<and> same_input s t"
  using assms
  by (simp add: consputc_def console_ready_def same_input_def ptable_idle_def lock_free_def cli_ok_def cgaputc_def
      uartputc_def split_def Let_def)

lemma wakeup_same:
  assumes "console_ready s"
  shows "\<exists>t. wakeup ch s = Inr t \<and> console_ready t \<and> same_input s t"
proof -
  obtain k where k: "inswapper s = Some k" and idle: "ptable_idle s" and p: "\<not> panicked s"
    using assms by (auto simp: console_ready_def)
  obtain ps n where w: "wakeup ch s = Inr (s\<lparr>procs := ps, swappedout := n, cpus := cpus (after_cli s)\<rparr>)"
    using wakeup_frame [OF idle k] by blast
  show ?thesis
    using idle k p unfolding w
    by (simp add: console_ready_def same_input_def ptable_idle_def lock_free_def cli_ok_def after_cli_def cli_visited_def)
qed

text \<open>What a key does to the finished bytes and the line being edited.\<close>

definition key_spec :: "int \<Rightarrow> uchar list \<times> uchar list \<Rightarrow> uchar list \<times> uchar list" where
  "key_spec c = (\<lambda>(com, ed).
     if c = ctl CHR ''U'' then (com, rev (dropWhile (\<lambda>b. b \<noteq> 0x0A) (rev ed)))
     else if c = ctl CHR ''H'' \<or> c = 0x7F then (com, butlast ed)
     else if c \<noteq> 0 \<and> length com + length ed < INPUT_BUF then
       let c' = (if c = 0x0D then 0x0A else c)
       in if c' = 0x0A \<or> c' = ctl CHR ''D'' \<or> length com + length ed + 1 = INPUT_BUF
          then (com @ ed @ [of_int c'], []) else (com, ed @ [of_int c'])
     else (com, ed))"

lemma kill_line_edit:
  fixes s :: "'a console_scheme"
  assumes "console_ready s" and "input_ok s" and "n = length (editing s)"
  shows "\<exists>t. kill_line n s = Inr t \<and> console_ready t \<and> input_ok t \<and> in_r t = in_r s \<and> committed t = committed s \<and>
    editing t = rev (dropWhile (\<lambda>b. b \<noteq> 0x0A) (rev (editing s)))"
  using assms
proof (induction n arbitrary: s)
  case 0
  then show ?case by simp
next
  case (Suc n)
  then have ne: "in_e s \<noteq> in_w s" using editing_Nil [of s] by auto
  note b = edit_back [OF Suc.prems(2) ne]
  obtain xs x where e: "editing s = xs @ [x]" using b(6) by (cases "editing s" rule: rev_cases) auto
  show ?case
  proof (cases "x = 0x0A")
    case True
    then show ?thesis using Suc.prems b(5) e by (intro exI [of _ s]) simp
  next
    case False
    let ?s = "s\<lparr>in_e := in_e s - 1\<rparr>"
    have "console_ready ?s"
      using Suc.prems(1) by (simp add: console_ready_def ptable_idle_def lock_free_def cli_ok_def)
    then obtain u where u: "consputc BACKSPACE ?s = Inr u" "console_ready u" "same_input ?s u"
      using consputc_same by blast
    note su = same_inputD [OF u(3)]
    have "n = length (editing u)" using Suc.prems(3) su(3) b(4) by simp
    from Suc.IH [OF u(2) _ this] obtain t where
      "kill_line n u = Inr t" "console_ready t" "input_ok t" "in_r t = in_r u" "committed t = committed u"
      "editing t = rev (dropWhile (\<lambda>b. b \<noteq> 0x0A) (rev (editing u)))"
      using su(4) b(2) by auto
    then show ?thesis
      using ne b e False u(1,3) su by (intro exI [of _ t]) (simp add: same_input_def)
  qed
qed

lemma store_key_edit:
  fixes s :: "'a console_scheme" and c :: int
  assumes "console_ready s" and "input_ok s" and "length (typed s) < 128"
  defines "c' \<equiv> if c = 0x0D then 0x0A else c"
  shows "\<exists>t. store_key c s = Inr t \<and> console_ready t \<and> input_ok t \<and> in_r t = in_r s \<and>
    (committed t, editing t) =
      (if c' = 0x0A \<or> c' = ctl CHR ''D'' \<or> length (typed s) + 1 = 128
       then (typed s @ [of_int c'], []) else (committed s, editing s @ [of_int c']))"
proof -
  let ?s = "s\<lparr>in_buf := (in_buf s)(unat (in_e s) mod 128 := of_int c'), in_e := in_e s + 1\<rparr>"
  note st = edit_store [OF assms(2,3), of "of_int c'"]
  have "console_ready ?s"
    using assms(1) by (simp add: console_ready_def ptable_idle_def lock_free_def cli_ok_def)
  then obtain u where u: "consputc c' ?s = Inr u" "console_ready u" "same_input ?s u" using consputc_same by blast
  note su = same_inputD [OF u(3)]
  have r: "in_r u = in_r s" using u(3) by (simp add: same_input_def)
  have "in_e u = in_r u + 128 \<longleftrightarrow> in_e u - in_r u = 128" by (auto simp: algebra_simps)
  also have "\<dots> \<longleftrightarrow> unat (in_e u - in_r u) = unat (128 :: uint)" by (simp only: word_unat_eq_iff)
  also have "\<dots> \<longleftrightarrow> length (typed s) + 1 = 128" using su(1) st(1) length_typed [of u] by simp
  finally have full: "in_e u = in_r u + 128 \<longleftrightarrow> length (typed s) + 1 = 128" .
  have key: "store_key c s = (if c' = 0x0A \<or> c' = ctl CHR ''D'' \<or> in_e u = in_r u + 128
      then wakeup ChInput (u\<lparr>in_w := in_e u\<rparr>) else Inr u)"
  proof -
    have nums: "(of_char (CHR 0x0D) :: int) = 0x0D" "(of_char (CHR 0x0A) :: int) = 0x0A" "(of_nat 128 :: uint) = 128"
      by simp_all
    show ?thesis unfolding store_key_def Let_def nums c'_def [symmetric] u(1) bindE_Inr ..
  qed
  show ?thesis
  proof (cases "c' = 0x0A \<or> c' = ctl CHR ''D'' \<or> length (typed s) + 1 = 128")
    case True
    have "console_ready (u\<lparr>in_w := in_e u\<rparr>)"
      using u(2) by (simp add: console_ready_def ptable_idle_def lock_free_def cli_ok_def)
    then obtain t where t: "wakeup ChInput (u\<lparr>in_w := in_e u\<rparr>) = Inr t" "console_ready t" "same_input (u\<lparr>in_w := in_e u\<rparr>) t"
      using wakeup_same by blast
    have "in_r t = in_r s" using t(3) r by (simp add: same_input_def)
    then show ?thesis
      using True t key full same_inputD [OF t(3)] edit_commit [of u] su st by (intro exI [of _ t]) auto
  next
    case False
    then show ?thesis using u(2) key full su st r by (intro exI [of _ u]) auto
  qed
qed

text \<open>
  (C12) Every key but the request for a process listing does to the input what a line editor does: it appends to
  the line, deletes its last byte or all of it, or finishes the line and wakes the readers; a full buffer drops the
  key. The ring never holds more than 128 bytes.
\<close>

theorem console_key_edits:
  fixes s :: "'a console_scheme"
  assumes "console_ready s" and "input_ok s" and "c \<noteq> ctl CHR ''P''"
  shows "\<exists>t. console_key c s = Inr t \<and> console_ready t \<and> input_ok t \<and> in_r t = in_r s \<and>
    (committed t, editing t) = key_spec c (committed s, editing s)"
proof -
  have len: "length (committed s) + length (editing s) = length (typed s)" by (metis edit_split length_append)
  have dist: "unat (in_e s - in_r s) = length (typed s)" by (simp add: length_typed)
  consider "c = ctl CHR ''U''" | "c \<noteq> ctl CHR ''U''" "c = ctl CHR ''H'' \<or> c = 0x7F"
    | "c \<noteq> ctl CHR ''U''" "c \<noteq> ctl CHR ''H''" "c \<noteq> 0x7F" by blast
  then show ?thesis
  proof cases
    case 1
    have "in_w s - in_r s \<le> in_e s - in_r s" using assms(2) by (simp add: input_ok_def word_le_nat_alt)
    then have "unat (in_e s - in_r s - (in_w s - in_r s)) = length (editing s)"
      by (simp only: unat_sub) (simp add: editing_def length_typed)
    then have "unat (in_e s - in_w s) = length (editing s)" by simp
    then show ?thesis
      using kill_line_edit [OF assms(1,2) refl] 1 assms(3) by (simp add: console_key_def key_spec_def)
  next
    case 2
    show ?thesis
    proof (cases "in_e s = in_w s")
      case True
      then show ?thesis
        using 2 assms editing_Nil [of s] by (intro exI [of _ s]) (simp add: console_key_def key_spec_def)
    next
      case False
      let ?s = "s\<lparr>in_e := in_e s - 1\<rparr>"
      have "console_ready ?s"
        using assms(1) by (simp add: console_ready_def ptable_idle_def lock_free_def cli_ok_def)
      then obtain u where u: "consputc BACKSPACE ?s = Inr u" "console_ready u" "same_input ?s u" using consputc_same by blast
      have "in_r u = in_r s" using u(3) by (simp add: same_input_def)
      then show ?thesis
        using 2 False assms(3) u same_inputD [OF u(3)] edit_back [OF assms(2) False]
        by (intro exI [of _ u]) (simp add: console_key_def key_spec_def)
    qed
  next
    case 3
    show ?thesis
    proof (cases "c \<noteq> 0 \<and> length (typed s) < 128")
      case True
      let ?c = "if c = 0x0D then 0x0A else c"
      have app: "committed s @ editing s @ [b] = typed s @ [b]" for b by (metis edit_split append.assoc)
      have "console_key c s = store_key c s" using True 3 assms(3) dist by (simp add: console_key_def)
      moreover have "key_spec c (committed s, editing s) =
          (if ?c = 0x0A \<or> ?c = ctl CHR ''D'' \<or> length (typed s) + 1 = 128
           then (typed s @ [of_int ?c], []) else (committed s, editing s @ [of_int ?c]))"
        unfolding key_spec_def prod.case len app Let_def using True 3 by simp
      ultimately show ?thesis using store_key_edit [OF assms(1,2), of c] True by simp
    next
      case False
      then show ?thesis
        using 3 assms len dist by (intro exI [of _ s]) (auto simp: console_key_def key_spec_def)
    qed
  qed
qed

section \<open>Reading\<close>

fun read_spec :: "nat \<Rightarrow> bool \<Rightarrow> bool \<Rightarrow> uchar list \<Rightarrow> cread \<times> uchar list" where
  "read_spec 0 got killed com = (CRead [], com)"
| "read_spec (Suc n) got killed [] = (if killed then CKilled [] else CSleep, [])"
| "read_spec (Suc n) got killed (c # com) =
     (if c = 4 then (CRead [], if got then c # com else com)
      else if c = 0x0A then (CRead [c], com)
      else case read_spec n True killed com of
             (CRead cs, r) \<Rightarrow> (CRead (c # cs), r)
           | (CKilled cs, r) \<Rightarrow> (CKilled (c # cs), r)
           | (CSleep, r) \<Rightarrow> (CSleep, r))"

lemma committed_Nil: "input_ok s \<Longrightarrow> committed s = [] \<longleftrightarrow> in_r s = in_w s"
  using length_committed [of s] by (auto simp: unat_eq_0 dest: sym)

lemma read_byte:
  fixes s :: "'a console_scheme"
  assumes "input_ok s" and "in_r s \<noteq> in_w s"
  defines "t \<equiv> s\<lparr>in_r := in_r s + 1\<rparr>"
  shows "committed s = in_buf s (unat (in_r s) mod 128) # committed t" "editing t = editing s" "input_ok t"
proof -
  have pred: "unat (x - (in_r s + 1)) = unat (x - in_r s) - 1" if "x - in_r s \<noteq> 0" for x
    using that unat_minus_one [of "x - in_r s"] by (simp add: algebra_simps)
  have w: "in_w s - in_r s \<noteq> 0" using assms(2) by auto
  then have w1: "0 < unat (in_w s - in_r s)" by (simp add: unat_gt_0)
  then have e: "in_e s - in_r s \<noteq> 0" using assms(1) by (auto simp: input_ok_def)
  obtain k m where k: "unat (in_w s - in_r s) = Suc k" and m: "unat (in_e s - in_r s) = Suc m"
    using w e by (metis not0_implies_Suc unat_eq_0)
  have t: "unat (in_w t - in_r t) = k" "unat (in_e t - in_r t) = m" "in_buf t = in_buf s" "in_r t = in_r s + 1"
    using pred [OF w] pred [OF e] k m by (simp_all add: t_def)
  have "typed s = in_buf s (unat (in_r s) mod 128) # typed t"
    unfolding typed_def m t(2,3) unfolding t(4) by (rule ringl_Cons)
  then show "committed s = in_buf s (unat (in_r s) mod 128) # committed t" "editing t = editing s"
    unfolding committed_def editing_def t(1) k by simp_all
  show "input_ok t" using assms(1) unfolding input_ok_def t(1,2) k m by simp
qed

text \<open>
  (C13) Reading the console takes the finished bytes in order, up to the count, to the end of a line or to an
  end-of-file mark. The mark is consumed only when it is the first thing read, so the next read reports the end
  of file; a reader that finds nothing sleeps, or fails when it was killed. The line being edited is not touched.
\<close>

theorem consoleread_takes_lines:
  fixes s :: "'a console_scheme"
  assumes "input_ok s"
  shows "\<exists>t. consoleread_loop n got killed s = (fst (read_spec n got killed (committed s)), t) \<and>
    committed t = snd (read_spec n got killed (committed s)) \<and> editing t = editing s \<and> input_ok t"
  using assms
proof (induction n arbitrary: got s)
  case 0
  then show ?case by simp
next
  case (Suc n)
  show ?case
  proof (cases "in_r s = in_w s")
    case True
    then have "committed s = []" using committed_Nil [OF Suc.prems] by simp
    then show ?thesis using True Suc.prems by simp
  next
    case False
    let ?t = "s\<lparr>in_r := in_r s + 1\<rparr>" let ?c = "in_buf s (unat (in_r s) mod 128)"
    note b = read_byte [OF Suc.prems False]
    obtain u where u: "consoleread_loop n True killed ?t = (fst (read_spec n True killed (committed ?t)), u)"
      "committed u = snd (read_spec n True killed (committed ?t))" "editing u = editing ?t" "input_ok u"
      using Suc.IH [OF b(3), of True] by blast
    have d: "uint ?c = ctl CHR ''D'' \<longleftrightarrow> ?c = 4" by (simp add: ctl_def word_uint_eq_iff)
    show ?thesis
      unfolding consoleread_loop.simps b(1) read_spec.simps Let_def d if_not_P [OF False]
      using b u Suc.prems by (cases "read_spec n True killed (committed ?t)") (auto split: cread.splits)
  qed
qed

section \<open>A concrete console\<close>

definition a_console :: console where
  "a_console = kproc.extend
     (shm.extend (ftable.extend (a_ftable sleepers [] a_pipe) (shm.fields (\<lambda>_ _. 0) (\<lambda>_ _ _. 0)))
       (kproc.fields False 0 0 0))
     (console.fields True False 0 True [] [] [] 0 (\<lambda>_. 0x61) 0xFFFFFFFE 0 1)"

theorem console_key_edits_witness:
  "\<exists>t. console_key 0x0D a_console = Inr t \<and> committed t = [0x61, 0x61, 0x61, 0x0A] \<and> editing t = []"
proof -
  have "console_ready a_console" "input_ok a_console" "0x0D \<noteq> ctl CHR ''P''"
    "key_spec 0x0D (committed a_console, editing a_console) = ([0x61, 0x61, 0x61, 0x0A], [])"
    by code_simp+
  with console_key_edits [of a_console "0x0D"] show ?thesis by auto
qed

theorem consoleread_takes_lines_witness:
  "\<exists>t. consoleread_loop 1 False False a_console = (CRead [0x61], t) \<and> committed t = [0x61] \<and> editing t = [0x61]"
proof -
  have "input_ok a_console" "read_spec 1 False False (committed a_console) = (CRead [0x61], [0x61])"
    "editing a_console = [0x61]" by code_simp+
  with consoleread_takes_lines [of a_console 1 False False] show ?thesis by auto
qed

end
