(* ===== verification/Kbd.thy ===== *)
theory Kbd
  imports Console_Line
begin

text \<open>
  The keyboard driver of \<^verbatim>\<open>kbd.c\<close> with the key tables of \<^verbatim>\<open>kbd.h\<close>.
\<close>

section \<open>Key tables\<close>

text \<open>A C array given by its first elements and by designated ones; the others are zero.\<close>

definition key_table :: "uchar list \<Rightarrow> (uchar \<times> uchar) list \<Rightarrow> uchar \<Rightarrow> uchar" where
  "key_table xs ys d =
     (case map_of ys d of Some v \<Rightarrow> v | None \<Rightarrow> if unat d < length xs then xs ! unat d else 0)"

definition KB_SHIFT :: uint where "KB_SHIFT = 1"
definition KB_CTL :: uint where "KB_CTL = 2"
definition KB_CAPSLOCK :: uint where "KB_CAPSLOCK = 8"
definition KB_E0ESC :: uint where "KB_E0ESC = 64"

definition shiftcode :: "uchar \<Rightarrow> uchar" where
  "shiftcode = key_table
     []
     [(0x1D, 2), (0x2A, 1), (0x36, 1), (0x38, 4), (0x9D, 2), (0xB8, 4)]"

definition togglecode :: "uchar \<Rightarrow> uchar" where
  "togglecode = key_table
     []
     [(0x3A, 8), (0x45, 16), (0x46, 32)]"

definition normalmap :: "uchar \<Rightarrow> uchar" where
  "normalmap = key_table
     [0, 27, 49, 50, 51, 52, 53, 54, 55, 56, 57, 48, 45, 61, 8, 9,
      113, 119, 101, 114, 116, 121, 117, 105, 111, 112, 91, 93, 10, 0, 97, 115,
      100, 102, 103, 104, 106, 107, 108, 59, 39, 96, 0, 92, 122, 120, 99, 118,
      98, 110, 109, 44, 46, 47, 0, 42, 0, 32, 0, 0, 0, 0, 0, 0,
      0, 0, 0, 0, 0, 0, 0, 55, 56, 57, 45, 52, 53, 54, 43, 49,
      50, 51, 48, 46, 0, 0, 0, 0]
     [(0x9C, 10), (0xB5, 47), (0xC8, 226), (0xD0, 227), (0xC9, 230), (0xD1, 231), (0xCB, 228), (0xCD, 229), (0x97, 224), (0xCF, 225), (0xD2, 232), (0xD3, 233)]"

definition shiftmap :: "uchar \<Rightarrow> uchar" where
  "shiftmap = key_table
     [0, 27, 33, 64, 35, 36, 37, 94, 38, 42, 40, 41, 95, 43, 8, 9,
      81, 87, 69, 82, 84, 89, 85, 73, 79, 80, 123, 125, 10, 0, 65, 83,
      68, 70, 71, 72, 74, 75, 76, 58, 34, 126, 0, 124, 90, 88, 67, 86,
      66, 78, 77, 60, 62, 63, 0, 42, 0, 32, 0, 0, 0, 0, 0, 0,
      0, 0, 0, 0, 0, 0, 0, 55, 56, 57, 45, 52, 53, 54, 43, 49,
      50, 51, 48, 46, 0, 0, 0, 0]
     [(0x9C, 10), (0xB5, 47), (0xC8, 226), (0xD0, 227), (0xC9, 230), (0xD1, 231), (0xCB, 228), (0xCD, 229), (0x97, 224), (0xCF, 225), (0xD2, 232), (0xD3, 233)]"

definition ctlmap :: "uchar \<Rightarrow> uchar" where
  "ctlmap = key_table
     [0, 0, 0, 0, 0, 0, 0, 0, 0, 0, 0, 0, 0, 0, 0, 0,
      17, 23, 5, 18, 20, 25, 21, 9, 15, 16, 0, 0, 13, 0, 1, 19,
      4, 6, 7, 8, 10, 11, 12, 0, 0, 0, 0, 28, 26, 24, 3, 22,
      2, 14, 13, 0, 0, 239, 0, 0]
     [(0x9C, 13), (0xB5, 239), (0xC8, 226), (0xD0, 227), (0xC9, 230), (0xD1, 231), (0xCB, 228), (0xCD, 229), (0x97, 224), (0xCF, 225), (0xD2, 232), (0xD3, 233)]"

section \<open>The driver\<close>

definition charcode :: "uint \<Rightarrow> uchar \<Rightarrow> uchar" where
  "charcode k = (if k = 0 then normalmap else if k = 1 then shiftmap else ctlmap)"

definition capitals :: "uint \<Rightarrow> uint" where
  "capitals c = (if 0x61 \<le> c \<and> c \<le> 0x7A then c - 0x20 else if 0x41 \<le> c \<and> c \<le> 0x5A then c + 0x20 else c)"

definition kbd_press :: "uchar \<Rightarrow> uint \<Rightarrow> uint \<times> uint" where
  "kbd_press data shift =
     (let shift = (shift OR ucast (shiftcode data)) XOR ucast (togglecode data);
          c = ucast (charcode (shift AND (KB_CTL OR KB_SHIFT)) data)
      in (if shift AND KB_CAPSLOCK \<noteq> 0 then capitals c else c, shift))"

definition kbdgetc :: "'a console_scheme \<Rightarrow> int \<times> 'a console_scheme" where
  "kbdgetc s =
     (case kbd_in s of
        [] \<Rightarrow> (-1, s)
      | data # rest \<Rightarrow>
          let s = s\<lparr>kbd_in := rest\<rparr>; shift = kbd_shift s
          in if data = 0xE0 then (0, s\<lparr>kbd_shift := shift OR KB_E0ESC\<rparr>)
             else if data AND 0x80 \<noteq> 0 then
               let data = (if shift AND KB_E0ESC \<noteq> 0 then data else data AND 0x7F)
               in (0, s\<lparr>kbd_shift := shift AND NOT (ucast (shiftcode data) OR KB_E0ESC)\<rparr>)
             else
               let (data, shift) = (if shift AND KB_E0ESC \<noteq> 0 then (data OR 0x80, shift AND NOT KB_E0ESC) else (data, shift));
                   (c, shift) = kbd_press data shift
               in (sint c, s\<lparr>kbd_shift := shift\<rparr>))"

definition kbdintr :: "'a console_scheme \<Rightarrow> kerror + 'a console_scheme" where
  "kbdintr s = consoleintr (Suc (length (kbd_in s))) kbdgetc s"

section \<open>Values of the driver\<close>

lemma key_table_less:
  assumes "list_all (\<lambda>x. x < k) xs" and "list_all (\<lambda>(a, b). b < k) ys" and "0 < k"
  shows "key_table xs ys d < k"
proof (cases "map_of ys d")
  case None
  then show ?thesis using assms(1,3) by (simp add: key_table_def list_all_length)
next
  case (Some v)
  then have "(d, v) \<in> set ys" by (rule map_of_SomeD)
  then show ?thesis using assms(2) Some by (auto simp: key_table_def list_all_iff)
qed

lemma modifier_codes: "shiftcode d < 0x40" "togglecode d < 0x40"
  unfolding shiftcode_def togglecode_def by (rule key_table_less; simp)+

lemma less_bits: "(x :: uint) < 0x80 \<longleftrightarrow> take_bit 7 x = x"
  by (simp only: word_less_nat_alt word_unat_eq_iff unsigned_take_bit_eq take_bit_nat_eq_self_iff) simp

lemma modifier_ucast: "(x :: uchar) < 0x40 \<Longrightarrow> (ucast x :: uint) < 0x80"
  by (simp add: word_less_nat_alt unsigned_ucast_eq) (rule le_less_trans [OF take_bit_nat_less_eq_self], simp)

lemma modifier_ops:
  fixes x y :: uint
  assumes "x < 0x80" and "y < 0x80"
  shows "x OR y < 0x80" "x XOR y < 0x80" "x AND z < 0x80"
proof -
  show "x OR y < 0x80" "x XOR y < 0x80" using assms by (simp_all add: less_bits)
  show "x AND z < 0x80" using assms(1) unfolding less_bits take_bit_eq_mask by (metis and.assoc and.commute)
qed

lemma capitals_less:
  assumes "c < 0x100"
  shows "capitals c < 0x100"
proof -
  have "c - 0x20 < 0x100" if "0x61 \<le> c"
  proof -
    have "0x20 \<le> c" using that by (simp add: word_le_nat_alt)
    then have "unat (c - 0x20) = unat c - 32" by (simp add: unat_sub)
    then show ?thesis using assms by (simp add: word_less_nat_alt)
  qed
  moreover have "c + 0x20 < 0x100" if "c \<le> 0x5A"
    using that by (simp add: word_less_nat_alt word_le_nat_alt unat_word_ariths)
  ultimately show ?thesis using assms by (simp add: capitals_def)
qed



end
