(* ===== verification/Sysproc.thy ===== *)
theory Sysproc
  imports Exec Kbd
begin

text \<open>
  The process and memory calls of \<^verbatim>\<open>sysproc.c\<close>, the dispatcher of \<^verbatim>\<open>syscall.c\<close> and the trap
  handler of \<^verbatim>\<open>trap.c\<close>.
\<close>

section \<open>Calls (sysproc.c)\<close>

text \<open>A call returns a value, or gives up the processor and is continued by a definition of its own.\<close>

datatype sysresult = Ret int | Switched bool

definition ret :: "kerror + (int \<times> 's) \<Rightarrow> kerror + (sysresult \<times> 's)" where
  "ret m = bindE m (\<lambda>(r, s). Inr (Ret r, s))"

definition switched :: "kerror + (bool \<times> 's) \<Rightarrow> kerror + (sysresult \<times> 's)" where
  "switched m = bindE m (\<lambda>(i, s). Inr (Switched i, s))"

definition sys_fork :: "'a ftable_scheme \<Rightarrow> kerror + (int \<times> 'a ftable_scheme)" where
  "sys_fork s = fork s"

definition sys_exit :: "'a shm_scheme \<Rightarrow> kerror + (sysresult \<times> 'a shm_scheme)" where
  "sys_exit s = switched (exit s)"

definition wait_outcome ::
    "'a ftable_scheme devwrite \<Rightarrow> wait_result \<times> 'a ftable_scheme \<Rightarrow> kerror + (sysresult \<times> 'a ftable_scheme)" where
  "wait_outcome dw = (\<lambda>(r, s).
     case r of
       Reaped pid \<Rightarrow> Inr (Ret pid, s)
     | NoChildren \<Rightarrow> Inr (Ret (-1), s)
     | MustSleep \<Rightarrow> bindE (myproc s) (\<lambda>me. switched (sleep dw (ChProc me) PtableLock s)))"

definition sys_wait :: "'a ftable_scheme devwrite \<Rightarrow> 'a ftable_scheme \<Rightarrow> kerror + (sysresult \<times> 'a ftable_scheme)" where
  "sys_wait dw s = bindE (wait s) (wait_outcome dw)"

definition sys_wait_resume ::
    "'a ftable_scheme devwrite \<Rightarrow> bool \<Rightarrow> 'a ftable_scheme \<Rightarrow> kerror + (sysresult \<times> 'a ftable_scheme)" where
  "sys_wait_resume dw i s = bindE (sleep_resume PtableLock i s) (\<lambda>s. bindE (wait_round s) (wait_outcome dw))"

definition sys_kill :: "'a ptable_scheme \<Rightarrow> kerror + (int \<times> 'a ptable_scheme)" where
  "sys_kill s = bindE (argint 0 s) (\<lambda>a. case a of None \<Rightarrow> Inr (-1, s) | Some pid \<Rightarrow> kill pid s)"

definition sys_getpid :: "'a ptable_scheme \<Rightarrow> kerror + (int \<times> 'a ptable_scheme)" where
  "sys_getpid s = bindE (myproc s) (\<lambda>me. Inr (p_pid (procs s ! me), s))"

definition sys_sbrk :: "'a ptable_scheme \<Rightarrow> kerror + (int \<times> 'a ptable_scheme)" where
  "sys_sbrk s =
     bindE (argint 0 s) (\<lambda>a.
     case a of
       None \<Rightarrow> Inr (-1, s)
     | Some n \<Rightarrow>
         bindE (myproc s) (\<lambda>me.
         let addr = sint (p_sz (procs s ! me))
         in bindE (growproc n s) (\<lambda>(r, s). Inr (if r < 0 then -1 else addr, s))))"

text \<open>One test of the loop of \<open>sys_sleep\<close>; the count is compared as an unsigned number.\<close>

definition sys_sleep_test ::
    "'a ftable_scheme devwrite \<Rightarrow> int \<Rightarrow> uint \<Rightarrow> 'a ftable_scheme \<Rightarrow> kerror + (sysresult \<times> 'a ftable_scheme)" where
  "sys_sleep_test dw n ticks0 s =
     (if ticks s - ticks0 < of_int n then
        bindE (myproc s) (\<lambda>me.
        if p_killed (procs s ! me) then bindE (release TicksLock s) (\<lambda>s. Inr (Ret (-1), s))
        else switched (sleep dw ChTicks TicksLock s))
      else bindE (release TicksLock s) (\<lambda>s. Inr (Ret 0, s)))"

definition sys_sleep :: "'a ftable_scheme devwrite \<Rightarrow> 'a ftable_scheme \<Rightarrow> kerror + (sysresult \<times> 'a ftable_scheme)" where
  "sys_sleep dw s =
     bindE (argint 0 s) (\<lambda>a.
     case a of
       None \<Rightarrow> Inr (Ret (-1), s)
     | Some n \<Rightarrow> bindE (acquire TicksLock s) (\<lambda>s. sys_sleep_test dw n (ticks s) s))"

definition sys_sleep_resume ::
    "'a ftable_scheme devwrite \<Rightarrow> int \<Rightarrow> uint \<Rightarrow> bool \<Rightarrow> 'a ftable_scheme \<Rightarrow> kerror + (sysresult \<times> 'a ftable_scheme)" where
  "sys_sleep_resume dw n ticks0 i s = bindE (sleep_resume TicksLock i s) (sys_sleep_test dw n ticks0)"

definition sys_uptime :: "'a ptable_scheme \<Rightarrow> kerror + (int \<times> 'a ptable_scheme)" where
  "sys_uptime s =
     bindE (acquire TicksLock s) (\<lambda>s.
     let xticks = ticks s in bindE (release TicksLock s) (\<lambda>s. Inr (sint xticks, s)))"

definition sys_enableSwapping :: "'a ptable_scheme \<Rightarrow> 'a ptable_scheme" where
  "sys_enableSwapping s = s\<lparr>swapFlag := True\<rparr>"

definition sys_disableSwapping :: "'a ptable_scheme \<Rightarrow> 'a ptable_scheme" where
  "sys_disableSwapping s = s\<lparr>swapFlag := False\<rparr>"

definition sys_sleep2 :: "'a ftable_scheme devwrite \<Rightarrow> 'a ftable_scheme \<Rightarrow> kerror + (sysresult \<times> 'a ftable_scheme)" where
  "sys_sleep2 dw s =
     bindE (acquire TicksLock s) (\<lambda>s.
     bindE (myproc s) (\<lambda>me.
     if p_killed (procs s ! me) then bindE (release TicksLock s) (\<lambda>s. Inr (Ret (-1), s))
     else switched (sleep dw ChSwapFlag TicksLock s)))"

definition sys_sleep2_resume :: "bool \<Rightarrow> 'a ptable_scheme \<Rightarrow> kerror + (int \<times> 'a ptable_scheme)" where
  "sys_sleep2_resume i s = bindE (sleep_resume TicksLock i s) (\<lambda>s. bindE (release TicksLock s) (\<lambda>s. Inr (0, s)))"

definition sys_wakeup2 :: "'a ptable_scheme \<Rightarrow> kerror + (int \<times> 'a ptable_scheme)" where
  "sys_wakeup2 s = bindE (wakeup ChSwapFlag s) (\<lambda>s. Inr (0, s))"

definition sys_getAllocatedPages :: "'a ptable_scheme \<Rightarrow> kerror + (int \<times> 'a ptable_scheme)" where
  "sys_getAllocatedPages s =
     bindE (argint 0 s) (\<lambda>a. case a of None \<Rightarrow> Inr (-1, s) | Some pid \<Rightarrow> getAllocatedPages pid s)"

definition sys_shmget :: "'a shm_scheme \<Rightarrow> kerror + (int \<times> 'a shm_scheme)" where
  "sys_shmget s =
     bindE (argint 0 s) (\<lambda>a. case a of None \<Rightarrow> Inr (-1, s) | Some key \<Rightarrow>
     bindE (argint 1 s) (\<lambda>a. case a of None \<Rightarrow> Inr (-1, s) | Some sz \<Rightarrow>
     if sz < 0 then Inr (-1, s)
     else bindE (argint 2 s) (\<lambda>a. case a of None \<Rightarrow> Inr (-1, s) | Some shmflg \<Rightarrow>
     shmget key (of_int sz) shmflg s)))"

definition sys_shmdel :: "'a shm_scheme \<Rightarrow> kerror + (int \<times> 'a shm_scheme)" where
  "sys_shmdel s = bindE (argint 0 s) (\<lambda>a. case a of None \<Rightarrow> Inr (-1, s) | Some shmid \<Rightarrow> shmdel shmid s)"

definition sys_shmat :: "'a shm_scheme \<Rightarrow> kerror + (uint \<times> 'a shm_scheme)" where
  "sys_shmat s =
     bindE (argint 0 s) (\<lambda>a. case a of None \<Rightarrow> Inr (-1, s) | Some shmid \<Rightarrow>
     bindE (argint 1 s) (\<lambda>a. case a of None \<Rightarrow> Inr (-1, s) | Some shmflg \<Rightarrow>
     shmat shmid shmflg s))"

definition sys_shmdt :: "'a shm_scheme \<Rightarrow> kerror + (int \<times> 'a shm_scheme)" where
  "sys_shmdt s = bindE (argptr 0 4 s) (\<lambda>a. case a of None \<Rightarrow> Inr (-1, s) | Some shmaddr \<Rightarrow> shmdt shmaddr s)"

section \<open>The dispatcher (syscall.c)\<close>

text \<open>
  The table of calls. Two entries are functions without a result, called as if they had one: what they leave in
  the result register is \<open>junk\<close>.
\<close>

definition syscalls ::
    "int \<Rightarrow> 'a kproc_scheme devread \<Rightarrow> 'a kproc_scheme devwrite \<Rightarrow> nat \<Rightarrow>
     ('a kproc_scheme \<Rightarrow> kerror + (sysresult \<times> 'a kproc_scheme)) option" where
  "syscalls junk dr dw = map_of
     [(1, ret \<circ> sys_fork), (2, sys_exit), (3, sys_wait dw), (4, ret \<circ> sys_pipe), (5, ret \<circ> sys_read dr),
      (6, ret \<circ> sys_kill), (7, ret \<circ> sys_exec dr), (8, ret \<circ> sys_fstat), (9, ret \<circ> sys_chdir),
      (10, ret \<circ> sys_dup), (11, ret \<circ> sys_getpid), (12, ret \<circ> sys_sbrk), (13, sys_sleep dw),
      (14, ret \<circ> sys_uptime), (15, ret \<circ> sys_open), (16, ret \<circ> sys_write dw), (17, ret \<circ> sys_mknod),
      (18, ret \<circ> sys_unlink), (19, ret \<circ> sys_link), (20, ret \<circ> sys_mkdir), (21, ret \<circ> sys_close),
      (22, \<lambda>s. Inr (Ret junk, sys_enableSwapping s)), (23, \<lambda>s. Inr (Ret junk, sys_disableSwapping s)),
      (24, sys_sleep2 dw), (25, ret \<circ> sys_wakeup2), (26, ret \<circ> sys_getAllocatedPages), (27, ret \<circ> sys_shmget),
      (28, ret \<circ> sys_shmdel), (29, \<lambda>s. bindE (sys_shmat s) (\<lambda>(a, s). Inr (Ret (sint a), s))),
      (30, ret \<circ> sys_shmdt)]"

definition syscall ::
    "int \<Rightarrow> 'a kproc_scheme devread \<Rightarrow> 'a kproc_scheme devwrite \<Rightarrow> 'a kproc_scheme \<Rightarrow>
     kerror + (sysresult \<times> 'a kproc_scheme)" where
  "syscall junk dr dw s =
     bindE (myproc s) (\<lambda>me.
     let num = sint (load32 (ram s) (p_tf (procs s ! me) + 28))
     in if num < 0 \<or> num \<ge> 31 then Inr (Ret (-1), put_tf32 me 28 (-1) s)
        else case syscalls junk dr dw (nat num) of
          None \<Rightarrow> Inr (Ret (-1), put_tf32 me 28 (-1) s)
        | Some f \<Rightarrow>
            bindE (f s) (\<lambda>(r, s).
            case r of Ret v \<Rightarrow> Inr (Ret v, put_tf32 me 28 (of_int v) s) | Switched i \<Rightarrow> Inr (Switched i, s)))"

section \<open>Traps (trap.c)\<close>

definition tvinit :: "(nat \<Rightarrow> uint) \<Rightarrow> 'a machine_scheme \<Rightarrow> (nat \<Rightarrow> gatedesc) \<times> 'a machine_scheme" where
  "tvinit vectors s =
     ((\<lambda>i. SETGATE False 8 (vectors i) 0)(64 := SETGATE True 8 (vectors 64) 3), initlock TicksLock s)"

definition trap_timer :: "'a ptable_scheme \<Rightarrow> kerror + 'a ptable_scheme" where
  "trap_timer s =
     (if mycpu s = 0 then
        bindE (acquire TicksLock s) (\<lambda>s.
        bindE (wakeup ChTicks (s\<lparr>ticks := ticks s + 1\<rparr>)) (release TicksLock))
      else Inr s)"

definition trap_unexpected :: "uint \<Rightarrow> uint \<Rightarrow> uint \<Rightarrow> 'a console_scheme \<Rightarrow> kerror + 'a console_scheme" where
  "trap_unexpected tf cr2 trapno s =
     (let eip = load32 (ram s) (tf + 56); cs = load32 (ram s) (tf + 60); id = CInt (of_nat (mycpu s))
      in case curproc s (mycpu s) of
           Some me \<Rightarrow>
             if cs AND 3 = 0 then
               bindE (cprintf (''unexpected trap %d from cpu %d eip %x (cr2=0x%x)'' @ [CHR 0x0A])
                 [CInt trapno, id, CInt eip, CInt cr2] s) (\<lambda>s. Inl (Panic ''trap''))
             else
               bindE (cprintf (''pid %d %s: trap %d err %d on cpu %d eip 0x%x addr 0x%x--kill proc'' @ [CHR 0x0A])
                 [CInt (of_int (p_pid (procs s ! me))), CStr (Some (p_name (procs s ! me))), CInt trapno,
                  CInt (load32 (ram s) (tf + 52)), id, CInt eip, CInt cr2] s) (\<lambda>s.
               Inr (upd_proc me (\<lambda>q. q\<lparr>p_killed := True\<rparr>) s))
         | None \<Rightarrow>
             bindE (cprintf (''unexpected trap %d from cpu %d eip %x (cr2=0x%x)'' @ [CHR 0x0A])
               [CInt trapno, id, CInt eip, CInt cr2] s) (\<lambda>s. Inl (Panic ''trap'')))"

definition trap_dispatch :: "uint \<Rightarrow> uint \<Rightarrow> 'a console_scheme \<Rightarrow> kerror + 'a console_scheme" where
  "trap_dispatch tf cr2 s =
     (let trapno = load32 (ram s) (tf + 48)
      in if trapno = 32 then trap_timer s
         else if trapno = 32 + 14 then ideintr s
         else if trapno = 32 + 15 then Inr s
         else if trapno = 32 + 1 then kbdintr s
         else if trapno = 32 + 4 then uartintr s
         else if trapno = 32 + 7 \<or> trapno = 32 + 31 then
           cprintf (''cpu%d: spurious interrupt at %x:%x'' @ [CHR 0x0A])
             [CInt (of_nat (mycpu s)), CInt (load32 (ram s) (tf + 60) AND 0xFFFF), CInt (load32 (ram s) (tf + 56))] s
         else trap_unexpected tf cr2 trapno s)"

text \<open>A killed process leaves at the return to user code; the second test comes after a forced yield.\<close>

definition trap_killed :: "uint \<Rightarrow> 'a console_scheme \<Rightarrow> bool" where
  "trap_killed tf s =
     (case curproc s (mycpu s) of
        None \<Rightarrow> False
      | Some me \<Rightarrow> p_killed (procs s ! me) \<and> load32 (ram s) (tf + 60) AND 3 = 3)"

definition trap_end :: "uint \<Rightarrow> 'a console_scheme \<Rightarrow> kerror + (sysresult \<times> 'a console_scheme)" where
  "trap_end tf s = (if trap_killed tf s then switched (exit s) else Inr (Ret 0, s))"

definition trap_yield_resume :: "uint \<Rightarrow> bool \<Rightarrow> 'a console_scheme \<Rightarrow> kerror + (sysresult \<times> 'a console_scheme)" where
  "trap_yield_resume tf i s = bindE (yield_resume i s) (trap_end tf)"

definition trap_syscall_end :: "'a console_scheme \<Rightarrow> kerror + (sysresult \<times> 'a console_scheme)" where
  "trap_syscall_end s =
     bindE (myproc s) (\<lambda>me. if p_killed (procs s ! me) then switched (exit s) else Inr (Ret 0, s))"

definition trap ::
    "int \<Rightarrow> 'a console_scheme devread \<Rightarrow> 'a console_scheme devwrite \<Rightarrow> uint \<Rightarrow> uint \<Rightarrow> 'a console_scheme \<Rightarrow>
     kerror + (sysresult \<times> 'a console_scheme)" where
  "trap junk dr dw cr2 tf s =
     (if load32 (ram s) (tf + 48) = 64 then
        bindE (myproc s) (\<lambda>me.
        if p_killed (procs s ! me) then switched (exit s)
        else
          bindE (syscall junk dr dw (upd_proc me (\<lambda>q. q\<lparr>p_tf := tf\<rparr>) s)) (\<lambda>(r, s).
          case r of Ret v \<Rightarrow> trap_syscall_end s | Switched i \<Rightarrow> Inr (Switched i, s)))
      else
        bindE (trap_dispatch tf cr2 s) (\<lambda>s.
        if trap_killed tf s then switched (exit s)
        else
          case curproc s (mycpu s) of
            None \<Rightarrow> trap_end tf s
          | Some me \<Rightarrow>
              if p_state (procs s ! me) = RUNNING \<and> load32 (ram s) (tf + 48) = 32
              then switched (yield s) else trap_end tf s))"

section \<open>Dispatch\<close>



end
