(* ===== verification/Platform.thy ===== *)
theory Platform
  imports Sysproc
begin

text \<open>
  The interrupt hardware and the processor table: \<^verbatim>\<open>mp.c\<close>, \<^verbatim>\<open>lapic.c\<close>,
  \<^verbatim>\<open>ioapic.c\<close>, \<^verbatim>\<open>picirq.c\<close>, \<^verbatim>\<open>timer.c\<close>, and the parts of the
  drivers' initialisation that program the hardware.
\<close>

section \<open>Devices\<close>

text \<open>
  The state keeps the history of the accesses to ports and to memory-mapped registers. What a device
  answers to a read is a function of that history, of which nothing is assumed: reads are part of it,
  so polling a register twice may give two answers.
\<close>

datatype ioev = OutB ushort uchar | InB ushort | MmioW uint uint | MmioR uint

record platform = console +
  io :: "ioev list"
  port_in :: "ioev list \<Rightarrow> ushort \<Rightarrow> uchar"
  mmio_in :: "ioev list \<Rightarrow> uint \<Rightarrow> uint"
  lapic :: uint
  ismp :: bool
  ncpu :: nat
  bcpu :: nat
  ioapicid :: uchar
  cpu_id :: "nat \<Rightarrow> uchar"
  cpu_started :: "nat \<Rightarrow> uint"
  irqmask :: ushort
  cpunum_n :: nat
  idt :: "nat \<Rightarrow> gatedesc"
  idtr :: "nat \<Rightarrow> (nat \<Rightarrow> gatedesc) option"

definition outb :: "ushort \<Rightarrow> uchar \<Rightarrow> 'a platform_scheme \<Rightarrow> 'a platform_scheme" where
  "outb port data s = s\<lparr>io := io s @ [OutB port data]\<rparr>"

definition inb :: "ushort \<Rightarrow> 'a platform_scheme \<Rightarrow> uchar \<times> 'a platform_scheme" where
  "inb port s = (port_in s (io s) port, s\<lparr>io := io s @ [InB port]\<rparr>)"

definition mmio_write :: "uint \<Rightarrow> uint \<Rightarrow> 'a platform_scheme \<Rightarrow> 'a platform_scheme" where
  "mmio_write a v s = s\<lparr>io := io s @ [MmioW a v]\<rparr>"

definition mmio_read :: "uint \<Rightarrow> 'a platform_scheme \<Rightarrow> uint \<times> 'a platform_scheme" where
  "mmio_read a s = (mmio_in s (io s) a, s\<lparr>io := io s @ [MmioR a]\<rparr>)"

abbreviation (input) T_IRQ0 :: uint where "T_IRQ0 \<equiv> 32"
abbreviation (input) IRQ_TIMER :: nat where "IRQ_TIMER \<equiv> 0"
abbreviation (input) IRQ_KBD :: nat where "IRQ_KBD \<equiv> 1"
abbreviation (input) IRQ_COM1 :: nat where "IRQ_COM1 \<equiv> 4"
abbreviation (input) IRQ_IDE :: nat where "IRQ_IDE \<equiv> 14"
abbreviation (input) IRQ_ERROR :: uint where "IRQ_ERROR \<equiv> 19"
abbreviation (input) IRQ_SPURIOUS :: uint where "IRQ_SPURIOUS \<equiv> 31"

section \<open>The 8259A controllers (picirq.c) and the timer (timer.c)\<close>

abbreviation (input) IO_PIC1 :: ushort where "IO_PIC1 \<equiv> 0x20"
abbreviation (input) IO_PIC2 :: ushort where "IO_PIC2 \<equiv> 0xA0"
abbreviation (input) IRQ_SLAVE :: nat where "IRQ_SLAVE \<equiv> 2"

definition irqmask_initial :: ushort where
  "irqmask_initial = 0xFFFF AND NOT (push_bit IRQ_SLAVE 1)"

definition picsetmask :: "ushort \<Rightarrow> 'a platform_scheme \<Rightarrow> 'a platform_scheme" where
  "picsetmask msk s =
     outb (IO_PIC2 + 1) (ucast (drop_bit 8 msk)) (outb (IO_PIC1 + 1) (ucast msk) (s\<lparr>irqmask := msk\<rparr>))"

definition picenable :: "nat \<Rightarrow> 'a platform_scheme \<Rightarrow> 'a platform_scheme" where
  "picenable irq s = picsetmask (irqmask s AND NOT (push_bit irq 1)) s"

definition picinit :: "'a platform_scheme \<Rightarrow> 'a platform_scheme" where
  "picinit s =
     (let s = fold (\<lambda>(p, v). outb p v)
           [(IO_PIC1 + 1, 0xFF), (IO_PIC2 + 1, 0xFF),
            (IO_PIC1, 0x11), (IO_PIC1 + 1, 32), (IO_PIC1 + 1, push_bit IRQ_SLAVE 1), (IO_PIC1 + 1, 0x3),
            (IO_PIC2, 0x11), (IO_PIC2 + 1, 32 + 8), (IO_PIC2 + 1, 2), (IO_PIC2 + 1, 0x3),
            (IO_PIC1, 0x68), (IO_PIC1, 0x0a), (IO_PIC2, 0x68), (IO_PIC2, 0x0a)] s
      in if irqmask s \<noteq> 0xFFFF then picsetmask (irqmask s) s else s)"

abbreviation (input) IO_TIMER1 :: ushort where "IO_TIMER1 \<equiv> 0x40"
abbreviation (input) TIMER_FREQ :: nat where "TIMER_FREQ \<equiv> 1193182"

definition TIMER_DIV :: "nat \<Rightarrow> nat" where
  "TIMER_DIV x = (TIMER_FREQ + x div 2) div x"

definition timerinit :: "'a platform_scheme \<Rightarrow> 'a platform_scheme" where
  "timerinit s =
     (let s = outb (IO_TIMER1 + 3) (0x00 OR 0x04 OR 0x30) s;
          s = outb IO_TIMER1 (of_nat (TIMER_DIV 100 mod 256)) s;
          s = outb IO_TIMER1 (of_nat (TIMER_DIV 100 div 256)) s
      in picenable IRQ_TIMER s)"

section \<open>The I/O APIC (ioapic.c)\<close>

abbreviation (input) IOAPIC :: uint where "IOAPIC \<equiv> 0xFEC00000"
abbreviation (input) REG_ID :: uint where "REG_ID \<equiv> 0x00"
abbreviation (input) REG_VER :: uint where "REG_VER \<equiv> 0x01"
abbreviation (input) REG_TABLE :: uint where "REG_TABLE \<equiv> 0x10"
abbreviation (input) INT_DISABLED :: uint where "INT_DISABLED \<equiv> 0x10000"

definition ioapicread :: "uint \<Rightarrow> 'a platform_scheme \<Rightarrow> uint \<times> 'a platform_scheme" where
  "ioapicread r s = mmio_read (IOAPIC + 16) (mmio_write IOAPIC r s)"

definition ioapicwrite :: "uint \<Rightarrow> uint \<Rightarrow> 'a platform_scheme \<Rightarrow> 'a platform_scheme" where
  "ioapicwrite r data s = mmio_write (IOAPIC + 16) data (mmio_write IOAPIC r s)"

definition ioapicinit :: "'a platform_scheme \<Rightarrow> kerror + 'a platform_scheme" where
  "ioapicinit s =
     (if \<not> ismp s then Inr s
      else
        let (v, s) = ioapicread REG_VER s;
            maxintr = drop_bit 16 v AND 0xFF;
            (v, s) = ioapicread REG_ID s;
            ident = drop_bit 24 v
        in bindE (if ident \<noteq> ucast (ioapicid s)
                  then cprintf (''ioapicinit: id isn'' @ [CHR 0x27] @ ''t equal to ioapicid; not a MP'' @ [CHR 0x0A]) [] s
                  else Inr s) (\<lambda>s.
           Inr (fold (\<lambda>i s. ioapicwrite (REG_TABLE + 2 * of_nat i + 1) 0
                        (ioapicwrite (REG_TABLE + 2 * of_nat i) (INT_DISABLED OR (T_IRQ0 + of_nat i)) s))
                  [0..<Suc (unat maxintr)] s)))"

definition ioapicenable :: "nat \<Rightarrow> int \<Rightarrow> 'a platform_scheme \<Rightarrow> 'a platform_scheme" where
  "ioapicenable irq cpu s =
     (if \<not> ismp s then s
      else ioapicwrite (REG_TABLE + 2 * of_nat irq + 1) (push_bit 24 (of_int cpu))
             (ioapicwrite (REG_TABLE + 2 * of_nat irq) (T_IRQ0 + of_nat irq) s))"

section \<open>The local APIC (lapic.c)\<close>

text \<open>Registers by their index in the array of 32-bit words at \<open>lapic\<close>.\<close>

abbreviation (input) LAPIC_ID :: uint where "LAPIC_ID \<equiv> 0x20 div 4"
abbreviation (input) VER :: uint where "VER \<equiv> 0x30 div 4"
abbreviation (input) TPR :: uint where "TPR \<equiv> 0x80 div 4"
abbreviation (input) EOI :: uint where "EOI \<equiv> 0xB0 div 4"
abbreviation (input) SVR :: uint where "SVR \<equiv> 0xF0 div 4"
abbreviation (input) ENABLE :: uint where "ENABLE \<equiv> 0x100"
abbreviation (input) ESR :: uint where "ESR \<equiv> 0x280 div 4"
abbreviation (input) ICRLO :: uint where "ICRLO \<equiv> 0x300 div 4"
abbreviation (input) INIT :: uint where "INIT \<equiv> 0x500"
abbreviation (input) STARTUP :: uint where "STARTUP \<equiv> 0x600"
abbreviation (input) DELIVS :: uint where "DELIVS \<equiv> 0x1000"
abbreviation (input) ASSERT :: uint where "ASSERT \<equiv> 0x4000"
abbreviation (input) LEVEL :: uint where "LEVEL \<equiv> 0x8000"
abbreviation (input) BCAST :: uint where "BCAST \<equiv> 0x80000"
abbreviation (input) ICRHI :: uint where "ICRHI \<equiv> 0x310 div 4"
abbreviation (input) TIMER :: uint where "TIMER \<equiv> 0x320 div 4"
abbreviation (input) X1 :: uint where "X1 \<equiv> 0xB"
abbreviation (input) PERIODIC :: uint where "PERIODIC \<equiv> 0x20000"
abbreviation (input) PCINT :: uint where "PCINT \<equiv> 0x340 div 4"
abbreviation (input) LINT0 :: uint where "LINT0 \<equiv> 0x350 div 4"
abbreviation (input) LINT1 :: uint where "LINT1 \<equiv> 0x360 div 4"
abbreviation (input) ERROR :: uint where "ERROR \<equiv> 0x370 div 4"
abbreviation (input) MASKED :: uint where "MASKED \<equiv> 0x10000"
abbreviation (input) TICR :: uint where "TICR \<equiv> 0x380 div 4"
abbreviation (input) TDCR :: uint where "TDCR \<equiv> 0x3E0 div 4"

definition lapicr :: "uint \<Rightarrow> 'a platform_scheme \<Rightarrow> uint \<times> 'a platform_scheme" where
  "lapicr index s = mmio_read (lapic s + 4 * index) s"

definition lapicw :: "uint \<Rightarrow> uint \<Rightarrow> 'a platform_scheme \<Rightarrow> 'a platform_scheme" where
  "lapicw index v s = snd (lapicr LAPIC_ID (mmio_write (lapic s + 4 * index) v s))"

text \<open>The wait for the delivery of an interrupt command has no bound in the code; here it has one.\<close>

fun lapic_wait :: "nat \<Rightarrow> 'a platform_scheme \<Rightarrow> kerror + 'a platform_scheme" where
  "lapic_wait 0 s = Inl OutOfFuel"
| "lapic_wait (Suc k) s =
     (let (v, s) = lapicr ICRLO s in if v AND DELIVS \<noteq> 0 then lapic_wait k s else Inr s)"

definition lapicinit :: "nat \<Rightarrow> 'a platform_scheme \<Rightarrow> kerror + 'a platform_scheme" where
  "lapicinit fuel s =
     (if lapic s = 0 then Inr s
      else
        let s = fold (\<lambda>(i, v). lapicw i v)
              [(SVR, ENABLE OR (T_IRQ0 + IRQ_SPURIOUS)), (TDCR, X1),
               (TIMER, PERIODIC OR (T_IRQ0 + of_nat IRQ_TIMER)), (TICR, 10000000),
               (LINT0, MASKED), (LINT1, MASKED)] s;
            (v, s) = lapicr VER s;
            s = (if drop_bit 16 v AND 0xFF \<ge> 4 then lapicw PCINT MASKED s else s);
            s = fold (\<lambda>(i, v). lapicw i v)
              [(ERROR, T_IRQ0 + IRQ_ERROR), (ESR, 0), (ESR, 0), (EOI, 0), (ICRHI, 0),
               (ICRLO, BCAST OR INIT OR LEVEL)] s
        in bindE (lapic_wait fuel s) (\<lambda>s. Inr (lapicw TPR 0 s)))"

text \<open>\<open>ra\<close> is the return address the warning prints.\<close>

definition cpunum :: "uint \<Rightarrow> 'a platform_scheme \<Rightarrow> kerror + (uint \<times> 'a platform_scheme)" where
  "cpunum ra s =
     bindE (if cpu_if (cpus s (mycpu s))
            then if cpunum_n s = 0
                 then cprintf (''cpu called from %x with interrupts enabled'' @ [CHR 0x0A]) [CInt ra] (s\<lparr>cpunum_n := 1\<rparr>)
                 else Inr (s\<lparr>cpunum_n := cpunum_n s + 1\<rparr>)
            else Inr s) (\<lambda>s.
     if lapic s \<noteq> 0 then let (v, s) = lapicr LAPIC_ID s in Inr (drop_bit 24 v, s) else Inr (0, s))"

definition lapiceoi :: "'a platform_scheme \<Rightarrow> 'a platform_scheme" where
  "lapiceoi s = (if lapic s \<noteq> 0 then lapicw EOI 0 s else s)"

definition store16 :: "memory \<Rightarrow> uint \<Rightarrow> ushort \<Rightarrow> memory" where
  "store16 m a v = m(a := ucast v, a + 1 := ucast (drop_bit 8 v))"

definition lapicstartap :: "uchar \<Rightarrow> uint \<Rightarrow> 'a platform_scheme \<Rightarrow> 'a platform_scheme" where
  "lapicstartap apicid addr s =
     (let s = outb 0x71 0x0A (outb 0x70 0xF s);
          wrv = p2v (push_bit 4 0x40 OR 0x67);
          s = s\<lparr>ram := store16 (store16 (ram s) wrv 0) (wrv + 2) (ucast (drop_bit 4 addr))\<rparr>;
          s = lapicw ICRHI (push_bit 24 (ucast apicid)) s;
          s = lapicw ICRLO (INIT OR LEVEL OR ASSERT) s;
          s = lapicw ICRLO (INIT OR LEVEL) s
      in fold (\<lambda>_ s. lapicw ICRLO (STARTUP OR drop_bit 12 addr) (lapicw ICRHI (push_bit 24 (ucast apicid)) s))
           [0..<2] s)"

section \<open>The processor table (mp.c)\<close>

definition mpbcpu :: "'a platform_scheme \<Rightarrow> nat" where
  "mpbcpu s = bcpu s"

definition mp_sum :: "memory \<Rightarrow> uint \<Rightarrow> nat \<Rightarrow> uchar" where
  "mp_sum m addr len = of_int (fold (\<lambda>i t. t + uint (m (addr + of_nat i))) [0..<len] 0)"

definition has_sig :: "memory \<Rightarrow> uint \<Rightarrow> string \<Rightarrow> bool" where
  "has_sig m p sig \<longleftrightarrow> map (\<lambda>i. m (p + of_nat i)) [0..<length sig] = map of_char sig"

text \<open>The candidate addresses of the loop, none of which wraps around for the ranges it is called with.\<close>

definition mpsearch1 :: "memory \<Rightarrow> uint \<Rightarrow> nat \<Rightarrow> uint option" where
  "mpsearch1 m a len =
     find (\<lambda>p. has_sig m p ''_MP_'' \<and> mp_sum m p 16 = 0)
       (map (\<lambda>i. p2v a + 16 * of_nat i) [0..<(len + 15) div 16])"

definition mpsearch :: "memory \<Rightarrow> uint option" where
  "mpsearch m =
     (let bda = p2v 0x400;
          p = push_bit 4 (push_bit 8 (ucast (m (bda + 0x0F))) OR ucast (m (bda + 0x0E)));
          q = (push_bit 8 (ucast (m (bda + 0x14))) OR ucast (m (bda + 0x13))) * 1024
      in case (if p \<noteq> 0 then mpsearch1 m p 1024 else mpsearch1 m (q - 1024) 1024) of
           Some mp \<Rightarrow> Some mp
         | None \<Rightarrow> mpsearch1 m 0xF0000 0x10000)"

definition load16 :: "memory \<Rightarrow> uint \<Rightarrow> ushort" where
  "load16 m a = ucast (m a) OR push_bit 8 (ucast (m (a + 1)))"

text \<open>
  Fields of the structures of \<^verbatim>\<open>mp.h\<close> by their offsets: in \<^verbatim>\<open>struct mp\<close>
  \<^verbatim>\<open>physaddr\<close> 4 and \<^verbatim>\<open>imcrp\<close> 12; in \<^verbatim>\<open>struct mpconf\<close>, of 44 bytes,
  \<^verbatim>\<open>length\<close> 4, \<^verbatim>\<open>version\<close> 6, \<^verbatim>\<open>lapicaddr\<close> 36; in \<^verbatim>\<open>struct mpproc\<close>, of 20
  bytes, \<^verbatim>\<open>apicid\<close> 1 and \<^verbatim>\<open>flags\<close> 3; in \<^verbatim>\<open>struct mpioapic\<close>, of 8,
  \<^verbatim>\<open>apicno\<close> 1.
\<close>

definition mpconfig :: "memory \<Rightarrow> (uint \<times> uint) option" where
  "mpconfig m =
     (case mpsearch m of
        None \<Rightarrow> None
      | Some mp \<Rightarrow>
          if load32 m (mp + 4) = 0 then None
          else
            let conf = p2v (load32 m (mp + 4))
            in if \<not> has_sig m conf ''PCMP'' then None
               else if m (conf + 6) \<noteq> 1 \<and> m (conf + 6) \<noteq> 4 then None
               else if mp_sum m conf (unat (load16 m (conf + 4))) \<noteq> 0 then None
               else Some (mp, conf))"

abbreviation (input) MPPROC :: uchar where "MPPROC \<equiv> 0"
abbreviation (input) MPBUS :: uchar where "MPBUS \<equiv> 1"
abbreviation (input) MPIOAPIC :: uchar where "MPIOAPIC \<equiv> 2"
abbreviation (input) MPIOINTR :: uchar where "MPIOINTR \<equiv> 3"
abbreviation (input) MPLINTR :: uchar where "MPLINTR \<equiv> 4"

text \<open>
  One entry of the table: the new position and state. The array of processors is written at index
  \<^verbatim>\<open>ncpu\<close> without a check; outside it this is a fault.
\<close>

definition mp_proc :: "uint \<Rightarrow> 'a platform_scheme \<Rightarrow> kerror + 'a platform_scheme" where
  "mp_proc p s =
     (let apicid = ram s (p + 1); flags = ram s (p + 3)
      in bindE (if ncpu s \<noteq> unat apicid
                then bindE (cprintf (''mpinit: ncpu=%d apicid=%d'' @ [CHR 0x0A])
                              [CInt (of_nat (ncpu s)), CInt (ucast apicid)] s) (\<lambda>s. Inr (s\<lparr>ismp := False\<rparr>))
                else Inr s) (\<lambda>s.
         let s = (if flags AND 2 \<noteq> 0 then s\<lparr>bcpu := ncpu s\<rparr> else s)
         in if ncpu s < NCPU
            then Inr (s\<lparr>cpu_id := (cpu_id s)(ncpu s := of_nat (ncpu s)), ncpu := ncpu s + 1\<rparr>)
            else Inl (Fault ''cpus'')))"

definition mp_entry :: "uint \<Rightarrow> 'a platform_scheme \<Rightarrow> kerror + (uint \<times> 'a platform_scheme)" where
  "mp_entry p s =
     (let t = ram s p
      in if t = MPPROC then bindE (mp_proc p s) (\<lambda>s. Inr (p + 20, s))
         else if t = MPIOAPIC then Inr (p + 8, s\<lparr>ioapicid := ram s (p + 1)\<rparr>)
         else if t = MPBUS \<or> t = MPIOINTR \<or> t = MPLINTR then Inr (p + 8, s)
         else bindE (cprintf (''mpinit: unknown config type %x'' @ [CHR 0x0A]) [CInt (ucast t)] s)
                (\<lambda>s. Inr (p, s\<lparr>ismp := False\<rparr>)))"

fun mp_entries :: "nat \<Rightarrow> uint \<Rightarrow> uint \<Rightarrow> 'a platform_scheme \<Rightarrow> kerror + 'a platform_scheme" where
  "mp_entries 0 p e s = Inl OutOfFuel"
| "mp_entries (Suc k) p e s =
     (if p < e then bindE (mp_entry p s) (\<lambda>(p, s). mp_entries k p e s) else Inr s)"

text \<open>
  Every entry has 8 bytes or more, so that the bound on the number of iterations, an eighth of the
  length of the table, is reached only when an entry is not skipped.
\<close>

definition mpinit :: "'a platform_scheme \<Rightarrow> kerror + 'a platform_scheme" where
  "mpinit s =
     (let s = s\<lparr>bcpu := 0\<rparr>
      in case mpconfig (ram s) of
           None \<Rightarrow> Inr s
         | Some (mp, conf) \<Rightarrow>
             let s = s\<lparr>ismp := True, lapic := load32 (ram s) (conf + 36)\<rparr>
             in bindE (mp_entries (unat (load16 (ram s) (conf + 4)) div 8 + 1) (conf + 44) 
                  (conf + ucast (load16 (ram s) (conf + 4))) s) (\<lambda>s.
                if \<not> ismp s then Inr (s\<lparr>ncpu := 1, lapic := 0, ioapicid := 0\<rparr>)
                else if ram s (mp + 12) \<noteq> 0 then
                  let s = outb 0x22 0x70 s; (v, s) = inb 0x23 s in Inr (outb 0x23 (v OR 1) s)
                else Inr s))"

section \<open>The drivers' interrupts and registers\<close>

text \<open>
  \<open>consoleinit\<close> and \<open>uartinit\<close> of the console, \<open>ideinit\<close> of the disk, with the accesses to the
  hardware the driver models leave out.
\<close>

definition consoleinit_irq :: "'a platform_scheme \<Rightarrow> 'a platform_scheme" where
  "consoleinit_irq s = ioapicenable IRQ_KBD 0 (picenable IRQ_KBD (consoleinit s))"

abbreviation (input) COM1 :: ushort where "COM1 \<equiv> 0x3f8"

definition uartinit_irq :: "'a platform_scheme \<Rightarrow> 'a platform_scheme" where
  "uartinit_irq s =
     (let s = fold (\<lambda>(p, v). outb p v)
            [(COM1 + 2, 0), (COM1 + 3, 0x80), (COM1 + 0, 115200 div 9600), (COM1 + 1, 0),
             (COM1 + 3, 0x03), (COM1 + 4, 0), (COM1 + 1, 0x01)] s;
          (status, s) = inb (COM1 + 5) s
      in if status = 0xFF then s
         else let s = snd (inb (COM1 + 0) (snd (inb (COM1 + 2) s)))
              in uartinit status (ioapicenable IRQ_COM1 0 (picenable IRQ_COM1 s)))"

fun idewait_poll :: "nat \<Rightarrow> 'a platform_scheme \<Rightarrow> kerror + 'a platform_scheme" where
  "idewait_poll 0 s = Inl OutOfFuel"
| "idewait_poll (Suc k) s =
     (let (r, s) = inb 0x1f7 s in if r AND 0xC0 \<noteq> 0x40 then idewait_poll k s else Inr s)"

fun ide_probe :: "nat \<Rightarrow> 'a platform_scheme \<Rightarrow> bool \<times> 'a platform_scheme" where
  "ide_probe 0 s = (False, s)"
| "ide_probe (Suc k) s = (let (r, s) = inb 0x1f7 s in if r \<noteq> 0 then (True, s) else ide_probe k s)"

definition ideinit_irq :: "nat \<Rightarrow> 'a platform_scheme \<Rightarrow> kerror + 'a platform_scheme" where
  "ideinit_irq fuel s =
     bindE (idewait_poll fuel (ioapicenable IRQ_IDE (int (ncpu s) - 1) (picenable IRQ_IDE (initlock IdeLock s)))) (\<lambda>s.
     let (have1, s) = ide_probe 1000 (outb 0x1f6 (0xe0 OR push_bit 4 1) s)
     in Inr (outb 0x1f6 (0xe0 OR push_bit 4 0) (if have1 then s\<lparr>havedisk1 := True\<rparr> else s)))"

section \<open>The table and what is read from it\<close>

text \<open>
  The entries a table may have, their layout in memory from \<open>p\<close> to \<open>e\<close>, and what they say about
  the machine: the number of processors, the boot processor and the I/O APIC.
\<close>

datatype mpentry = Processor uchar bool | Ioapic uchar | Skipped uchar

fun entry_size :: "mpentry \<Rightarrow> uint" where
  "entry_size (Processor _ _) = 20"
| "entry_size _ = 8"

fun entry_at :: "memory \<Rightarrow> uint \<Rightarrow> mpentry \<Rightarrow> bool" where
  "entry_at m p (Processor apicid boots) \<longleftrightarrow> m p = MPPROC \<and> m (p + 1) = apicid \<and> (m (p + 3) AND 2 \<noteq> 0 \<longleftrightarrow> boots)"
| "entry_at m p (Ioapic no) \<longleftrightarrow> m p = MPIOAPIC \<and> m (p + 1) = no"
| "entry_at m p (Skipped t) \<longleftrightarrow> m p = t \<and> t \<in> {MPBUS, MPIOINTR, MPLINTR}"

fun table_at :: "memory \<Rightarrow> uint \<Rightarrow> mpentry list \<Rightarrow> uint \<Rightarrow> bool" where
  "table_at m p [] e \<longleftrightarrow> p = e"
| "table_at m p (en # es) e \<longleftrightarrow> p < e \<and> entry_at m p en \<and> table_at m (p + entry_size en) es e"

fun processors :: "mpentry list \<Rightarrow> uchar list" where
  "processors [] = []"
| "processors (Processor apicid _ # es) = apicid # processors es"
| "processors (_ # es) = processors es"

text \<open>The boot processor and the I/O APIC the entries name, given those named before and the next processor's number.\<close>

fun boot_of :: "nat \<Rightarrow> nat \<Rightarrow> mpentry list \<Rightarrow> nat" where
  "boot_of n b [] = b"
| "boot_of n b (Processor _ boots # es) = boot_of (n + 1) (if boots then n else b) es"
| "boot_of n b (_ # es) = boot_of n b es"

fun ioapic_of :: "uchar \<Rightarrow> mpentry list \<Rightarrow> uchar" where
  "ioapic_of a [] = a"
| "ioapic_of a (Ioapic no # es) = ioapic_of no es"
| "ioapic_of a (_ # es) = ioapic_of a es"

definition numbered :: "nat \<Rightarrow> nat \<Rightarrow> (nat \<Rightarrow> uchar) \<Rightarrow> nat \<Rightarrow> uchar" where
  "numbered n k f i = (if n \<le> i \<and> i < n + k then of_nat i else f i)"

lemma numbered_step: "numbered (Suc n) k (f(n := of_nat n)) = numbered n (Suc k) f"
  by (auto simp: numbered_def fun_eq_iff)

lemma numbered_0 [simp]: "numbered n 0 f = f"
  by (auto simp: numbered_def fun_eq_iff)

lemma mp_proc_next:
  assumes "ncpu s = unat (ram s (p + 1))" and "ncpu s < NCPU"
  shows "mp_proc p s =
    Inr (s\<lparr>bcpu := (if ram s (p + 3) AND 2 \<noteq> 0 then ncpu s else bcpu s),
           cpu_id := (cpu_id s)(ncpu s := of_nat (ncpu s)), ncpu := ncpu s + 1\<rparr>)"
  using assms by (simp add: mp_proc_def Let_def)

lemma mp_entry_unknown:
  assumes "ram s p \<notin> {MPPROC, MPBUS, MPIOAPIC, MPIOINTR, MPLINTR}" and "mp_entry p s = Inr (q, t)"
  shows "q = p \<and> \<not> ismp t"
  using assms by (auto simp: mp_entry_def Let_def bindE_eq_Inr)

text \<open>
  (C16) \<^verbatim>\<open>mpinit\<close>'s scan reads the table of processors: on a table whose entries are of the known types and
  whose processors have the numbers \<^verbatim>\<open>ncpu\<close>, \<^verbatim>\<open>ncpu\<close> + 1 and so on as their APIC ids and fit in the
  array, the loop ends within one iteration more than there are entries, every processor is numbered and
  counted, the boot processor is the last one flagged as such, and the I/O APIC is the last one listed.
\<close>

theorem mp_entries_reads_table:
  assumes "table_at (ram s) p es e" and "length es < fuel"
    and "map unat (processors es) = [ncpu s..<ncpu s + length (processors es)]"
    and "ncpu s + length (processors es) \<le> NCPU"
  shows "mp_entries fuel p e s =
    Inr (s\<lparr>ncpu := ncpu s + length (processors es), bcpu := boot_of (ncpu s) (bcpu s) es,
           ioapicid := ioapic_of (ioapicid s) es,
           cpu_id := numbered (ncpu s) (length (processors es)) (cpu_id s)\<rparr>)"
  using assms
proof (induction es arbitrary: fuel p s)
  case Nil
  then show ?case by (cases fuel) auto
next
  case (Cons en es)
  obtain k where k: "fuel = Suc k" using Cons.prems(2) by (cases fuel) auto
  show ?case
  proof (cases en)
    case (Processor apicid boots)
    let ?s = "s\<lparr>bcpu := (if boots then ncpu s else bcpu s),
       cpu_id := (cpu_id s)(ncpu s := of_nat (ncpu s)), ncpu := ncpu s + 1\<rparr>"
    have ids: "unat apicid = ncpu s" "map unat (processors es) = [Suc (ncpu s)..<Suc (ncpu s) + length (processors es)]"
      using Cons.prems(3) Processor by (simp_all add: upt_conv_Cons del: upt_Suc)
    have at: "ncpu s = unat (ram s (p + 1))" "ncpu s < NCPU" "(ram s (p + 3) AND 2 \<noteq> 0) = boots"
      using Cons.prems(1,4) Processor ids by simp_all
    have "mp_proc p s = Inr ?s" by (simp only: mp_proc_next [OF at(1,2)] at(3))
    moreover have "mp_entries k (p + 20) e ?s = Inr (?s\<lparr>ncpu := ncpu ?s + length (processors es),
        bcpu := boot_of (ncpu ?s) (bcpu ?s) es, ioapicid := ioapic_of (ioapicid ?s) es,
        cpu_id := numbered (ncpu ?s) (length (processors es)) (cpu_id ?s)\<rparr>)"
      using Cons.prems ids Processor k by (intro Cons.IH) (simp_all del: upt_Suc)
    ultimately show ?thesis
      using Cons.prems(1) Processor k by (simp add: mp_entry_def numbered_step)
  next
    case (Ioapic no)
    let ?s = "s\<lparr>ioapicid := no\<rparr>"
    have "mp_entries k (p + 8) e ?s = Inr (?s\<lparr>ncpu := ncpu ?s + length (processors es),
        bcpu := boot_of (ncpu ?s) (bcpu ?s) es, ioapicid := ioapic_of (ioapicid ?s) es,
        cpu_id := numbered (ncpu ?s) (length (processors es)) (cpu_id ?s)\<rparr>)"
      using Cons.prems Ioapic k by (intro Cons.IH) simp_all
    then show ?thesis using Cons.prems(1) Ioapic k by (simp add: mp_entry_def)
  next
    case (Skipped t)
    then show ?thesis using Cons.IH [of s "p + 8" k] Cons.prems k by (auto simp: mp_entry_def)
  qed
qed

definition a_platform :: "memory \<Rightarrow> platform" where
  "a_platform m = (console.extend a_console
     (platform.fields [] (\<lambda>_ _. 0) (\<lambda>_ _. 0) 0 True 0 0 0 (\<lambda>_. 0xFF) (\<lambda>_. 0) irqmask_initial 0 undefined (\<lambda>_. None)))\<lparr>ram := m\<rparr>"

text \<open>A table with a bus, two processors, of which the second boots, and the I/O APIC 5.\<close>

definition an_mptable :: memory where
  "an_mptable = (\<lambda>_. 0)(0x1000 := 1, 0x101D := 1, 0x101F := 2, 0x1030 := 2, 0x1031 := 5)"

theorem mp_entries_reads_table_witness:
  "\<exists>t. mp_entries 5 0x1000 0x1038 (a_platform an_mptable) = Inr t \<and> ncpu t = 2 \<and> bcpu t = 1 \<and> ioapicid t = 5 \<and> cpu_id t 1 = 1"
proof -
  let ?es = "[Skipped 1, Processor 0 False, Processor 1 True, Ioapic 5]"
  have s: "ram (a_platform an_mptable) = an_mptable" "ncpu (a_platform an_mptable) = 0" "bcpu (a_platform an_mptable) = 0"
    "ioapicid (a_platform an_mptable) = 0"
    by (simp_all add: a_platform_def console.defs platform.defs)
  have "table_at an_mptable 0x1000 ?es 0x1038" by code_simp
  moreover have "map unat (processors ?es) = [0..<0 + length (processors ?es)]" by code_simp
  ultimately show ?thesis
    using mp_entries_reads_table [of "a_platform an_mptable" "0x1000" ?es "0x1038" 5] by (simp add: s numbered_def)
qed

end
