(* ===== verification/Kernel_Main.thy ===== *)
theory Kernel_Main
  imports Platform
begin

text \<open>
  The start of the kernel, \<^verbatim>\<open>main.c\<close>: the initialisation of every component in the order of
  \<^verbatim>\<open>main\<close>, and the start of the other processors.
\<close>

section \<open>What the linker provides\<close>

record linker =
  ld_end :: uint
  ld_entryother_start :: uint
  ld_entryother_size :: uint
  ld_mpenter :: uint
  ld_entrypgdir :: uint
  ld_vectors :: "nat \<Rightarrow> uint"

text \<open>The page directory \<^verbatim>\<open>entry.S\<close> and \<^verbatim>\<open>entryother.S\<close> load.\<close>

definition entrypgdir :: "nat \<Rightarrow> uint" where
  "entrypgdir i =
     (if i = 0 then 0 OR PTE_P OR PTE_W OR PTE_PS
      else if i = unat (drop_bit PDXSHIFT KERNBASE) then 0 OR PTE_P OR PTE_W OR PTE_PS
      else 0)"

section \<open>A processor\<close>

text \<open>\<open>ra\<close> is the address \<^verbatim>\<open>cpunum\<close> was called from.\<close>

definition seginit_cpu :: "uint \<Rightarrow> 'a platform_scheme \<Rightarrow> kerror + 'a platform_scheme" where
  "seginit_cpu ra s =
     bindE (cpunum ra s) (\<lambda>(_, s).
     let s = seginit s in Inr (s\<lparr>curproc := (curproc s)(mycpu s := None)\<rparr>))"

definition idtinit :: "'a platform_scheme \<Rightarrow> 'a platform_scheme" where
  "idtinit s = s\<lparr>idtr := (idtr s)(mycpu s := Some (idt s))\<rparr>"

text \<open>\<open>mpmain\<close> up to the call of the scheduler, and with the scheduler's first pass.\<close>

definition mpmain_start :: "'a platform_scheme \<Rightarrow> kerror + 'a platform_scheme" where
  "mpmain_start s =
     bindE (cprintf (''cpu%d: starting'' @ [CHR 0x0A]) [CInt (ucast (cpu_id s (mycpu s)))] s) (\<lambda>s.
     let s = idtinit s in Inr (s\<lparr>cpu_started := (cpu_started s)(mycpu s := 1)\<rparr>))"

definition mpmain ::
    "('a platform_scheme \<Rightarrow> kerror + 'a platform_scheme) \<Rightarrow> 'a platform_scheme \<Rightarrow> kerror + 'a platform_scheme" where
  "mpmain run s = bindE (mpmain_start s) (scheduler run)"

definition mpenter :: "nat \<Rightarrow> uint \<Rightarrow> 'a platform_scheme \<Rightarrow> kerror + 'a platform_scheme" where
  "mpenter fuel ra s =
     bindE (seginit_cpu ra (switchkvm s)) (\<lambda>s.
     bindE (cpunum ra s) (\<lambda>(_, s). bindE (lapicinit fuel s) mpmain_start))"

section \<open>The other processors\<close>

text \<open>
  The processor that was sent the startup interrupt runs \<^verbatim>\<open>mpenter\<close> up to its announcement;
  the boot processor waits for it.
\<close>

definition run_on :: "nat \<Rightarrow> ('a platform_scheme \<Rightarrow> kerror + 'a platform_scheme) \<Rightarrow>
    'a platform_scheme \<Rightarrow> kerror + 'a platform_scheme" where
  "run_on c f s = bindE (f (s\<lparr>mycpu := c\<rparr>)) (\<lambda>t. Inr (t\<lparr>mycpu := mycpu s\<rparr>))"

definition startother ::
    "linker \<Rightarrow> nat \<Rightarrow> uint \<Rightarrow> nat \<Rightarrow> 'a platform_scheme \<Rightarrow> kerror + 'a platform_scheme" where
  "startother ld fuel ra c s =
     bindE (cpunum ra s) (\<lambda>(me, s).
     if c = unat me then Inr s
     else bindE (kalloc s) (\<lambda>(stack, s).
       let code = p2v 0x7000;
           m = store32 (ram s) (code - 4) (stack + KSTACKSIZE);
           m = store32 m (code - 8) (ld_mpenter ld);
           m = store32 m (code - 12) (v2p (ld_entrypgdir ld));
           s = lapicstartap (cpu_id s c) (v2p code) (s\<lparr>ram := m\<rparr>)
       in bindE (run_on c (mpenter fuel ra) s) (\<lambda>s.
          if cpu_started s c = 0 then Inl (Spins ''startothers'') else Inr s)))"

definition startothers :: "linker \<Rightarrow> nat \<Rightarrow> uint \<Rightarrow> 'a platform_scheme \<Rightarrow> kerror + 'a platform_scheme" where
  "startothers ld fuel ra s =
     (let s = s\<lparr>ram := memmove (ram s) (p2v 0x7000) (ld_entryother_start ld) (ld_entryother_size ld)\<rparr>
      in foldE (startother ld fuel ra) [0..<ncpu s] s)"

section \<open>The boot processor\<close>

definition main_init :: "linker \<Rightarrow> nat \<Rightarrow> uint \<Rightarrow> 'a platform_scheme \<Rightarrow> kerror + 'a platform_scheme" where
  "main_init ld fuel ra s =
     bindE (kinit1 (ld_end ld) (p2v (4 * 1024 * 1024)) s) (\<lambda>s.
     bindE (kvmalloc s) (\<lambda>s.
     bindE (mpinit s) (\<lambda>s.
     bindE (lapicinit fuel s) (\<lambda>s.
     bindE (seginit_cpu ra s) (\<lambda>s.
     bindE (cprintf ([CHR 0x0A] @ ''cpu%d: starting xv6'' @ [CHR 0x0A, CHR 0x0A])
              [CInt (ucast (cpu_id s (mycpu s)))] s) (\<lambda>s.
     bindE (ioapicinit (picinit s)) (\<lambda>s.
     let s = pinit (uartinit_irq (consoleinit_irq s));
         (gates, s) = tvinit (ld_vectors ld) s;
         s = iinit (fileinit (binit (s\<lparr>idt := gates\<rparr>)))
     in bindE (ideinit_irq fuel s) (\<lambda>s.
     let s = (if \<not> ismp s then timerinit s else s)
     in bindE (startothers ld fuel ra s) (\<lambda>s.
     bindE (kinit2 (p2v (4 * 1024 * 1024)) (p2v PHYSTOP) s) userinit)))))))))"

definition main ::
    "linker \<Rightarrow> nat \<Rightarrow> uint \<Rightarrow> ('a platform_scheme \<Rightarrow> kerror + 'a platform_scheme) \<Rightarrow>
     'a platform_scheme \<Rightarrow> kerror + 'a platform_scheme" where
  "main ld fuel ra run s = bindE (main_init ld fuel ra s) (mpmain run)"

end
