(* ===== verification/Bootmain.thy ===== *)
theory Bootmain
  imports Platform
begin

text \<open>
  The boot loader, \<^verbatim>\<open>bootmain.c\<close>: it reads the kernel from the disk, sector by sector, to
  the physical addresses its program headers give.
\<close>

section \<open>State\<close>

text \<open>
  The boot loader runs alone on physical memory. \<open>bt_port\<close> holds the last byte put into each port of
  the disk, \<open>bt_status\<close> is what its status port answers after the accesses made so far, and
  \<open>bt_disk\<close> has the sectors of the disk. The disk transfers the sector whose number, of 28 bits, is
  in its address ports.
\<close>

record boot =
  bt_ram :: memory
  bt_io :: "ioev list"
  bt_port :: "ushort \<Rightarrow> uchar"
  bt_status :: "ioev list \<Rightarrow> uchar"
  bt_disk :: "uint \<Rightarrow> block"

definition boot_outb :: "ushort \<Rightarrow> uchar \<Rightarrow> boot \<Rightarrow> boot" where
  "boot_outb p v s = s\<lparr>bt_io := bt_io s @ [OutB p v], bt_port := (bt_port s)(p := v)\<rparr>"

definition lba :: "boot \<Rightarrow> uint" where
  "lba s =
     ucast (bt_port s 0x1F3) OR push_bit 8 (ucast (bt_port s 0x1F4))
     OR push_bit 16 (ucast (bt_port s 0x1F5)) OR push_bit 24 (ucast (bt_port s 0x1F6) AND 0xF)"

section \<open>Operations\<close>

fun waitdisk :: "nat \<Rightarrow> boot \<Rightarrow> kerror + boot" where
  "waitdisk 0 s = Inl OutOfFuel"
| "waitdisk (Suc k) s =
     (let r = bt_status s (bt_io s); s = s\<lparr>bt_io := bt_io s @ [InB 0x1F7]\<rparr>
      in if r AND 0xC0 \<noteq> 0x40 then waitdisk k s else Inr s)"

definition boot_insl :: "uint \<Rightarrow> nat \<Rightarrow> boot \<Rightarrow> boot" where
  "boot_insl dst cnt s =
     s\<lparr>bt_ram := fold (\<lambda>i m. store32 m (dst + 4 * of_nat i) (get32 (bt_disk s (lba s)) (4 * i))) [0..<cnt] (bt_ram s)\<rparr>"

definition readsect :: "nat \<Rightarrow> uint \<Rightarrow> uint \<Rightarrow> boot \<Rightarrow> kerror + boot" where
  "readsect fuel dst offset s =
     bindE (waitdisk fuel s) (\<lambda>s.
     let s = boot_outb 0x1F2 1 s;
         s = boot_outb 0x1F3 (ucast offset) s;
         s = boot_outb 0x1F4 (ucast (drop_bit 8 offset)) s;
         s = boot_outb 0x1F5 (ucast (drop_bit 16 offset)) s;
         s = boot_outb 0x1F6 (ucast (drop_bit 24 offset OR 0xE0)) s;
         s = boot_outb 0x1F7 0x20 s
     in bindE (waitdisk fuel s) (\<lambda>s. Inr (boot_insl dst (512 div 4) s)))"

text \<open>
  The loop of \<open>readseg\<close>. It advances by a sector each time, so that the number of sectors that cover
  the bytes asked for bounds it unless the end of the segment is within a sector of the end of the
  address space.
\<close>

fun readseg_loop :: "nat \<Rightarrow> nat \<Rightarrow> uint \<Rightarrow> uint \<Rightarrow> uint \<Rightarrow> boot \<Rightarrow> kerror + boot" where
  "readseg_loop fuel 0 pa epa offset s = Inl OutOfFuel"
| "readseg_loop fuel (Suc k) pa epa offset s =
     (if pa < epa then bindE (readsect fuel pa offset s) (readseg_loop fuel k (pa + 512) epa (offset + 1))
      else Inr s)"

definition readseg :: "nat \<Rightarrow> uint \<Rightarrow> uint \<Rightarrow> uint \<Rightarrow> boot \<Rightarrow> kerror + boot" where
  "readseg fuel pa count offset s =
     readseg_loop fuel (unat (count + offset mod 512) div 512 + 2) (pa - offset mod 512) (pa + count)
       (offset div 512 + 1) s"

text \<open>
  Fields of the headers of \<^verbatim>\<open>elf.h\<close> by their offsets. The result is the entry point to jump to,
  or None when the loader returns.
\<close>

fun bootmain_segs :: "nat \<Rightarrow> nat \<Rightarrow> uint \<Rightarrow> boot \<Rightarrow> kerror + boot" where
  "bootmain_segs fuel 0 ph s = Inr s"
| "bootmain_segs fuel (Suc k) ph s =
     (let pa = load32 (bt_ram s) (ph + 12)
      in bindE (readseg fuel pa (load32 (bt_ram s) (ph + 16)) (load32 (bt_ram s) (ph + 4)) s) (\<lambda>s.
         let filesz = load32 (bt_ram s) (ph + 16); memsz = load32 (bt_ram s) (ph + 20);
             s = (if memsz > filesz then s\<lparr>bt_ram := stosb (bt_ram s) (pa + filesz) 0 (memsz - filesz)\<rparr> else s)
         in bootmain_segs fuel k (ph + 32) s))"

definition bootmain :: "nat \<Rightarrow> boot \<Rightarrow> kerror + (uint option \<times> boot)" where
  "bootmain fuel s =
     (let elf = 0x10000
      in bindE (readseg fuel elf 4096 0 s) (\<lambda>s.
         if load32 (bt_ram s) elf \<noteq> 0x464C457F then Inr (None, s)
         else bindE (bootmain_segs fuel (unat (load16 (bt_ram s) (elf + 44))) (elf + load32 (bt_ram s) (elf + 28)) s)
                (\<lambda>s. Inr (Some (load32 (bt_ram s) (elf + 24)), s))))"

section \<open>Reading a sector\<close>

lemma waitdisk_frame:
  "waitdisk k s = Inr t \<Longrightarrow>
     bt_ram t = bt_ram s \<and> bt_port t = bt_port s \<and> bt_status t = bt_status s \<and> bt_disk t = bt_disk s"
  by (induction k s rule: waitdisk.induct) (auto simp: Let_def split: if_splits)

lemma waitdisk_ready:
  assumes "\<And>es. bt_status s es AND 0xC0 = 0x40"
  shows "waitdisk (Suc k) s = Inr (s\<lparr>bt_io := bt_io s @ [InB 0x1F7]\<rparr>)"
  using assms by (simp add: Let_def)

lemma drive_bits:
  fixes d :: uint
  assumes "d < 16"
  shows "ucast (ucast (d OR 0xE0) :: uchar) AND 0xF = d"
proof -
  have "list_all (\<lambda>k. ucast (ucast ((word_of_nat k :: uint) OR 0xE0) :: uchar) AND (0xF :: uint) = word_of_nat k) [0..<16]"
    by code_simp
  moreover have "unat d \<in> set [0..<16]" using assms by (simp add: word_less_nat_alt)
  ultimately have "ucast (ucast ((word_of_nat (unat d) :: uint) OR 0xE0) :: uchar) AND (0xF :: uint) = word_of_nat (unat d)"
    unfolding list_all_iff by blast
  then show ?thesis by simp
qed

lemma lba_ports:
  fixes n :: uint
  assumes "n < 2 ^ 28"
  shows "ucast (ucast n :: uchar) OR push_bit 8 (ucast (ucast (drop_bit 8 n) :: uchar))
     OR push_bit 16 (ucast (ucast (drop_bit 16 n) :: uchar))
     OR push_bit 24 (ucast (ucast (drop_bit 24 n OR 0xE0) :: uchar) AND 0xF) = n"
proof -
  have "unat (drop_bit 24 n) < 16"
    unfolding unat_drop_bit_eq using assms by (simp add: drop_bit_eq_div word_less_nat_alt less_mult_imp_div_less)
  then have d: "ucast (ucast (drop_bit 24 n OR 0xE0) :: uchar) AND 0xF = drop_bit 24 n"
    by (intro drive_bits) (simp add: word_less_nat_alt)
  show ?thesis unfolding d
  proof (rule bit_word_eqI)
    fix i assume "i < LENGTH(32)"
    then consider "i < 8" | "8 \<le> i" "i < 16" | "16 \<le> i" "i < 24" | "24 \<le> i" "i < 32" by fastforce
    then show "bit (ucast (ucast n :: uchar) OR push_bit 8 (ucast (ucast (drop_bit 8 n) :: uchar))
       OR push_bit 16 (ucast (ucast (drop_bit 16 n) :: uchar)) OR push_bit 24 (drop_bit 24 n)) i = bit n i"
      by cases (auto simp: bit_simps)
  qed
qed

lemma get32_byte:
  assumes "j < 4"
  shows "ucast (drop_bit (8 * j) (get32 d k)) = d (k + j)"
proof -
  from assms consider "j = 0" | "j = 1" | "j = 2" | "j = 3" by linarith
  then show ?thesis
    by cases (rule bit_word_eqI; auto simp: get32_def bit_simps dest: bit_imp_le_length)+
qed

lemma offset_in_dword:
  fixes x dst :: uint
  assumes "4 * n + 4 \<le> 2 ^ 32"
  shows "x - (dst + 4 * of_nat n) < 4 \<longleftrightarrow> 4 * n \<le> unat (x - dst) \<and> unat (x - dst) < 4 * n + 4"
    and "4 * n \<le> unat (x - dst) \<Longrightarrow> unat (x - (dst + 4 * of_nat n)) = unat (x - dst) - 4 * n"
proof -
  define y where "y = x - dst"
  have n: "unat (4 * of_nat n :: uint) = 4 * n"
    using assms by (simp add: unat_word_ariths unat_of_nat take_bit_nat_eq_self)
  have e: "x - (dst + 4 * of_nat n) = y - 4 * of_nat n" by (simp add: y_def)
  show "4 * n \<le> unat (x - dst) \<Longrightarrow> unat (x - (dst + 4 * of_nat n)) = unat (x - dst) - 4 * n"
    unfolding e using n by (simp add: unat_sub word_le_nat_alt flip: y_def)
  show "x - (dst + 4 * of_nat n) < 4 \<longleftrightarrow> 4 * n \<le> unat (x - dst) \<and> unat (x - dst) < 4 * n + 4"
  proof (cases "4 * n \<le> unat y")
    case True
    then have "unat (y - 4 * of_nat n) = unat y - 4 * n" using n by (simp add: unat_sub word_le_nat_alt)
    then show ?thesis unfolding e using True by (auto simp: word_less_nat_alt y_def)
  next
    case False
    have "unat (y - 4 * of_nat n) = 2 ^ 32 + unat y - 4 * n"
      using False n by (simp add: unat_sub_if_size word_size not_le word_le_nat_alt)
    then show ?thesis unfolding e using False assms by (auto simp: word_less_nat_alt y_def)
  qed
qed

lemma insl_bytes:
  "4 * n \<le> 2 ^ 32 \<Longrightarrow>
     fold (\<lambda>i m. store32 m (dst + 4 * of_nat i) (get32 d (4 * i))) [0..<n] m x =
     (if unat (x - dst) < 4 * n then d (unat (x - dst)) else m x)"
proof (induction n)
  case 0
  then show ?case by simp
next
  case (Suc n)
  have b: "4 * n + 4 \<le> 2 ^ 32" using Suc.prems by simp
  show ?case
  proof (cases "4 * n \<le> unat (x - dst) \<and> unat (x - dst) < 4 * n + 4")
    case True
    then have "unat (x - dst) - 4 * n < 4" by linarith
    then show ?thesis
      using True offset_in_dword [OF b, of x dst] get32_byte [of "unat (x - dst) - 4 * n" d "4 * n"]
      by (simp add: store32_apply)
  next
    case False
    then show ?thesis using Suc.IH b offset_in_dword(1) [OF b, of x dst] by (auto simp: store32_apply)
  qed
qed

lemma readsect_reads:
  assumes "\<And>es. bt_status s es AND 0xC0 = 0x40" and "0 < fuel" and "offset < 2 ^ 28"
  obtains t where "readsect fuel dst offset s = Inr t"
    and "bt_ram t = (\<lambda>x. if unat (x - dst) < 512 then bt_disk s offset (unat (x - dst)) else bt_ram s x)"
    and "bt_status t = bt_status s" and "bt_disk t = bt_disk s"
proof -
  obtain k where k: "fuel = Suc k" using assms(2) gr0_implies_Suc by blast
  define io where "io = bt_io s @ [InB 0x1F7, OutB 0x1F2 1, OutB 0x1F3 (ucast offset), OutB 0x1F4 (ucast (drop_bit 8 offset)),
    OutB 0x1F5 (ucast (drop_bit 16 offset)), OutB 0x1F6 (ucast (drop_bit 24 offset OR 0xE0)), OutB 0x1F7 0x20, InB 0x1F7]"
  define ports where "ports = (bt_port s)(0x1F2 := 1, 0x1F3 := ucast offset, 0x1F4 := ucast (drop_bit 8 offset),
    0x1F5 := ucast (drop_bit 16 offset), 0x1F6 := ucast (drop_bit 24 offset OR 0xE0), 0x1F7 := 0x20)"
  define u where "u = s\<lparr>bt_port := ports, bt_io := io\<rparr>"
  have u: "readsect fuel dst offset s = Inr (boot_insl dst (512 div 4) u)"
    unfolding readsect_def k u_def io_def ports_def
    by (simp add: assms(1) Let_def boot_outb_def)
  have l: "lba u = offset"
    using lba_ports [OF assms(3)] by (simp add: lba_def u_def ports_def)
  have r: "bt_ram (boot_insl dst (512 div 4) u) =
      (\<lambda>x. if unat (x - dst) < 512 then bt_disk s offset (unat (x - dst)) else bt_ram s x)"
    using insl_bytes [of 128 dst "bt_disk s offset" "bt_ram s"] unfolding boot_insl_def l
    by (simp add: u_def fun_eq_iff)
  show thesis
    by (rule that [OF u r]) (simp_all add: boot_insl_def u_def)
qed

section \<open>Reading a segment\<close>

text \<open>The bytes of the disk in a row, and memory after \<open>n\<close> sectors from \<open>sec\<close> on were put at \<open>pa\<close>.\<close>

definition disk_byte :: "boot \<Rightarrow> nat \<Rightarrow> uchar" where
  "disk_byte s j = bt_disk s (of_nat (j div 512)) (j mod 512)"

definition with_sectors :: "boot \<Rightarrow> uint \<Rightarrow> nat \<Rightarrow> uint \<Rightarrow> memory" where
  "with_sectors s pa n sec x =
     (if unat (x - pa) < 512 * n then disk_byte s (512 * unat sec + unat (x - pa)) else bt_ram s x)"

lemma offset_next:
  fixes x pa :: uint
  assumes "unat pa + 512 \<le> 2 ^ 32 - 1"
  shows "512 \<le> unat (x - pa) \<Longrightarrow> unat (x - (pa + 512)) = unat (x - pa) - 512"
    and "unat (x - pa) < 512 \<Longrightarrow> unat (x - (pa + 512)) = 2 ^ 32 + unat (x - pa) - 512"
proof -
  have e: "x - (pa + 512) = (x - pa) - 512" by simp
  show "512 \<le> unat (x - pa) \<Longrightarrow> unat (x - (pa + 512)) = unat (x - pa) - 512"
    unfolding e by (simp add: unat_sub word_le_nat_alt)
  show "unat (x - pa) < 512 \<Longrightarrow> unat (x - (pa + 512)) = 2 ^ 32 + unat (x - pa) - 512"
    unfolding e by (subst unat_sub_if_size) (simp add: word_size word_le_nat_alt)
qed

lemma with_sectors_Suc:
  assumes t: "bt_ram t = (\<lambda>x. if unat (x - pa) < 512 then bt_disk s sec (unat (x - pa)) else bt_ram s x)"
    and d: "bt_disk t = bt_disk s" and b: "unat pa + 512 * Suc n < 2 ^ 32" and o: "unat sec + 1 < 2 ^ 32"
  shows "with_sectors t (pa + 512) n (sec + 1) = with_sectors s pa (Suc n) sec"
proof
  fix x
  have s1: "unat (sec + 1) = unat sec + 1" using o by (simp add: unat_word_ariths)
  have n: "512 * n < 2 ^ 32 - 512" using b by simp
  show "with_sectors t (pa + 512) n (sec + 1) x = with_sectors s pa (Suc n) sec x"
  proof (cases "unat (x - pa) < 512")
    case True
    have "unat (x - (pa + 512)) \<ge> 512 * n"
      using offset_next(2) [OF _ True] n b by simp
    then show ?thesis using True t by (simp add: with_sectors_def disk_byte_def)
  next
    case False
    then have "unat (x - (pa + 512)) = unat (x - pa) - 512"
      using offset_next(1) [of pa x] b by simp
    moreover have "512 * (unat sec + 1) + (unat (x - pa) - 512) = 512 * unat sec + unat (x - pa)"
      using False by simp
    ultimately show ?thesis using False t d by (auto simp: with_sectors_def disk_byte_def s1)
  qed
qed

lemma readseg_loop_reads:
  assumes "\<And>es. bt_status s es AND 0xC0 = 0x40" and "0 < fuel"
    and "unat pa + 512 * n < 2 ^ 32" and "unat sec + n \<le> 2 ^ 28" and "n < k"
    and "unat epa \<le> unat pa + 512 * n" and "0 < n \<Longrightarrow> unat pa + 512 * (n - 1) < unat epa"
  shows "\<exists>t. readseg_loop fuel k pa epa sec s = Inr t \<and> bt_ram t = with_sectors s pa n sec"
  using assms
proof (induction n arbitrary: k pa sec s)
  case 0
  then obtain j where "k = Suc j" using gr0_implies_Suc by blast
  with 0 show ?case by (simp add: word_less_nat_alt with_sectors_def fun_eq_iff)
next
  case (Suc n)
  obtain j where k: "k = Suc j" using Suc.prems(5) by (cases k) auto
  have lt: "pa < epa" using Suc.prems(7) by (simp add: word_less_nat_alt)
  have "sec < 2 ^ 28" using Suc.prems(4) by (simp add: word_less_nat_alt)
  then obtain t where t: "readsect fuel pa sec s = Inr t"
    "bt_ram t = (\<lambda>x. if unat (x - pa) < 512 then bt_disk s sec (unat (x - pa)) else bt_ram s x)"
    "bt_status t = bt_status s" "bt_disk t = bt_disk s"
    using readsect_reads [OF Suc.prems(1,2), of sec pa] by blast
  have pa: "unat (pa + 512) = unat pa + 512" using Suc.prems(3) by (simp add: unat_word_ariths)
  have sec: "unat (sec + 1) = unat sec + 1" using Suc.prems(4) by (simp add: unat_word_ariths)
  have "\<exists>u. readseg_loop fuel j (pa + 512) epa (sec + 1) t = Inr u \<and> bt_ram u = with_sectors t (pa + 512) n (sec + 1)"
  proof (rule Suc.IH)
    show "0 < n \<Longrightarrow> unat (pa + 512) + 512 * (n - 1) < unat epa"
      using Suc.prems(7) by (cases n) (simp_all add: pa)
  qed (use Suc.prems k t(3) in \<open>simp_all add: pa sec\<close>)
  moreover have "with_sectors t (pa + 512) n (sec + 1) = with_sectors s pa (Suc n) sec"
    using t(2,4) Suc.prems(3,4) by (intro with_sectors_Suc) simp_all
  ultimately show ?case using k lt t(1) by simp
qed

text \<open>
  (C15) The boot loader's \<^verbatim>\<open>readseg\<close> puts the bytes of the kernel file where they belong: with a disk
  that is ready, and a segment that with one more sector stays inside the address space, it returns, the
  \<open>count\<close> bytes at \<open>pa\<close> are those at \<open>offset\<close> of the file, which starts at sector 1, and
  memory below the sector that holds the first byte and a sector beyond the last is as before.
\<close>

theorem readseg_loads:
  assumes "\<And>es. bt_status s es AND 0xC0 = 0x40" and "0 < fuel"
    and "unat (offset mod 512) \<le> unat pa" and "unat pa + unat count + 512 < 2 ^ 32"
  shows "\<exists>t. readseg fuel pa count offset s = Inr t \<and>
      (\<forall>k < unat count. bt_ram t (pa + of_nat k) = disk_byte s (512 + unat offset + k)) \<and>
      (\<forall>x. unat x < unat pa - unat (offset mod 512) \<or> unat pa + unat count + 511 \<le> unat x \<longrightarrow>
         bt_ram t x = bt_ram s x)"
proof -
  define r where "r = unat (offset mod 512)"
  define n where "n = (unat count + r + 511) div 512"
  define p where "p = pa - offset mod 512"
  have r: "r = unat offset mod 512" "r < 512" by (simp_all add: r_def unat_mod_distrib)
  have p: "unat p = unat pa - r" using assms(3) by (simp add: p_def r_def unat_sub word_le_nat_alt)
  have epa: "unat (pa + count) = unat pa + unat count" using assms(4) by (simp add: unat_word_ariths)
  have cnt: "unat (count + offset mod 512) = unat count + r"
    using assms(3,4) by (simp add: unat_word_ariths r_def)
  have ob: "unat offset < 4294967296" by (rule order_less_le_trans [OF unsigned_less]) simp
  have sec: "unat (offset div 512 + 1) = unat offset div 512 + 1"
    using ob by (simp add: unat_word_ariths unat_div_distrib)
  have nm: "512 * n + (unat count + r + 511) mod 512 = unat count + r + 511" "(unat count + r + 511) mod 512 < 512"
    unfolding n_def by simp_all
  have n: "unat count + r \<le> 512 * n" "512 * n \<le> unat count + r + 511" "0 < n \<Longrightarrow> 512 * (n - 1) < unat count + r"
    using nm by (cases n; simp)+
  have "\<exists>t. readseg_loop fuel (unat (count + offset mod 512) div 512 + 2) p (pa + count) (offset div 512 + 1) s = Inr t \<and>
      bt_ram t = with_sectors s p n (offset div 512 + 1)"
  proof (rule readseg_loop_reads [OF assms(1,2)])
    show "unat p + 512 * n < 2 ^ 32" "unat (pa + count) \<le> unat p + 512 * n"
      "0 < n \<Longrightarrow> unat p + 512 * (n - 1) < unat (pa + count)"
      using n p epa assms(3,4) by (auto simp: r_def)
    show "unat (offset div 512 + 1) + n \<le> 2 ^ 28"
      using n(2) r(2) assms(4) ob by (simp add: sec)
    show "n < unat (count + offset mod 512) div 512 + 2"
      unfolding cnt n_def by (simp add: less_Suc_eq_le div_le_mono)
  qed
  then obtain t where t: "readseg fuel pa count offset s = Inr t" "bt_ram t = with_sectors s p n (offset div 512 + 1)"
    by (auto simp: readseg_def p_def)
  have pos: "512 * (unat offset div 512 + 1) + (r + k) = 512 + unat offset + k" for k
    using r(1) mult_div_mod_eq [of 512 "unat offset"] by simp
  have "bt_ram t (pa + of_nat k) = disk_byte s (512 + unat offset + k)" if "k < unat count" for k
  proof -
    have "pa + of_nat k - p = offset mod 512 + of_nat k" by (simp add: p_def)
    moreover have "unat (offset mod 512 + of_nat k) = r + k"
      using that assms(3,4) by (simp add: unat_word_ariths unat_of_nat r_def take_bit_nat_eq_self)
    ultimately have u: "unat (pa + of_nat k - p) = r + k" by (simp only:)
    show ?thesis using that n(1) unfolding t(2) with_sectors_def u sec pos by simp
  qed
  moreover have "bt_ram t x = bt_ram s x" if "unat x < unat pa - r \<or> unat pa + unat count + 511 \<le> unat x" for x
  proof -
    have "\<not> unat (x - p) < 512 * n"
      using that n(2) p assms(3,4)
      by (auto simp: unat_sub_if_size word_size word_le_nat_alt r_def)
    then show ?thesis by (simp add: t(2) with_sectors_def)
  qed
  ultimately show ?thesis using t(1) unfolding r_def by blast
qed

definition a_boot :: boot where
  "a_boot = \<lparr>bt_ram = (\<lambda>_. 0), bt_io = [], bt_port = (\<lambda>_. 0), bt_status = (\<lambda>_. 0x40),
     bt_disk = (\<lambda>sec k. of_nat k + ucast sec)\<rparr>"

text \<open>Two bytes across a sector boundary: the last of sector 1 and the first of sector 2.\<close>

theorem readseg_loads_witness:
  "\<exists>t. readseg 1 0x10000 2 511 a_boot = Inr t \<and> bt_ram t 0x10000 = 0 \<and> bt_ram t 0x10001 = 2"
proof -
  have d: "disk_byte a_boot 1023 = 0" "disk_byte a_boot 1024 = 2" by code_simp+
  have c: "unat (511 mod 512 :: uint) = 511" by code_simp
  have "\<exists>t. readseg 1 0x10000 2 511 a_boot = Inr t \<and>
      (\<forall>k < unat (2 :: uint). bt_ram t (0x10000 + of_nat k) = disk_byte a_boot (512 + unat (511 :: uint) + k)) \<and>
      (\<forall>x. unat x < unat (0x10000 :: uint) - unat (511 mod 512 :: uint) \<or> unat (0x10000 :: uint) + unat (2 :: uint) + 511 \<le> unat x \<longrightarrow>
         bt_ram t x = bt_ram a_boot x)"
    by (rule readseg_loads) (simp_all add: c a_boot_def)
  then obtain t where t: "readseg 1 0x10000 2 511 a_boot = Inr t"
    "\<forall>k < 2. bt_ram t (0x10000 + of_nat k) = disk_byte a_boot (1023 + k)" by auto
  show ?thesis using t(1) t(2) [rule_format, of 0] t(2) [rule_format, of 1] d by auto
qed

end
