(* ===== verification/Mkfs.thy ===== *)
theory Mkfs
  imports Disk_Layout
begin

text \<open>
  The program that builds the file system image, \<^verbatim>\<open>mkfs.c\<close>, and how the image it writes is
  seen by the kernel's file system.
\<close>

section \<open>State\<close>

text \<open>
  The image file is its number of sectors and their contents; \<open>mk_host\<close> says which sectors the host
  lets the program write. The static variables of the program follow. \<open>MkExit\<close> is a call of
  \<^verbatim>\<open>exit(1)\<close>, \<open>MkAssert\<close> a failed assertion.
\<close>

record mkfs =
  mk_len :: nat
  mk_img :: "uint \<Rightarrow> block"
  mk_host :: "uint \<Rightarrow> bool"
  freeblock :: uint
  usedblocks :: uint
  freeinode :: uint

datatype mkerror = MkExit | MkAssert string

abbreviation (input) nblocks :: uint where "nblocks \<equiv> 985"
abbreviation (input) nlog :: uint where "nlog \<equiv> 10"
abbreviation (input) ninodes :: uint where "ninodes \<equiv> 200"
abbreviation (input) mk_size :: uint where "mk_size \<equiv> 1024"

section \<open>Byte order\<close>

text \<open>The program writes the bytes of the result one by one and returns them as the (little-endian) host reads them.\<close>

definition xshort :: "ushort \<Rightarrow> ushort" where
  "xshort x = get16 (put16 0 x (\<lambda>_. 0)) 0"

definition xint :: "uint \<Rightarrow> uint" where
  "xint x = get32 (put32 0 x (\<lambda>_. 0)) 0"

section \<open>Sectors and inodes\<close>

definition wsect :: "uint \<Rightarrow> block \<Rightarrow> mkfs \<Rightarrow> mkerror + mkfs" where
  "wsect sec buf s =
     (if mk_host s sec
      then Inr (s\<lparr>mk_img := (mk_img s)(sec := buf), mk_len := max (mk_len s) (unat sec + 1)\<rparr>)
      else Inl MkExit)"

definition rsect :: "uint \<Rightarrow> mkfs \<Rightarrow> mkerror + block" where
  "rsect sec s = (if unat sec < mk_len s then Inr (mk_img s sec) else Inl MkExit)"

definition i2b :: "uint \<Rightarrow> uint" where
  "i2b inum = inum div IPB + 2"

definition zero_dinode :: inode where
  "zero_dinode = \<lparr>i_dev = 0, i_inum = 0, i_ref = 0, i_busy = False, i_valid = False, i_type = 0, i_major = 0,
     i_minor = 0, i_nlink = 0, i_size = 0, i_addrs = (\<lambda>_. 0)\<rparr>"

definition winode :: "uint \<Rightarrow> inode \<Rightarrow> mkfs \<Rightarrow> mkerror + mkfs" where
  "winode inum ip s =
     bindE (rsect (i2b inum) s) (\<lambda>buf. wsect (i2b inum) (put_dinode (dinode_off inum) ip buf) s)"

definition rinode :: "uint \<Rightarrow> mkfs \<Rightarrow> mkerror + inode" where
  "rinode inum s =
     bindE (rsect (i2b inum) s) (\<lambda>buf. Inr (get_dinode buf (dinode_off inum) zero_dinode))"

definition mk_ialloc :: "ushort \<Rightarrow> mkfs \<Rightarrow> mkerror + (uint \<times> mkfs)" where
  "mk_ialloc type s =
     (let inum = freeinode s; s = s\<lparr>freeinode := freeinode s + 1\<rparr>;
          din = zero_dinode\<lparr>i_type := xshort type, i_nlink := xshort 1, i_size := xint 0\<rparr>
      in bindE (winode inum din s) (\<lambda>s. Inr (inum, s)))"

text \<open>The bitmap with the first \<open>used\<close> bits set, and its block.\<close>

definition mark_used :: "nat \<Rightarrow> block \<Rightarrow> block" where
  "mark_used i buf = buf(i div 8 := buf (i div 8) OR push_bit (i mod 8) 1)"

definition mk_balloc :: "uint \<Rightarrow> mkfs \<Rightarrow> mkerror + mkfs" where
  "mk_balloc used s =
     (if \<not> sint used < 512 * 8 then Inl (MkAssert ''used < 512*8'')
      else wsect (ninodes div IPB + 3) (fold mark_used [0..<nat (sint used)] (\<lambda>_. 0)) s)"

section \<open>Appending to a file\<close>

definition take_block :: "mkfs \<Rightarrow> uint \<times> mkfs" where
  "take_block s = (xint (freeblock s), s\<lparr>freeblock := freeblock s + 1, usedblocks := usedblocks s + 1\<rparr>)"

text \<open>A pointer of the inode, set to a new block when it is null.\<close>

definition ensure_addr :: "nat \<Rightarrow> inode \<Rightarrow> mkfs \<Rightarrow> inode \<times> mkfs" where
  "ensure_addr k din s =
     (if xint (i_addrs din k) = 0
      then let (x, s) = take_block s in (din\<lparr>i_addrs := (i_addrs din)(k := x)\<rparr>, s)
      else (din, s))"

text \<open>The sector of block \<open>fbn\<close> of the file, allocated when the file has none.\<close>

definition file_sector :: "nat \<Rightarrow> inode \<Rightarrow> mkfs \<Rightarrow> mkerror + (uint \<times> inode \<times> mkfs)" where
  "file_sector fbn din s =
     (if fbn < NDIRECT then
        let (din, s) = ensure_addr fbn din s
        in Inr (xint (i_addrs din fbn), din, s)
      else
        let (din, s) = ensure_addr NDIRECT din s
        in bindE (rsect (xint (i_addrs din NDIRECT)) s) (\<lambda>indirect.
           if get32 indirect (4 * (fbn - NDIRECT)) = 0 then
             let (x, s) = take_block s; indirect = put32 (4 * (fbn - NDIRECT)) x indirect
             in bindE (wsect (xint (i_addrs din NDIRECT)) indirect s) (\<lambda>s.
                Inr (xint (get32 indirect (4 * (fbn - NDIRECT))), din, s))
           else Inr (xint (get32 indirect (4 * (fbn - NDIRECT))), din, s)))"

definition bcopy :: "uchar list \<Rightarrow> nat \<Rightarrow> block \<Rightarrow> block" where
  "bcopy src off buf = (\<lambda>k. if off \<le> k \<and> k < off + length src then src ! (k - off) else buf k)"

function iappend_loop :: "nat \<Rightarrow> uchar list \<Rightarrow> inode \<Rightarrow> mkfs \<Rightarrow> mkerror + (nat \<times> inode \<times> mkfs)" where
  "iappend_loop off p din s =
     (if p = [] then Inr (off, din, s)
      else
        let fbn = off div 512
        in if \<not> fbn < MAXFILE then Inl (MkAssert ''fbn < MAXFILE'')
           else bindE (file_sector fbn din s) (\<lambda>(x, din, s).
             let n1 = min (length p) ((fbn + 1) * 512 - off)
             in bindE (rsect x s) (\<lambda>buf.
                bindE (wsect x (bcopy (take n1 p) (off - fbn * 512) buf) s) (\<lambda>s.
                iappend_loop (off + n1) (drop n1 p) din s))))"
  by pat_completeness auto

termination
proof (relation "measure (\<lambda>(off, p, din, s). length p)", goal_cases)
  case (2 off p din s fbn x y z u v n1 buf t)
  have "off < (off div 512 + 1) * 512" by (simp add: dividend_less_div_times)
  with 2 show ?case by simp
qed simp

definition iappend :: "uint \<Rightarrow> uchar list \<Rightarrow> mkfs \<Rightarrow> mkerror + mkfs" where
  "iappend inum p s =
     bindE (rinode inum s) (\<lambda>din.
     bindE (iappend_loop (unat (xint (i_size din))) p din s) (\<lambda>(off, din, s).
     winode inum (din\<lparr>i_size := xint (of_nat off)\<rparr>) s))"

section \<open>The program\<close>

fun mk_foldE :: "('x \<Rightarrow> mkfs \<Rightarrow> mkerror + mkfs) \<Rightarrow> 'x list \<Rightarrow> mkfs \<Rightarrow> mkerror + mkfs" where
  "mk_foldE f [] s = Inr s"
| "mk_foldE f (x # xs) s = bindE (f x s) (mk_foldE f xs)"

text \<open>The pieces in which a file is read, of 512 bytes except for the last.\<close>

function pieces :: "uchar list \<Rightarrow> uchar list list" where
  "pieces xs = (if xs = [] then [] else take 512 xs # pieces (drop 512 xs))"
  by pat_completeness auto

termination by (relation "measure length") (auto simp: length_greater_0_conv [symmetric] simp del: length_greater_0_conv)

declare pieces.simps [simp del]

text \<open>An argument is the name of a file and its contents, None when it cannot be opened.\<close>

definition add_file :: "uint \<Rightarrow> string \<times> uchar list option \<Rightarrow> mkfs \<Rightarrow> mkerror + mkfs" where
  "add_file rootino = (\<lambda>(name, contents) s.
     if CHR ''/'' \<in> set name then Inl (MkAssert ''index(argv[i], /) == 0'')
     else case contents of
       None \<Rightarrow> Inl MkExit
     | Some bytes \<Rightarrow>
         let name = (case name of c # cs \<Rightarrow> if c = CHR ''_'' then cs else name | [] \<Rightarrow> name)
         in bindE (mk_ialloc T_FILE s) (\<lambda>(inum, s).
            bindE (iappend rootino (make_dirent (xshort (ucast inum)) name) s) (\<lambda>s.
            mk_foldE (iappend inum) (pieces bytes) s)))"

definition put_superblock :: "block" where
  "put_superblock = put32 12 (xint nlog) (put32 8 (xint ninodes) (put32 4 (xint nblocks) (put32 0 (xint mk_size) (\<lambda>_. 0))))"

definition fix_root :: "uint \<Rightarrow> mkfs \<Rightarrow> mkerror + mkfs" where
  "fix_root rootino s =
     bindE (rinode rootino s) (\<lambda>din.
     let off = xint (i_size din); off = (off div 512 + 1) * 512
     in winode rootino (din\<lparr>i_size := xint off\<rparr>) s)"

text \<open>The zeroed image; then everything that is put on it.\<close>

definition mkfs_format :: "mkfs \<Rightarrow> mkerror + mkfs" where
  "mkfs_format s =
     (let bitblocks = mk_size div (512 * 8) + 1;
          s = s\<lparr>usedblocks := ninodes div IPB + 3 + bitblocks\<rparr>;
          s = s\<lparr>freeblock := usedblocks s\<rparr>
      in if nblocks + usedblocks s + nlog \<noteq> mk_size then Inl (MkAssert ''nblocks + usedblocks + nlog == size'')
         else mk_foldE (\<lambda>i. wsect (of_nat i) (\<lambda>_. 0)) [0..<unat (nblocks + usedblocks s + nlog)] s)"

definition mkfs_fill :: "(string \<times> uchar list option) list \<Rightarrow> mkfs \<Rightarrow> mkerror + mkfs" where
  "mkfs_fill files s =
     bindE (wsect 1 put_superblock s) (\<lambda>s.
     bindE (mk_ialloc T_DIR s) (\<lambda>(rootino, s).
     if rootino \<noteq> ROOTINO then Inl (MkAssert ''rootino == ROOTINO'')
     else
       bindE (iappend rootino (make_dirent (xshort (ucast rootino)) ''.'') s) (\<lambda>s.
       bindE (iappend rootino (make_dirent (xshort (ucast rootino)) ''..'') s) (\<lambda>s.
       bindE (mk_foldE (add_file rootino) files s) (\<lambda>s.
       bindE (fix_root rootino s) (\<lambda>s.
       mk_balloc (usedblocks s) s))))))"

text \<open>
  The static variables as the program starts, and the program: \<open>target\<close> is None without an argument
  for the image file, and says otherwise whether the host opens it.
\<close>

definition mkfs_start :: "(uint \<Rightarrow> bool) \<Rightarrow> mkfs" where
  "mkfs_start host = \<lparr>mk_len = 0, mk_img = (\<lambda>_ _. 0), mk_host = host, freeblock = 0, usedblocks = 0, freeinode = 1\<rparr>"

definition mkfs_main :: "bool option \<Rightarrow> (string \<times> uchar list option) list \<Rightarrow> mkfs \<Rightarrow> mkerror + mkfs" where
  "mkfs_main target files s =
     (if target \<noteq> Some True then Inl MkExit else bindE (mkfs_format s) (mkfs_fill files))"

section \<open>The image and the kernel\<close>

lemma xshort_id [simp]: "xshort x = x"
  by (simp add: xshort_def)

lemma xint_id [simp]: "xint x = x"
  by (simp add: xint_def)

lemma bit_mark_used:
  "i < 8 \<Longrightarrow> bit (fold mark_used [0..<n] (\<lambda>_. 0) k) i \<longleftrightarrow> 8 * k + i < n"
proof (induction n)
  case (Suc n)
  have "n div 8 = k \<and> n mod 8 = i \<longleftrightarrow> n = 8 * k + i"
    using Suc.prems div_mult_mod_eq [of n 8] by auto
  then show ?case using Suc by (auto simp: mark_used_def bit_simps)
qed simp

lemma free_bit_iff: "free_bit d b \<longleftrightarrow> \<not> bit (d (b div 8)) (b mod 8)"
proof -
  have "d (b div 8) AND bit_mask b = (if bit (d (b div 8)) (b mod 8) then push_bit (b mod 8) 1 else 0)"
    by (rule bit_word_eqI) (auto simp: bit_mask_def bit_simps)
  then show ?thesis
    by (auto simp: free_bit_def push_bit_eq_mult)
qed

section \<open>Which blocks are in use\<close>

text \<open>
  The data area has blocks of two kinds, data blocks and indirect blocks; the sectors from
  \<^verbatim>\<open>freeblock\<close> on are still zero. The pointers of an inode and of the indirect blocks are null or
  lead to blocks of the right kind.
\<close>

definition blocks_ok :: "uint set \<Rightarrow> uint set \<Rightarrow> mkfs \<Rightarrow> bool" where
  "blocks_ok D I s \<longleftrightarrow>
     D \<inter> I = {} \<and> (\<forall>b \<in> D \<union> I. 29 \<le> b \<and> b < freeblock s) \<and>
     (\<forall>b \<in> I. \<forall>j < NINDIRECT. get32 (mk_img s b) (4 * j) \<in> insert 0 D) \<and>
     (\<forall>b. freeblock s \<le> b \<longrightarrow> mk_img s b = (\<lambda>_. 0)) \<and>
     usedblocks s = freeblock s \<and> 29 \<le> freeblock s \<and> mk_len s = 1024"

definition inode_ok :: "uint set \<Rightarrow> uint set \<Rightarrow> inode \<Rightarrow> bool" where
  "inode_ok D I din \<longleftrightarrow> (\<forall>k < NDIRECT. i_addrs din k \<in> insert 0 D) \<and> i_addrs din NDIRECT \<in> insert 0 I"

definition stored_inode :: "mkfs \<Rightarrow> uint \<Rightarrow> inode" where
  "stored_inode s inum = get_dinode (mk_img s (i2b inum)) (dinode_off inum) zero_dinode"

definition image_ok :: "mkfs \<Rightarrow> bool" where
  "image_ok s \<longleftrightarrow> freeblock s \<le> 1024 \<and>
     (\<exists>D I. blocks_ok D I s \<and> (\<forall>inum < 208. inode_ok D I (stored_inode s inum)))"

lemma inode_ok_mono: "inode_ok D I din \<Longrightarrow> D \<subseteq> D' \<Longrightarrow> I \<subseteq> I' \<Longrightarrow> inode_ok D' I' din"
  by (auto simp: inode_ok_def)

lemma get32_zero [simp]: "get32 (\<lambda>_. 0) k = 0" and get16_zero [simp]: "get16 (\<lambda>_. 0) k = 0"
  by (simp_all add: get32_def get16_def)

lemma next_block:
  fixes f :: uint
  assumes "f \<le> 1025"
  shows "f < f + 1" and "b < f + 1 \<longleftrightarrow> b \<le> f" and "f + 1 \<le> b \<longleftrightarrow> f < b"
proof -
  have "unat (f + 1) = unat f + 1" using assms by (simp add: unat_word_ariths word_le_nat_alt)
  then show "f < f + 1" "b < f + 1 \<longleftrightarrow> b \<le> f" "f + 1 \<le> b \<longleftrightarrow> f < b"
    by (auto simp: word_less_nat_alt word_le_nat_alt)
qed

lemma blocks_ok_take_data:
  assumes "blocks_ok D I s" and "freeblock s \<le> 1025"
  shows "blocks_ok (insert (freeblock s) D) I (snd (take_block s))" and "freeblock s \<notin> D \<union> I"
  using assms(1) by (auto simp: blocks_ok_def take_block_def next_block(2,3) [OF assms(2)] intro: less_imp_le)

lemma blocks_ok_take_indirect:
  assumes "blocks_ok D I s" and "freeblock s \<le> 1025"
  shows "blocks_ok D (insert (freeblock s) I) (snd (take_block s))"
  using assms(1) by (auto simp: blocks_ok_def take_block_def next_block(2,3) [OF assms(2)] intro: less_imp_le)

lemma wsect_inside:
  assumes "wsect x buf s = Inr t" and "x < 1024" and "mk_len s = 1024"
  shows "t = s\<lparr>mk_img := (mk_img s)(x := buf)\<rparr>"
proof -
  have "max (mk_len s) (unat x + 1) = mk_len s" using assms(2,3) by (simp add: word_less_nat_alt)
  then show ?thesis using assms(1) by (auto simp: wsect_def split: if_splits)
qed

lemma blocks_ok_write:
  assumes "blocks_ok D I s" and "x < freeblock s"
    and "x \<in> I \<Longrightarrow> \<forall>j < NINDIRECT. get32 buf (4 * j) \<in> insert 0 D"
  shows "blocks_ok D I (s\<lparr>mk_img := (mk_img s)(x := buf)\<rparr>)"
proof -
  have "mk_img (s\<lparr>mk_img := (mk_img s)(x := buf)\<rparr>) b = mk_img s b" if "freeblock s \<le> b" for b
    using that assms(2) by auto
  moreover have "\<forall>j < NINDIRECT. get32 (((mk_img s)(x := buf)) b) (4 * j) \<in> insert 0 D" if "b \<in> I" for b
    using that assms(1,3) by (cases "b = x") (auto simp: blocks_ok_def)
  ultimately show ?thesis using assms(1) unfolding blocks_ok_def by simp
qed

lemma blocks_ok_write_data:
  assumes "blocks_ok D I s" and "x \<in> D" and "wsect x buf s = Inr t" and "x < 1024"
  shows "blocks_ok D I t" and "t = s\<lparr>mk_img := (mk_img s)(x := buf)\<rparr>"
proof -
  show t: "t = s\<lparr>mk_img := (mk_img s)(x := buf)\<rparr>"
    using assms by (intro wsect_inside) (auto simp: blocks_ok_def)
  show "blocks_ok D I t"
    unfolding t using assms(1,2) by (intro blocks_ok_write) (auto simp: blocks_ok_def)
qed

lemma get32_put32_entry: "get32 (put32 (4 * j) y d) (4 * i) = (if i = j then y else get32 d (4 * i))"
  by (cases "i = j") (simp, subst get32_put32_other, auto)

lemma blocks_ok_write_indirect:
  assumes "blocks_ok D I s" and "x \<in> I" and "wsect x (put32 (4 * j) y (mk_img s x)) s = Inr t" and "x < 1024"
    and "y \<in> D"
  shows "blocks_ok D I t" and "t = s\<lparr>mk_img := (mk_img s)(x := put32 (4 * j) y (mk_img s x))\<rparr>"
proof -
  have "get32 (put32 (4 * j) y (mk_img s x)) (4 * i) \<in> insert 0 D" if "i < NINDIRECT" for i
    using assms(1,2,5) that unfolding get32_put32_entry by (auto simp: blocks_ok_def)
  moreover show t: "t = s\<lparr>mk_img := (mk_img s)(x := put32 (4 * j) y (mk_img s x))\<rparr>"
    using assms by (intro wsect_inside) (auto simp: blocks_ok_def)
  ultimately show "blocks_ok D I t"
    unfolding t using assms(1,2) by (intro blocks_ok_write) (auto simp: blocks_ok_def)
qed

section \<open>Appending keeps the image in order\<close>

text \<open>What changes when a file gets a sector: the kinds grow, the sectors of the inodes stay.\<close>

definition grows :: "uint set \<Rightarrow> uint set \<Rightarrow> mkfs \<Rightarrow> uint set \<Rightarrow> uint set \<Rightarrow> mkfs \<Rightarrow> bool" where
  "grows D I s D' I' t \<longleftrightarrow> D \<subseteq> D' \<and> I \<subseteq> I' \<and> blocks_ok D' I' t \<and> freeinode t = freeinode s \<and>
     (\<forall>b < 29. mk_img t b = mk_img s b)"

lemma grows_refl: "blocks_ok D I s \<Longrightarrow> grows D I s D I s"
  by (simp add: grows_def)

lemma grows_trans: "grows D I s D' I' t \<Longrightarrow> grows D' I' t D'' I'' u \<Longrightarrow> grows D I s D'' I'' u"
  by (auto simp: grows_def)

lemma blocks_ok_range: "blocks_ok D I s \<Longrightarrow> x \<in> D \<union> I \<Longrightarrow> \<not> x < 29"
  by (simp add: blocks_ok_def not_less)

lemma grows_take_data:
  assumes "blocks_ok D I s" and "freeblock s \<le> 1025"
  shows "grows D I s (insert (freeblock s) D) I (snd (take_block s))"
  using blocks_ok_take_data(1) [OF assms] by (auto simp: grows_def take_block_def)

lemma grows_take_indirect:
  assumes "blocks_ok D I s" and "freeblock s \<le> 1025"
  shows "grows D I s D (insert (freeblock s) I) (snd (take_block s))"
  using blocks_ok_take_indirect [OF assms] by (auto simp: grows_def take_block_def)

lemma grows_write_data:
  assumes "blocks_ok D I s" and "x \<in> D" and "wsect x buf s = Inr t" and "x < 1024"
  shows "grows D I s D I t"
  using blocks_ok_write_data [OF assms] blocks_ok_range [OF assms(1), of x] assms(2) by (auto simp: grows_def)

lemma grows_write_indirect:
  assumes "blocks_ok D I s" and "x \<in> I" and "wsect x (put32 (4 * j) y (mk_img s x)) s = Inr t" and "x < 1024"
    and "y \<in> D"
  shows "grows D I s D I t"
  using blocks_ok_write_indirect [OF assms] blocks_ok_range [OF assms(1), of x] assms(2) by (auto simp: grows_def)

lemma ensure_direct:
  assumes "blocks_ok D I s" and "inode_ok D I din" and "freeblock s \<le> 1024" and "k < NDIRECT"
    and "ensure_addr k din s = (din', t)"
  obtains D' where "grows D I s D' I t" and "inode_ok D' I din'" and "i_addrs din' k \<in> D'"
    and "i_addrs din' k < 1024 \<Longrightarrow> freeblock t \<le> 1024"
proof (cases "i_addrs din k = 0")
  case True
  have f: "freeblock s \<le> 1025" using assms(3) by (simp add: word_le_nat_alt)
  have t: "t = snd (take_block s)" "din' = din\<lparr>i_addrs := (i_addrs din)(k := freeblock s)\<rparr>"
    using assms(5) True by (simp_all add: ensure_addr_def take_block_def)
  show ?thesis
  proof (rule that)
    show "grows D I s (insert (freeblock s) D) I t" unfolding t by (rule grows_take_data [OF assms(1) f])
    show "inode_ok (insert (freeblock s) D) I din'" using assms(2,4) by (auto simp: t inode_ok_def)
    show "freeblock t \<le> 1024" if "i_addrs din' k < 1024"
      using that f by (simp add: t take_block_def word_less_nat_alt word_le_nat_alt unat_word_ariths)
  qed (simp add: t)
next
  case False
  then have "t = s" "din' = din" using assms(5) by (simp_all add: ensure_addr_def)
  then show ?thesis using assms False by (intro that [of D]) (auto simp: grows_refl inode_ok_def)
qed

lemma ensure_indirect:
  assumes "blocks_ok D I s" and "inode_ok D I din" and "freeblock s \<le> 1024"
    and "ensure_addr NDIRECT din s = (din', t)"
  obtains I' where "grows D I s D I' t" and "inode_ok D I' din'" and "i_addrs din' NDIRECT \<in> I'"
    and "i_addrs din' NDIRECT < 1024 \<Longrightarrow> freeblock t \<le> 1024"
proof (cases "i_addrs din NDIRECT = 0")
  case True
  have f: "freeblock s \<le> 1025" using assms(3) by (simp add: word_le_nat_alt)
  have t: "t = snd (take_block s)" "din' = din\<lparr>i_addrs := (i_addrs din)(NDIRECT := freeblock s)\<rparr>"
    using assms(4) True by (simp_all add: ensure_addr_def take_block_def)
  show ?thesis
  proof (rule that)
    show "grows D I s D (insert (freeblock s) I) t" unfolding t by (rule grows_take_indirect [OF assms(1) f])
    show "inode_ok D (insert (freeblock s) I) din'" using assms(2) by (auto simp: t inode_ok_def)
    show "freeblock t \<le> 1024" if "i_addrs din' NDIRECT < 1024"
      using that f by (simp add: t take_block_def word_less_nat_alt word_le_nat_alt unat_word_ariths)
  qed (simp add: t)
next
  case False
  then have "t = s" "din' = din" using assms(4) by (simp_all add: ensure_addr_def)
  then show ?thesis using assms False by (intro that [of I]) (auto simp: grows_refl inode_ok_def)
qed

lemma file_sector_grows:
  assumes "blocks_ok D I s" and "inode_ok D I din" and "freeblock s \<le> 1024" and "fbn < MAXFILE"
    and fs: "file_sector fbn din s = Inr (x, din', t)"
  obtains D' I' where "grows D I s D' I' t" and "inode_ok D' I' din'" and "x \<in> D'"
    and "x < 1024 \<Longrightarrow> freeblock t \<le> 1024"
proof (cases "fbn < NDIRECT")
  case True
  obtain e u where e: "ensure_addr fbn din s = (e, u)" by fastforce
  then have x: "x = i_addrs e fbn" "din' = e" "t = u" using fs True by (auto simp: file_sector_def)
  show ?thesis using ensure_direct [OF assms(1,2,3) True e] that unfolding x by metis
next
  case False
  obtain e u where e: "ensure_addr NDIRECT din s = (e, u)" by fastforce
  obtain I' where g: "grows D I s D I' u" "inode_ok D I' e" "i_addrs e NDIRECT \<in> I'"
    "i_addrs e NDIRECT < 1024 \<Longrightarrow> freeblock u \<le> 1024"
    using ensure_indirect [OF assms(1,2,3) e] by metis
  define a where "a = i_addrs e NDIRECT"
  define j where "j = fbn - NDIRECT"
  have j: "j < NINDIRECT" using assms(4) False by (simp add: j_def)
  have u: "blocks_ok D I' u" using g(1) by (simp add: grows_def)
  then have len: "mk_len u = 1024" by (simp add: blocks_ok_def)
  have a: "a < 1024" "rsect a u = Inr (mk_img u a)"
    using fs False e len by (auto simp: file_sector_def rsect_def a_def word_less_nat_alt split: if_splits)
  have f: "freeblock u \<le> 1024" "freeblock u \<le> 1025" using g(4) a(1) by (simp_all add: a_def word_le_nat_alt)
  show ?thesis
  proof (cases "get32 (mk_img u a) (4 * j) = 0")
    case True
    let ?v = "snd (take_block u)"
    have t: "wsect a (put32 (4 * j) (freeblock u) (mk_img u a)) ?v = Inr t" "din' = e" "x = freeblock u"
      using fs False e a(2) True by (auto simp: file_sector_def take_block_def a_def j_def bindE_eq_Inr)
    have v: "grows D I' u (insert (freeblock u) D) I' ?v" by (rule grows_take_data [OF u f(2)])
    have w: "grows (insert (freeblock u) D) I' ?v (insert (freeblock u) D) I' t"
    proof (rule grows_write_indirect)
      show "blocks_ok (insert (freeblock u) D) I' ?v" using v by (simp add: grows_def)
      show "wsect a (put32 (4 * j) (freeblock u) (mk_img ?v a)) ?v = Inr t" using t(1) by (simp add: take_block_def)
    qed (use g(3) a in \<open>simp_all add: a_def\<close>)
    have "freeblock t = freeblock u + 1" using t(1) by (auto simp: wsect_def take_block_def split: if_splits)
    then have "x < 1024 \<Longrightarrow> freeblock t \<le> 1024"
      using f(2) by (simp add: t word_less_nat_alt word_le_nat_alt unat_word_ariths)
    then show ?thesis
      using that [OF grows_trans [OF g(1) grows_trans [OF v w]]] inode_ok_mono [OF g(2)] t(2,3) by blast
  next
    case False
    then have t: "t = u" "din' = e" "x = get32 (mk_img u a) (4 * j)"
      using fs \<open>\<not> fbn < NDIRECT\<close> e a(2) by (auto simp: file_sector_def a_def j_def)
    have "x \<in> D" using u g(3) j False t(3) by (auto simp: blocks_ok_def a_def)
    then show ?thesis using that [of D I'] g(1,2) f(1) t(1,2) by simp
  qed
qed

lemma iappend_loop_Nil [simp]: "iappend_loop off [] din s = Inr (off, din, s)"
  by (subst iappend_loop.simps) simp

declare iappend_loop.simps [simp del]

lemma iappend_loop_grows:
  "iappend_loop off p din s = Inr (off', din', t) \<Longrightarrow> blocks_ok D I s \<Longrightarrow> inode_ok D I din \<Longrightarrow>
     freeblock s \<le> 1024 \<Longrightarrow> \<exists>D' I'. grows D I s D' I' t \<and> inode_ok D' I' din' \<and> freeblock t \<le> 1024"
proof (induction off p din s arbitrary: D I rule: iappend_loop.induct)
  case (1 off p din s)
  show ?case
  proof (cases "p = []")
    case True
    then have "din' = din" "t = s" using 1(2) by auto
    then show ?thesis using grows_refl [OF 1(3)] 1(4,5) by blast
  next
    case False
    define n1 where "n1 = min (length p) ((off div 512 + 1) * 512 - off)"
    obtain x e u buf v where st: "off div 512 < MAXFILE" "file_sector (off div 512) din s = Inr (x, e, u)"
      "rsect x u = Inr buf" "wsect x (bcopy (take n1 p) (off - off div 512 * 512) buf) u = Inr v"
      "iappend_loop (off + n1) (drop n1 p) e v = Inr (off', din', t)"
      using 1(2) False unfolding iappend_loop.simps [of off p din s] n1_def Let_def
      by (auto simp: bindE_eq_Inr split: if_splits)
    obtain D1 I1 where g: "grows D I s D1 I1 u" "inode_ok D1 I1 e" "x \<in> D1" "x < 1024 \<Longrightarrow> freeblock u \<le> 1024"
      using file_sector_grows [OF 1(3,4,5) st(1,2)] by metis
    have u: "blocks_ok D1 I1 u" using g(1) by (simp add: grows_def)
    then have x: "x < 1024" using st(3) by (simp add: rsect_def blocks_ok_def word_less_nat_alt split: if_splits)
    have v: "grows D1 I1 u D1 I1 v" by (rule grows_write_data [OF u g(3) st(4) x])
    have "freeblock v = freeblock u" using st(4) by (auto simp: wsect_def split: if_splits)
    then have f: "freeblock v \<le> 1024" using g(4) x by simp
    have "\<exists>D' I'. grows D1 I1 v D' I' t \<and> inode_ok D' I' din' \<and> freeblock t \<le> 1024"
      using 1(1) [OF False refl _ st(2) refl refl _ st(3,4)] st(1,5) v f g(2)
      unfolding n1_def by (auto simp: grows_def)
    then show ?thesis using grows_trans [OF g(1)] grows_trans [OF v] by blast
  qed
qed

section \<open>Inodes on the image\<close>

lemma i2b_inside:
  assumes "inum < 208"
  shows "i2b inum < 28" and "2 \<le> i2b inum"
proof -
  have "unat (inum div 8) < 26" using assms by (simp add: unat_div_distrib word_less_nat_alt less_mult_imp_div_less)
  then have "unat (i2b inum) = unat (inum div 8) + 2" by (simp add: i2b_def unat_word_ariths)
  then show "i2b inum < 28" "2 \<le> i2b inum" using \<open>unat (inum div 8) < 26\<close> by (simp_all add: word_less_nat_alt word_le_nat_alt)
qed

lemma stored_inode_winode:
  assumes "mk_img t = (mk_img s)(i2b inum := put_dinode (dinode_off inum) din (mk_img s (i2b inum)))"
  shows "stored_inode t j = disk_fields din zero_dinode \<or> stored_inode t j = stored_inode s j"
proof (cases "i2b j = i2b inum \<and> inum mod IPB = j mod IPB")
  case True
  then have "dinode_off j = dinode_off inum" by (simp add: dinode_off_def)
  then show ?thesis using True by (simp add: stored_inode_def assms get_put_dinode)
next
  case False
  then show ?thesis
    using dinode_off_apart [of inum j] by (auto simp: stored_inode_def assms get_put_dinode_other)
qed

lemma inode_ok_disk_fields: "inode_ok D I din \<Longrightarrow> inode_ok D I (disk_fields din jp)"
  by (simp add: inode_ok_def disk_fields_def)

lemma winode_ok:
  assumes "blocks_ok D I s" and "\<forall>j < 208. inode_ok D I (stored_inode s j)" and "inode_ok D I din"
    and "inum < 208" and "winode inum din s = Inr t"
  shows "blocks_ok D I t \<and> (\<forall>j < 208. inode_ok D I (stored_inode t j)) \<and>
    freeblock t = freeblock s \<and> freeinode t = freeinode s"
proof -
  have b: "i2b inum < 1024" "i2b inum < 29" using i2b_inside(1) [OF assms(4)] by (simp_all add: word_less_nat_alt)
  have "wsect (i2b inum) (put_dinode (dinode_off inum) din (mk_img s (i2b inum))) s = Inr t"
    using assms(5) by (auto simp: winode_def rsect_def bindE_eq_Inr split: if_splits)
  then have t: "t = s\<lparr>mk_img := (mk_img s)(i2b inum := put_dinode (dinode_off inum) din (mk_img s (i2b inum)))\<rparr>"
    using assms(1) b(1) by (intro wsect_inside) (simp_all add: blocks_ok_def)
  have "blocks_ok D I t"
    unfolding t
  proof (rule blocks_ok_write [OF assms(1)])
    show "i2b inum < freeblock s" using b(2) assms(1) by (auto simp: blocks_ok_def)
    show "\<forall>j < NINDIRECT. get32 (put_dinode (dinode_off inum) din (mk_img s (i2b inum))) (4 * j) \<in> insert 0 D" if "i2b inum \<in> I"
      using that b(2) blocks_ok_range [OF assms(1)] by auto
  qed
  moreover have "inode_ok D I (stored_inode t j)" if "j < 208" for j
    using stored_inode_winode [of t s inum din j] inode_ok_disk_fields [OF assms(3), of zero_dinode] assms(2) that
    by (auto simp: t)
  ultimately show ?thesis by (simp add: t)
qed

lemma stored_inode_grows:
  assumes "grows D I s D' I' t" and "j < 208"
  shows "stored_inode t j = stored_inode s j"
proof -
  have "i2b j < 29" using i2b_inside(1) [OF assms(2)] by (simp add: word_less_nat_alt)
  then show ?thesis using assms(1) by (simp add: grows_def stored_inode_def)
qed

lemma iappend_ok:
  assumes "image_ok s" and "inum < 208" and "iappend inum p s = Inr t"
  shows "image_ok t \<and> freeinode t = freeinode s"
proof -
  obtain D I where ok: "freeblock s \<le> 1024" "blocks_ok D I s" "\<forall>j < 208. inode_ok D I (stored_inode s j)"
    using assms(1) by (auto simp: image_ok_def)
  obtain off din u where l: "iappend_loop (unat (i_size (stored_inode s inum))) p (stored_inode s inum) s = Inr (off, din, u)"
    "winode inum (din\<lparr>i_size := of_nat off\<rparr>) u = Inr t"
    using assms(3) by (auto simp: iappend_def rinode_def rsect_def stored_inode_def bindE_eq_Inr
      split: if_splits)
  obtain D' I' where g: "grows D I s D' I' u" "inode_ok D' I' din" "freeblock u \<le> 1024"
    using iappend_loop_grows [OF l(1) ok(2) _ ok(1)] ok(3) assms(2) by blast
  have "blocks_ok D' I' t \<and> (\<forall>j < 208. inode_ok D' I' (stored_inode t j)) \<and> freeblock t = freeblock u \<and> freeinode t = freeinode u"
  proof (rule winode_ok [OF _ _ _ assms(2) l(2)])
    show "\<forall>j < 208. inode_ok D' I' (stored_inode u j)"
      using ok(3) g(1) inode_ok_mono by (auto simp: stored_inode_grows [OF g(1)] grows_def)
  qed (use g in \<open>auto simp: grows_def inode_ok_def\<close>)
  then show ?thesis using g(1,3) by (auto simp: image_ok_def grows_def)
qed

lemma mk_ialloc_ok:
  assumes "image_ok s" and "freeinode s < 208" and "mk_ialloc type s = Inr (inum, t)"
  shows "image_ok t \<and> inum = freeinode s \<and> freeinode t = freeinode s + 1"
proof -
  obtain D I where ok: "freeblock s \<le> 1024" "blocks_ok D I s" "\<forall>j < 208. inode_ok D I (stored_inode s j)"
    using assms(1) by (auto simp: image_ok_def)
  let ?s = "s\<lparr>freeinode := freeinode s + 1\<rparr>"
  let ?d = "zero_dinode\<lparr>i_type := type, i_nlink := 1, i_size := 0\<rparr>"
  have w: "winode (freeinode s) ?d ?s = Inr t" "inum = freeinode s"
    using assms(3) by (auto simp: mk_ialloc_def Let_def bindE_eq_Inr)
  have "blocks_ok D I t \<and> (\<forall>j < 208. inode_ok D I (stored_inode t j)) \<and> freeblock t = freeblock ?s \<and> freeinode t = freeinode ?s"
  proof (rule winode_ok [OF _ _ _ assms(2) w(1)])
    show "blocks_ok D I ?s" using ok(2) by (simp add: blocks_ok_def)
    show "\<forall>j < 208. inode_ok D I (stored_inode ?s j)" using ok(3) by (simp add: stored_inode_def)
  qed (simp add: inode_ok_def zero_dinode_def)
  then show ?thesis using w(2) ok(1) by (auto simp: image_ok_def)
qed

lemma mk_foldE_iappend_ok:
  "mk_foldE (iappend inum) ps s = Inr t \<Longrightarrow> inum < 208 \<Longrightarrow> image_ok s \<Longrightarrow> image_ok t \<and> freeinode t = freeinode s"
proof (induction ps arbitrary: s)
  case (Cons q ps)
  obtain u where u: "iappend inum q s = Inr u" "mk_foldE (iappend inum) ps u = Inr t"
    using Cons.prems(1) by (auto simp: bindE_eq_Inr)
  with Cons.IH [OF u(2)] iappend_ok [OF Cons.prems(3,2) u(1)] Cons.prems(2) show ?case by simp
qed simp

lemma add_file_ok:
  assumes "image_ok s" and "freeinode s < 208" and "add_file ROOTINO f s = Inr t"
  shows "image_ok t \<and> freeinode t = freeinode s + 1"
proof -
  obtain name bytes where f: "f = (name, Some bytes)"
    using assms(3) by (cases f) (auto simp: add_file_def split: if_splits option.splits)
  obtain inum u v de where st: "mk_ialloc T_FILE s = Inr (inum, u)" "iappend ROOTINO de u = Inr v"
    "mk_foldE (iappend inum) (pieces bytes) v = Inr t"
    using assms(3) unfolding f add_file_def by (auto simp: bindE_eq_Inr Let_def split: if_splits)
  have u: "image_ok u" "inum = freeinode s" "freeinode u = freeinode s + 1"
    using mk_ialloc_ok [OF assms(1,2) st(1)] by auto
  have v: "image_ok v" "freeinode v = freeinode u" using iappend_ok [OF u(1) _ st(2)] by auto
  show ?thesis using mk_foldE_iappend_ok [OF st(3) _ v(1)] assms(2) u(2,3) v(2) by simp
qed

lemma add_files_ok:
  "mk_foldE (add_file ROOTINO) fs s = Inr t \<Longrightarrow> image_ok s \<Longrightarrow> unat (freeinode s) + length fs \<le> 208 \<Longrightarrow> image_ok t"
proof (induction fs arbitrary: s)
  case (Cons f fs)
  obtain u where u: "add_file ROOTINO f s = Inr u" "mk_foldE (add_file ROOTINO) fs u = Inr t"
    using Cons.prems(1) by (auto simp: bindE_eq_Inr)
  have "freeinode s < 208" using Cons.prems(3) by (simp add: word_less_nat_alt)
  then have "image_ok u" "freeinode u = freeinode s + 1" using add_file_ok [OF Cons.prems(2) _ u(1)] by auto
  moreover have "unat (freeinode s + 1) = unat (freeinode s) + 1"
    using Cons.prems(3) by (simp add: unat_word_ariths)
  ultimately show ?case using Cons.IH [OF u(2)] Cons.prems(3) by simp
qed simp

lemma fix_root_ok:
  assumes "image_ok s" and "fix_root ROOTINO s = Inr t"
  shows "image_ok t"
proof -
  obtain D I where ok: "freeblock s \<le> 1024" "blocks_ok D I s" "\<forall>j < 208. inode_ok D I (stored_inode s j)"
    using assms(1) by (auto simp: image_ok_def)
  obtain off where w: "winode ROOTINO ((stored_inode s ROOTINO)\<lparr>i_size := off\<rparr>) s = Inr t"
    using assms(2) by (auto simp: fix_root_def rinode_def rsect_def stored_inode_def bindE_eq_Inr Let_def split: if_splits)
  have "inode_ok D I ((stored_inode s ROOTINO)\<lparr>i_size := off\<rparr>)" using ok(3) by (simp add: inode_ok_def)
  from winode_ok [OF ok(2,3) this _ w] ok(1) show ?thesis by (auto simp: image_ok_def)
qed

section \<open>The finished image\<close>

lemma zero_sectors:
  "mk_foldE (\<lambda>i. wsect (of_nat i) (\<lambda>_. 0)) is s = Inr t \<Longrightarrow> mk_img s = (\<lambda>_ _. 0) \<Longrightarrow> (\<forall>i \<in> set is. i < 1024) \<Longrightarrow>
     mk_img t = (\<lambda>_ _. 0) \<and> freeblock t = freeblock s \<and> usedblocks t = usedblocks s \<and> freeinode t = freeinode s \<and>
     mk_len t = fold (\<lambda>i. max (i + 1)) is (mk_len s)"
proof (induction "is" arbitrary: s)
  case (Cons i "is")
  have "unat (word_of_nat i :: uint) = i" using Cons.prems(3) by (simp add: unat_of_nat take_bit_nat_eq_self)
  with Cons show ?case by (auto simp: bindE_eq_Inr wsect_def fun_upd_idem max.commute split: if_splits)
qed simp

lemma fold_max: "fold (\<lambda>i. max (i + 1)) [0..<n] (0 :: nat) = n"
  by (induction n) auto

definition formatted :: "(uint \<Rightarrow> bool) \<Rightarrow> mkfs" where
  "formatted host = (mkfs_start host)\<lparr>mk_len := 1024, freeblock := 29, usedblocks := 29\<rparr>"

lemma zero_sectors_all:
  "\<forall>i \<in> set is. mk_host s (of_nat i) \<and> i < 1024 \<Longrightarrow> \<exists>t. mk_foldE (\<lambda>i. wsect (of_nat i) (\<lambda>_. 0)) is s = Inr t"
  by (induction "is" arbitrary: s) (auto simp: wsect_def)

lemma mkfs_format_formats:
  assumes "mkfs_format (mkfs_start host) = Inr t"
  shows "t = formatted host"
proof -
  let ?s = "(mkfs_start host)\<lparr>usedblocks := 29, freeblock := 29\<rparr>"
  have w: "mk_foldE (\<lambda>i. wsect (of_nat i) (\<lambda>_. 0)) [0..<1024] ?s = Inr t"
    using assms by (simp add: mkfs_format_def)
  have h: "mk_foldE (\<lambda>i. wsect (of_nat i) (\<lambda>_. 0)) xs s = Inr t \<Longrightarrow> mk_host t = mk_host s" for xs s
    by (induction xs arbitrary: s) (auto simp: bindE_eq_Inr wsect_def split: if_splits)
  show ?thesis
    using zero_sectors [OF w] h [OF w] fold_max [of 1024]
    by (intro mkfs.equality) (simp_all add: formatted_def mkfs_start_def)
qed

lemma superblock_ok:
  assumes "wsect 1 put_superblock (formatted host) = Inr t"
  shows "image_ok t" and "freeinode t = 1"
proof -
  have b: "blocks_ok {} {} (formatted host)" by (simp add: blocks_ok_def formatted_def mkfs_start_def)
  have t: "t = (formatted host)\<lparr>mk_img := (mk_img (formatted host))(1 := put_superblock)\<rparr>"
    using assms by (intro wsect_inside) (simp_all add: formatted_def)
  have "blocks_ok {} {} t" unfolding t by (rule blocks_ok_write [OF b]) (simp_all add: formatted_def)
  moreover have "inode_ok {} {} (stored_inode t j)" if "j < 208" for j
  proof -
    have "i2b j \<noteq> 1" using i2b_inside(2) [OF that] by (auto simp: word_le_nat_alt)
    then show ?thesis by (simp add: t stored_inode_def formatted_def mkfs_start_def get_dinode_def inode_ok_def)
  qed
  ultimately show "image_ok t" "freeinode t = 1" by (auto simp: image_ok_def t formatted_def mkfs_start_def)
qed

lemma sint_small:
  assumes "unat (w :: uint) \<le> 1024"
  shows "nat (sint w) = unat w" and "sint w < 512 * 8"
proof -
  define k where "k = unat w"
  have k: "k \<le> 1024" "w = word_of_nat k" using assms by (simp_all add: k_def)
  have "sint w = signed_take_bit 31 (int k)" by (simp add: k(2) signed_of_nat)
  also have "\<dots> = int k" using k(1) by (intro signed_take_bit_int_eq_self) simp_all
  finally have "sint w = int k" .
  then show "nat (sint w) = unat w" "sint w < 512 * 8" using k(1) by (simp_all add: k_def [symmetric])
qed

lemma mk_balloc_ok:
  assumes "image_ok s" and "mk_balloc (usedblocks s) s = Inr t"
  shows "image_ok t" and "usedblocks t = usedblocks s"
    and "mk_img t 28 = fold mark_used [0..<unat (usedblocks s)] (\<lambda>_. 0)"
proof -
  obtain D I where ok: "freeblock s \<le> 1024" "blocks_ok D I s" "\<forall>j < 208. inode_ok D I (stored_inode s j)"
    using assms(1) by (auto simp: image_ok_def)
  have u: "unat (usedblocks s) \<le> 1024" using ok by (simp add: blocks_ok_def word_le_nat_alt)
  have w: "wsect 28 (fold mark_used [0..<unat (usedblocks s)] (\<lambda>_. 0)) s = Inr t"
    using assms(2) sint_small [OF u] by (simp add: mk_balloc_def)
  have t: "t = s\<lparr>mk_img := (mk_img s)(28 := fold mark_used [0..<unat (usedblocks s)] (\<lambda>_. 0))\<rparr>"
    using ok(2) by (intro wsect_inside [OF w]) (simp_all add: blocks_ok_def)
  have "\<not> (28 :: uint) \<in> D \<union> I" using blocks_ok_range [OF ok(2), of 28] by (auto simp: word_less_nat_alt)
  moreover have "28 < freeblock s" using ok(2) by (auto simp: blocks_ok_def word_le_nat_alt word_less_nat_alt)
  ultimately have "blocks_ok D I t" unfolding t by (intro blocks_ok_write [OF ok(2)]) auto
  moreover have "stored_inode t j = stored_inode s j" if "j < 208" for j
    using i2b_inside(1) [OF that] by (auto simp: stored_inode_def t)
  ultimately show "image_ok t" "usedblocks t = usedblocks s"
    "mk_img t 28 = fold mark_used [0..<unat (usedblocks s)] (\<lambda>_. 0)"
    using ok by (auto simp: image_ok_def t)
qed

lemma mkfs_fill_ok:
  assumes "mkfs_fill files (formatted host) = Inr t" and "length files \<le> 198"
  shows "image_ok t" and "mk_img t 28 = fold mark_used [0..<unat (usedblocks t)] (\<lambda>_. 0)"
proof -
  obtain a inum b c d e f de1 de2 where st: "wsect 1 put_superblock (formatted host) = Inr a" "mk_ialloc T_DIR a = Inr (inum, b)"
    "inum = ROOTINO" "iappend ROOTINO de1 b = Inr c" "iappend ROOTINO de2 c = Inr d"
    "mk_foldE (add_file ROOTINO) files d = Inr e" "fix_root ROOTINO e = Inr f" "mk_balloc (usedblocks f) f = Inr t"
    using assms(1) unfolding mkfs_fill_def by (auto simp: bindE_eq_Inr split: if_splits)
  have "image_ok b" "freeinode b = 2" using mk_ialloc_ok [OF superblock_ok(1) _ st(2)] superblock_ok(2) st(1) by auto
  then have "image_ok d" "freeinode d = 2" using iappend_ok [OF _ _ st(4)] iappend_ok [OF _ _ st(5)] by auto
  then have "image_ok e" using assms(2) by (intro add_files_ok [OF st(6)]) simp_all
  then have "image_ok f" using st(7) by (rule fix_root_ok)
  from mk_balloc_ok [OF this st(8)] show "image_ok t" "mk_img t 28 = fold mark_used [0..<unat (usedblocks t)] (\<lambda>_. 0)"
    by simp_all
qed

text \<open>The blocks an inode of the image refers to: direct ones, the indirect one, and those it lists.\<close>

definition inode_blocks :: "mkfs \<Rightarrow> uint \<Rightarrow> uint set" where
  "inode_blocks s inum =
     (let a = i_addrs (stored_inode s inum)
      in (a ` {..<NDIRECT} \<union> {a NDIRECT} \<union>
          (if a NDIRECT = 0 then {} else (\<lambda>j. get32 (mk_img s (a NDIRECT)) (4 * j)) ` {..<NINDIRECT})) - {0})"

lemma image_ok_inode_blocks:
  assumes "image_ok s" and "inum < 208" and "a \<in> inode_blocks s inum"
  shows "29 \<le> a" and "a < usedblocks s"
proof -
  obtain D I where ok: "blocks_ok D I s" "inode_ok D I (stored_inode s inum)"
    using assms(1,2) by (auto simp: image_ok_def)
  have "a \<in> D \<union> I"
    using assms(3) ok unfolding inode_blocks_def Let_def inode_ok_def blocks_ok_def
    by (auto split: if_splits)
  then show "29 \<le> a" "a < usedblocks s" using ok(1) by (auto simp: blocks_ok_def)
qed

text \<open>
  (C6) An image \<^verbatim>\<open>mkfs\<close> finishes is one the kernel can allocate blocks on: for up to 198 files, the test
  the kernel's \<^verbatim>\<open>balloc\<close> makes in the bitmap block of a sector finds it free exactly when the program has
  not given it out; every block that any inode refers to, directly, as its indirect block or through it,
  lies behind the bitmap and is not free; and the free sectors are zero.
\<close>

theorem mkfs_marks_used_blocks:
  assumes "mkfs_main (Some True) files (mkfs_start host) = Inr t" and "length files \<le> 198"
  shows "(\<forall>b < 4096. free_bit (mk_img t (BBLOCK (of_nat b) ninodes)) b \<longleftrightarrow> unat (usedblocks t) \<le> b) \<and>
    (\<forall>inum < 208. \<forall>a \<in> inode_blocks t inum. 29 \<le> a \<and> \<not> free_bit (mk_img t (BBLOCK a ninodes)) (unat a)) \<and>
    (\<forall>b. usedblocks t \<le> b \<longrightarrow> mk_img t b = (\<lambda>_. 0))"
proof -
  have "mkfs_fill files (formatted host) = Inr t"
    using assms(1) mkfs_format_formats by (auto simp: mkfs_main_def bindE_eq_Inr)
  then have ok: "image_ok t" "mk_img t 28 = fold mark_used [0..<unat (usedblocks t)] (\<lambda>_. 0)"
    using mkfs_fill_ok assms(2) by blast+
  have bb: "BBLOCK a ninodes = 28" if "unat a < 4096" for a
    using that by (simp add: BBLOCK_def word_unat_eq_iff unat_word_ariths unat_div_distrib)
  have free: "free_bit (mk_img t 28) b \<longleftrightarrow> unat (usedblocks t) \<le> b" for b
    using div_mult_mod_eq [of b 8] by (auto simp: free_bit_iff ok(2) bit_mark_used mult.commute)
  have "free_bit (mk_img t (BBLOCK (of_nat b) ninodes)) b \<longleftrightarrow> unat (usedblocks t) \<le> b" if "b < 4096" for b
    using bb [of "of_nat b"] that free by (simp add: unat_of_nat take_bit_nat_eq_self)
  moreover have "29 \<le> a \<and> \<not> free_bit (mk_img t (BBLOCK a ninodes)) (unat a)" if "inum < 208" "a \<in> inode_blocks t inum" for inum a
  proof -
    have a: "29 \<le> a" "unat a < unat (usedblocks t)" "unat (usedblocks t) \<le> 1024"
      using image_ok_inode_blocks [OF ok(1) that] ok(1) by (auto simp: word_less_nat_alt image_ok_def blocks_ok_def word_le_nat_alt)
    then show ?thesis using bb [of a] free [of "unat a"] by simp
  qed
  ultimately show ?thesis using ok(1) by (auto simp: image_ok_def blocks_ok_def)
qed

section \<open>An empty image\<close>

text \<open>With a host that accepts every write, the program finishes an image without files.\<close>

definition writable :: "mkfs \<Rightarrow> bool" where
  "writable s \<longleftrightarrow> (\<forall>b. mk_host s b) \<and> mk_len s = 1024"

lemma wsect_writable:
  assumes "writable s" and "x < 1024"
  shows "wsect x buf s = Inr (s\<lparr>mk_img := (mk_img s)(x := buf)\<rparr>)"
proof -
  have "\<exists>t. wsect x buf s = Inr t" using assms(1) by (simp add: wsect_def writable_def)
  then show ?thesis using wsect_inside assms by (auto simp: writable_def)
qed

lemma rsect_writable: "writable s \<Longrightarrow> x < 1024 \<Longrightarrow> rsect x s = Inr (mk_img s x)"
  by (simp add: rsect_def writable_def word_less_nat_alt)

lemma i2b_small: "inum < 208 \<Longrightarrow> i2b inum < 1024"
  using i2b_inside(1) [of inum] by (simp add: word_less_nat_alt)

lemma winode_writable:
  assumes "writable s" and "inum < 208"
  obtains t where "winode inum din s = Inr t" and "writable t" and "stored_inode t inum = disk_fields din zero_dinode"
    and "freeblock t = freeblock s"
  by (rule that [of "s\<lparr>mk_img := (mk_img s)(i2b inum := put_dinode (dinode_off inum) din (mk_img s (i2b inum)))\<rparr>"])
    (use assms in \<open>simp_all add: winode_def wsect_writable rsect_writable i2b_small writable_def stored_inode_def get_put_dinode\<close>)

lemma rinode_writable: "writable s \<Longrightarrow> inum < 208 \<Longrightarrow> rinode inum s = Inr (stored_inode s inum)"
  by (simp add: rinode_def rsect_writable i2b_small stored_inode_def)

lemma iappend_first_block:
  assumes "writable s" and "inum < 208" and "p \<noteq> []" and "unat (i_size (stored_inode s inum)) + length p \<le> 512"
    and "i_addrs (stored_inode s inum) 0 < 1024" and "freeblock s < 1024"
  obtains t where "iappend inum p s = Inr t" and "writable t"
    and "unat (i_size (stored_inode t inum)) = unat (i_size (stored_inode s inum)) + length p"
    and "i_addrs (stored_inode t inum) 0 < 1024" and "unat (freeblock t) \<le> unat (freeblock s) + 1"
proof -
  define din where "din = stored_inode s inum"
  define off where "off = unat (i_size din)"
  define x where "x = (if i_addrs din 0 = 0 then freeblock s else i_addrs din 0)"
  define e where "e = din\<lparr>i_addrs := (i_addrs din)(0 := x)\<rparr>"
  have "off + length p \<le> 512" "0 < length p" using assms(3,4) by (simp_all add: off_def din_def)
  then have off: "off div 512 = 0" "min (length p) (512 - off) = length p" "off + length p \<le> 512"
    by linarith+
  have x: "x < 1024" using assms(5,6) by (simp add: x_def din_def)
  obtain u where u: "file_sector 0 din s = Inr (x, e, u)" "writable u" "unat (freeblock u) \<le> unat (freeblock s) + 1"
    using assms(1) by (cases "i_addrs din 0 = 0")
      (auto simp: file_sector_def ensure_addr_def take_block_def x_def e_def writable_def unat_word_ariths)
  define v where "v = u\<lparr>mk_img := (mk_img u)(x := bcopy p off (mk_img u x))\<rparr>"
  have v: "writable v" using u(2) by (simp add: v_def writable_def)
  have "iappend_loop off p din s = Inr (off + length p, e, v)"
    using assms(3) off u by (subst iappend_loop.simps) (simp add: x rsect_writable wsect_writable v_def)
  moreover obtain t where t: "winode inum (e\<lparr>i_size := of_nat (off + length p)\<rparr>) v = Inr t" "writable t"
    "stored_inode t inum = disk_fields (e\<lparr>i_size := of_nat (off + length p)\<rparr>) zero_dinode" "freeblock t = freeblock v"
    using winode_writable [OF v assms(2)] by metis
  ultimately have "iappend inum p s = Inr t"
    using assms(1,2) by (simp add: iappend_def rinode_writable din_def [symmetric] off_def [symmetric])
  moreover have "unat (i_size (stored_inode t inum)) = off + length p"
    unfolding t(3) disk_fields_def using off(3) by (simp add: unat_of_nat take_bit_nat_eq_self del: of_nat_add)
  moreover have "i_addrs (stored_inode t inum) 0 < 1024" using x by (simp add: t(3) disk_fields_def e_def)
  moreover have "unat (freeblock t) \<le> unat (freeblock s) + 1" using u(3) t(4) by (simp add: v_def)
  ultimately show ?thesis using that t(2) by (simp add: off_def din_def)
qed

lemma mkfs_fill_nothing:
  obtains t where "mkfs_fill [] (formatted (\<lambda>_. True)) = Inr t"
proof -
  let ?f = "formatted (\<lambda>_. True)"
  define a where "a = ?f\<lparr>mk_img := (mk_img ?f)(1 := put_superblock)\<rparr>"
  define d where "d = zero_dinode\<lparr>i_type := T_DIR, i_nlink := 1, i_size := 0\<rparr>"
  have a: "wsect 1 put_superblock ?f = Inr a" "writable a" "freeinode a = 1" "freeblock a = 29"
    by (simp_all add: a_def wsect_writable writable_def formatted_def mkfs_start_def)
  obtain b where b: "winode 1 d (a\<lparr>freeinode := 2\<rparr>) = Inr b" "writable b"
    "stored_inode b 1 = disk_fields d zero_dinode" "freeblock b = 29"
    using winode_writable [of "a\<lparr>freeinode := 2\<rparr>" 1 d] a by (auto simp: writable_def)
  then have i: "mk_ialloc T_DIR a = Inr (ROOTINO, b)" using a(3) by (simp add: mk_ialloc_def d_def)
  have len: "length (make_dirent n xs) = 16" for n xs by (simp add: make_dirent_def)
  obtain c where c: "iappend ROOTINO (make_dirent 1 ''.'') b = Inr c" "writable c"
    "unat (i_size (stored_inode c ROOTINO)) = 16" "i_addrs (stored_inode c ROOTINO) 0 < 1024" "unat (freeblock c) \<le> 30"
    by (rule iappend_first_block [OF b(2), of ROOTINO "make_dirent 1 ''.''"])
      (use b(3,4) len [of 1 "''.''"] in \<open>auto simp: disk_fields_def d_def zero_dinode_def\<close>)
  obtain e where e: "iappend ROOTINO (make_dirent 1 ''..'') c = Inr e" "writable e"
    by (rule iappend_first_block [OF c(2), of ROOTINO "make_dirent 1 ''..''"])
      (use c(3,4,5) len [of 1 "''..''"] in \<open>auto simp: word_less_nat_alt\<close>)
  obtain g where g: "fix_root ROOTINO e = Inr g" "writable g"
    using winode_writable [OF e(2), of ROOTINO] unfolding fix_root_def
    by (simp add: rinode_writable [OF e(2)] Let_def) metis
  have "image_ok b" using mk_ialloc_ok [OF superblock_ok(1) _ i] a by auto
  then have "image_ok e" using iappend_ok [OF _ _ c(1)] iappend_ok [OF _ _ e(1)] by auto
  then have "image_ok g" using fix_root_ok g(1) by blast
  then have "unat (usedblocks g) \<le> 1024" by (auto simp: image_ok_def blocks_ok_def word_le_nat_alt)
  then have "\<exists>t. mk_balloc (usedblocks g) g = Inr t"
    using sint_small [of "usedblocks g"] by (simp add: mk_balloc_def wsect_writable [OF g(2)])
  then show ?thesis using that a(1) i c(1) e(1) g(1) unfolding mkfs_fill_def by auto
qed

theorem mkfs_marks_used_blocks_witness:
  "\<exists>t. mkfs_main (Some True) [] (mkfs_start (\<lambda>_. True)) = Inr t \<and> (free_bit (mk_img t 28) 1014 \<longleftrightarrow> unat (usedblocks t) \<le> 1014)"
proof -
  obtain t where t: "mkfs_fill [] (formatted (\<lambda>_. True)) = Inr t" by (rule mkfs_fill_nothing)
  obtain u where u: "mkfs_format (mkfs_start (\<lambda>_. True)) = Inr u"
    using zero_sectors_all [of "[0..<1024]" "(mkfs_start (\<lambda>_. True))\<lparr>usedblocks := 29, freeblock := 29\<rparr>"]
    by (auto simp: mkfs_format_def mkfs_start_def)
  have m: "mkfs_main (Some True) [] (mkfs_start (\<lambda>_. True)) = Inr t"
    using t u mkfs_format_formats [OF u] by (simp add: mkfs_main_def)
  have "BBLOCK (of_nat 1014) ninodes = 28" by code_simp
  with conjunct1 [OF mkfs_marks_used_blocks [OF m], rule_format, of 1014] m show ?thesis by auto
qed

end
