(* ===== verification/Umalloc.thy ===== *)
theory Umalloc
  imports Memory
begin

text \<open>
  The user programs' allocator, \<^verbatim>\<open>umalloc.c\<close>: a circular list of free blocks in the order of
  their addresses, threaded through the blocks.
\<close>

section \<open>State\<close>

text \<open>
  \<open>u_base\<close> is the address of the static header \<^verbatim>\<open>base\<close>, \<open>u_brk\<close> the end of the
  process's memory, which the system call \<^verbatim>\<open>sbrk\<close> moves.
\<close>

record umem =
  u_ram :: memory
  u_freep :: uint
  u_base :: uint
  u_brk :: uint

text \<open>The two fields of a header of eight bytes.\<close>

definition h_ptr :: "memory \<Rightarrow> uint \<Rightarrow> uint" where
  "h_ptr m p = load32 m p"

definition h_size :: "memory \<Rightarrow> uint \<Rightarrow> uint" where
  "h_size m p = load32 m (p + 4)"

definition set_ptr :: "uint \<Rightarrow> uint \<Rightarrow> memory \<Rightarrow> memory" where
  "set_ptr p v m = store32 m p v"

definition set_size :: "uint \<Rightarrow> uint \<Rightarrow> memory \<Rightarrow> memory" where
  "set_size p v m = store32 m (p + 4) v"

section \<open>Operations\<close>

text \<open>The search for the place of a block; None when it does not end.\<close>

partial_function (option) free_find :: "memory \<Rightarrow> uint \<Rightarrow> uint \<Rightarrow> uint option" where
  "free_find m bp p =
     (if bp > p \<and> bp < h_ptr m p then Some p
      else if p \<ge> h_ptr m p \<and> (bp > p \<or> bp < h_ptr m p) then Some p
      else free_find m bp (h_ptr m p))"

definition free_link :: "uint \<Rightarrow> uint \<Rightarrow> memory \<Rightarrow> memory" where
  "free_link bp p m =
     (let m = (if bp + 8 * h_size m bp = h_ptr m p
               then let m = set_size bp (h_size m bp + h_size m (h_ptr m p)) m
                    in set_ptr bp (h_ptr m (h_ptr m p)) m
               else set_ptr bp (h_ptr m p) m)
      in if p + 8 * h_size m p = bp
         then let m = set_size p (h_size m p + h_size m bp) m in set_ptr p (h_ptr m bp) m
         else set_ptr p bp m)"

definition free :: "uint \<Rightarrow> umem \<Rightarrow> umem option" where
  "free ap s =
     (let bp = ap - 8
      in case free_find (u_ram s) bp (u_freep s) of
           None \<Rightarrow> None
         | Some p \<Rightarrow> Some (s\<lparr>u_ram := free_link bp p (u_ram s), u_freep := p\<rparr>))"

text \<open>
  \<^verbatim>\<open>sbrk\<close> as the kernel has it: when the kernel grants the growth, the old end of memory is
  returned and the new memory is zero.
\<close>

definition sbrk :: "(uint \<Rightarrow> uint \<Rightarrow> bool) \<Rightarrow> uint \<Rightarrow> umem \<Rightarrow> uint \<times> umem" where
  "sbrk grant n s =
     (if grant (u_brk s) n then (u_brk s, s\<lparr>u_brk := u_brk s + n, u_ram := fill (u_ram s) (u_brk s) 0 n\<rparr>)
      else (- 1, s))"

definition morecore :: "(uint \<Rightarrow> uint \<Rightarrow> bool) \<Rightarrow> uint \<Rightarrow> umem \<Rightarrow> (uint \<times> umem) option" where
  "morecore grant nu s =
     (let nu = (if nu < 4096 then 4096 else nu);
          (p, s) = sbrk grant (nu * 8) s
      in if p = - 1 then Some (0, s)
         else
           case free (p + 8) (s\<lparr>u_ram := set_size p nu (u_ram s)\<rparr>) of
             None \<Rightarrow> None
           | Some s \<Rightarrow> Some (u_freep s, s))"

text \<open>Taking \<open>nunits\<close> units from the free block \<open>p\<close> that \<open>prevp\<close> points to.\<close>

definition malloc_take :: "uint \<Rightarrow> uint \<Rightarrow> uint \<Rightarrow> umem \<Rightarrow> uint \<times> umem" where
  "malloc_take nunits prevp p s =
     (if h_size (u_ram s) p = nunits
      then (p + 8, s\<lparr>u_ram := set_ptr prevp (h_ptr (u_ram s) p) (u_ram s), u_freep := prevp\<rparr>)
      else
        let m = set_size p (h_size (u_ram s) p - nunits) (u_ram s);
            q = p + 8 * h_size m p;
            m = set_size q nunits m
        in (q + 8, s\<lparr>u_ram := m, u_freep := prevp\<rparr>))"

partial_function (option) malloc_loop ::
    "(uint \<Rightarrow> uint \<Rightarrow> bool) \<Rightarrow> uint \<Rightarrow> uint \<Rightarrow> uint \<Rightarrow> umem \<Rightarrow> (uint \<times> umem) option" where
  "malloc_loop grant nunits prevp p s =
     (if h_size (u_ram s) p \<ge> nunits then Some (malloc_take nunits prevp p s)
      else if p = u_freep s then
        (case morecore grant nunits s of
           None \<Rightarrow> None
         | Some (q, t) \<Rightarrow> if q = 0 then Some (0, t) else malloc_loop grant nunits q (h_ptr (u_ram t) q) t)
      else malloc_loop grant nunits p (h_ptr (u_ram s) p) s)"

definition malloc :: "(uint \<Rightarrow> uint \<Rightarrow> bool) \<Rightarrow> uint \<Rightarrow> umem \<Rightarrow> (uint \<times> umem) option" where
  "malloc grant nbytes s =
     (let nunits = (nbytes + 8 - 1) div 8 + 1;
          s = (if u_freep s = 0
               then s\<lparr>u_ram := set_size (u_base s) 0 (set_ptr (u_base s) (u_base s) (u_ram s)), u_freep := u_base s\<rparr>
               else s)
      in malloc_loop grant nunits (u_freep s) (h_ptr (u_ram s) (u_freep s)) s)"

section \<open>Headers that do not overlap\<close>

lemma load32_store32_apart:
  assumes "unat a + 4 \<le> unat b \<or> unat b + 4 \<le> unat a" and "unat a + 4 \<le> 2 ^ 32" and "unat b + 4 \<le> 2 ^ 32"
  shows "load32 (store32 m a v) b = load32 m b"
proof -
  have "\<not> b + i - a < 4" if "i < 4" for i :: uint
  proof -
    have "unat (b + i) = unat b + unat i" using that assms(3) by (simp add: unat_word_ariths word_less_nat_alt)
    then show ?thesis using that assms
      by (auto simp: word_less_nat_alt unat_sub_if_size word_size word_le_nat_alt)
  qed
  from this [of 0] this [of 1] this [of 2] this [of 3] show ?thesis by (simp add: load32_def store32_apply)
qed

definition headers :: "uint set \<Rightarrow> bool" where
  "headers H \<longleftrightarrow> (\<forall>a \<in> H. unat a + 8 \<le> 2 ^ 32) \<and>
     (\<forall>a \<in> H. \<forall>b \<in> H. a \<noteq> b \<longrightarrow> unat a + 8 \<le> unat b \<or> unat b + 8 \<le> unat a)"

lemma unat_plus4: "unat a + 8 \<le> 2 ^ 32 \<Longrightarrow> unat (a + 4 :: uint) = unat a + 4"
  by (simp add: unat_word_ariths)

lemma header_update:
  assumes "headers H" and "a \<in> H" and "b \<in> H"
  shows "h_ptr (set_ptr a v m) b = (if b = a then v else h_ptr m b)"
    and "h_ptr (set_size a v m) b = h_ptr m b"
    and "h_size (set_ptr a v m) b = h_size m b"
    and "h_size (set_size a v m) b = (if b = a then v else h_size m b)"
proof -
  have r: "unat a + 8 \<le> 2 ^ 32" "unat b + 8 \<le> 2 ^ 32" using assms by (auto simp: headers_def)
  have d: "unat a + 8 \<le> unat b \<or> unat b + 8 \<le> unat a" if "b \<noteq> a" using assms that by (auto simp: headers_def)
  note q = unat_plus4 [OF r(1)] unat_plus4 [OF r(2)]
  have o: "load32 (store32 m a v) b = load32 m b" "load32 (store32 m (a + 4) v) (b + 4) = load32 m (b + 4)" if "b \<noteq> a"
    using d [OF that] r q by (auto intro!: load32_store32_apart)
  have c: "load32 (store32 m (a + 4) v) b = load32 m b" "load32 (store32 m a v) (b + 4) = load32 m (b + 4)"
    using d r q by (cases "b = a"; auto intro!: load32_store32_apart)+
  show "h_ptr (set_ptr a v m) b = (if b = a then v else h_ptr m b)" "h_ptr (set_size a v m) b = h_ptr m b"
    "h_size (set_ptr a v m) b = h_size m b" "h_size (set_size a v m) b = (if b = a then v else h_size m b)"
    using o c by (auto simp: h_ptr_def h_size_def set_ptr_def set_size_def)
qed

section \<open>The free list\<close>

text \<open>The nodes \<open>xs\<close> are linked one to the next, the last one to \<open>y\<close>.\<close>

fun path :: "memory \<Rightarrow> uint list \<Rightarrow> uint \<Rightarrow> bool" where
  "path m [] y \<longleftrightarrow> True"
| "path m (x # xs) y \<longleftrightarrow> h_ptr m x = hd (xs @ [y]) \<and> path m xs y"

lemma path_append: "path m (xs @ ys) y \<longleftrightarrow> path m xs (hd (ys @ [y])) \<and> path m ys y"
  by (induction xs) (auto simp: hd_append)

lemma path_cong: "(\<And>a. a \<in> set xs \<Longrightarrow> h_ptr m' a = h_ptr m a) \<Longrightarrow> path m' xs y = path m xs y"
  by (induction xs) auto

text \<open>
  The search ends at the last node before the block, wherever it starts: first from the nodes before
  the block, then from the nodes behind it, which lead around to the first.
\<close>

lemma free_find_below:
  assumes "path m (us @ [p]) y" and "sorted_wrt (<) (us @ [p])" and "\<forall>a \<in> set (us @ [p]). a < bp"
    and "bp < y \<or> y \<le> p"
  shows "\<forall>q \<in> set (us @ [p]). free_find m bp q = Some p"
  using assms
proof (induction us)
  case Nil
  then show ?case by (subst free_find.simps) auto
next
  case (Cons u us)
  have IH: "\<forall>q \<in> set (us @ [p]). free_find m bp q = Some p" using Cons by simp
  define w where "w = hd (us @ [p])"
  have w: "w \<in> set (us @ [p])" "h_ptr m u = w"
    using Cons.prems(1) by (simp_all add: w_def hd_append)
  then have "u < w" "w < bp" using Cons.prems(2,3) by auto
  then have "\<not> w \<le> u" "\<not> bp < w" by auto
  then have "free_find m bp u = free_find m bp w" by (subst free_find.simps) (simp add: w(2))
  then show ?case using IH w(1) by auto
qed

lemma free_find_above:
  assumes "path m vs base" and "sorted_wrt (<) vs" and "\<forall>a \<in> set vs. bp < a" and "base < bp"
    and "free_find m bp base = Some p"
  shows "\<forall>q \<in> set vs. free_find m bp q = Some p"
  using assms
proof (induction vs)
  case (Cons v vs)
  have IH: "\<forall>q \<in> set vs. free_find m bp q = Some p" using Cons by simp
  define w where "w = hd (vs @ [base])"
  have w: "w = base \<or> w \<in> set vs" "h_ptr m v = w" using Cons.prems(1) by (cases vs; simp add: w_def)+
  have "\<not> (v \<ge> w \<and> (bp > v \<or> bp < w))" "\<not> bp > v"
    using w(1) Cons.prems(2-4) by auto
  then have "free_find m bp v = free_find m bp w" by (subst free_find.simps) (auto simp: w(2))
  then show ?case using IH w(1) Cons.prems(5) by auto
qed simp

section \<open>Linking a block into the list\<close>

text \<open>
  What linking does to the headers of the list and of the block: \<open>up\<close> when the block ends where the
  next one starts, \<open>down\<close> when it starts where the previous one ends.
\<close>

lemma free_link_views:
  assumes H: "headers H" "bp \<in> H" "p \<in> H" "h_ptr m p \<in> H" and "p \<noteq> bp" and "h_ptr m p \<noteq> bp" and b: "b \<in> H"
  defines "up \<equiv> bp + 8 * h_size m bp = h_ptr m p"
  defines "S \<equiv> (if up then h_size m bp + h_size m (h_ptr m p) else h_size m bp)"
    and "N \<equiv> (if up then h_ptr m (h_ptr m p) else h_ptr m p)"
    and "down \<equiv> p + 8 * h_size m p = bp"
  shows "h_ptr (free_link bp p m) b = (if b = p then (if down then N else bp) else if b = bp then N else h_ptr m b)"
    and "h_size (free_link bp p m) b = (if b = p \<and> down then h_size m p + S else if b = bp then S else h_size m b)"
proof -
  define m1 where "m1 = (if up then let m = set_size bp (h_size m bp + h_size m (h_ptr m p)) m
      in set_ptr bp (h_ptr m (h_ptr m p)) m else set_ptr bp (h_ptr m p) m)"
  note u = header_update [OF H(1)]
  have m1: "h_ptr m1 c = (if c = bp then N else h_ptr m c)" "h_size m1 c = (if c = bp then S else h_size m c)"
    if "c \<in> H" for c
    using that H assms(5,6) by (simp_all add: m1_def Let_def u N_def S_def)
  have l: "free_link bp p m = (if down then let m = set_size p (h_size m1 p + h_size m1 bp) m1 in set_ptr p (h_ptr m bp) m
      else set_ptr p bp m1)"
    using m1(2) [OF H(3)] assms(5) by (simp add: free_link_def m1_def [unfolded up_def] Let_def down_def cong: if_cong)
  show "h_ptr (free_link bp p m) b = (if b = p then (if down then N else bp) else if b = bp then N else h_ptr m b)"
    "h_size (free_link bp p m) b = (if b = p \<and> down then h_size m p + S else if b = bp then S else h_size m b)"
    unfolding l using b H assms(5) by (simp_all add: Let_def u m1)
qed

section \<open>The invariant\<close>

text \<open>
  A free list in order: circular through \<^verbatim>\<open>base\<close>, which is empty and has the lowest address; the
  blocks \<open>hs\<close> behind it are not empty, ascend, and do not even touch, since neighbours are joined.
\<close>

definition block_end :: "memory \<Rightarrow> uint \<Rightarrow> nat" where
  "block_end m a = unat a + 8 * unat (h_size m a)"

definition clear_of :: "memory \<Rightarrow> uint \<Rightarrow> uint \<Rightarrow> uint \<Rightarrow> bool" where
  "clear_of m base a b \<longleftrightarrow> (if a = base then unat a + 8 \<le> unat b else block_end m a < unat b)"

definition free_list :: "memory \<Rightarrow> uint \<Rightarrow> uint list \<Rightarrow> bool" where
  "free_list m base hs \<longleftrightarrow>
     path m (base # hs) base \<and> sorted_wrt (clear_of m base) (base # hs) \<and>
     h_size m base = 0 \<and> unat base + 8 < 2 ^ 32 \<and>
     (\<forall>a \<in> set hs. h_size m a \<noteq> 0 \<and> block_end m a < 2 ^ 32)"

definition free_bytes :: "memory \<Rightarrow> uint list \<Rightarrow> nat set" where
  "free_bytes m hs = (\<Union>a \<in> set hs. {unat a..<block_end m a})"

text \<open>A block in use: behind \<^verbatim>\<open>base\<close>, not empty, inside memory, and apart from the free blocks.\<close>

definition in_use :: "memory \<Rightarrow> uint \<Rightarrow> uint list \<Rightarrow> uint \<Rightarrow> bool" where
  "in_use m base hs bp \<longleftrightarrow>
     unat base + 8 \<le> unat bp \<and> h_size m bp \<noteq> 0 \<and> block_end m bp < 2 ^ 32 \<and>
     {unat bp..<block_end m bp} \<inter> free_bytes m hs = {}"

lemma block_end_word:
  assumes "block_end m a < 2 ^ 32"
  shows "unat (a + 8 * h_size m a) = block_end m a"
  using assms by (simp add: block_end_def unat_word_ariths)

lemma block_end_8: "h_size m a \<noteq> 0 \<Longrightarrow> unat a + 8 \<le> block_end m a"
proof -
  assume "h_size m a \<noteq> 0"
  then have "0 < unat (h_size m a)" by (simp add: unat_gt_0)
  then show ?thesis by (simp add: block_end_def)
qed

lemma in_use_apart:
  assumes "in_use m base hs bp" and "a \<in> set hs" and "h_size m a \<noteq> 0"
  shows "block_end m a \<le> unat bp \<or> block_end m bp \<le> unat a"
proof (rule ccontr)
  assume "\<not> ?thesis"
  then have "max (unat a) (unat bp) \<in> {unat bp..<block_end m bp} \<inter> {unat a..<block_end m a}"
    using block_end_8 [OF assms(3)] block_end_8 [of m bp] assms(1) by (auto simp: in_use_def)
  moreover have "{unat a..<block_end m a} \<subseteq> free_bytes m hs" using assms(2) by (auto simp: free_bytes_def)
  ultimately show False using assms(1) unfolding in_use_def by blast
qed

lemma free_list_less:
  assumes "free_list m base hs"
  shows "sorted_wrt (\<lambda>a b. unat a + 8 \<le> unat b) (base # hs)" and "sorted_wrt (<) (base # hs)"
proof -
  have "sorted_wrt (clear_of m base) (base # hs)" using assms by (simp add: free_list_def)
  then show s: "sorted_wrt (\<lambda>a b. unat a + 8 \<le> unat b) (base # hs)"
  proof (rule sorted_wrt_mono_rel [rotated])
    fix a b assume "a \<in> set (base # hs)" "clear_of m base a b"
    then show "unat a + 8 \<le> unat b"
      using assms block_end_8 [of m a] by (auto simp: free_list_def clear_of_def split: if_splits)
  qed
  show "sorted_wrt (<) (base # hs)" by (rule sorted_wrt_mono_rel [OF _ s]) (simp add: word_less_nat_alt)
qed

lemma free_list_headers:
  assumes "free_list m base hs" and "in_use m base hs bp"
  shows "headers (insert bp (set (base # hs)))" and "bp \<notin> set (base # hs)"
proof -
  have pw: "unat a + 8 \<le> unat b \<or> unat b + 8 \<le> unat a" if "a \<in> set (base # hs)" "b \<in> set (base # hs)" "a \<noteq> b" for a b
    using free_list_less(1) [OF assms(1)] that unfolding sorted_wrt_iff_nth_less in_set_conv_nth
    by (metis linorder_neqE_nat)
  have bp: "unat a + 8 \<le> unat bp \<or> unat bp + 8 \<le> unat a" if "a \<in> set (base # hs)" for a
  proof (cases "a = base")
    case True
    then show ?thesis using assms(2) by (simp add: in_use_def)
  next
    case False
    then have "h_size m a \<noteq> 0" "a \<in> set hs" using that assms(1) by (auto simp: free_list_def)
    then show ?thesis
      using in_use_apart [OF assms(2), of a] block_end_8 [of m a] block_end_8 [of m bp] assms(2)
      by (auto simp: in_use_def)
  qed
  have top: "unat a + 8 \<le> 2 ^ 32" if "a \<in> insert bp (set (base # hs))" for a
    using that assms block_end_8 [of m a] by (fastforce simp: free_list_def in_use_def)
  show "headers (insert bp (set (base # hs)))" unfolding headers_def using pw bp top by (metis insert_iff)
  show "bp \<notin> set (base # hs)" using bp by fastforce
qed

lemma split_sorted:
  fixes bp :: uint
  shows "sorted_wrt (<) xs \<Longrightarrow> bp \<notin> set xs \<Longrightarrow>
     \<exists>us vs. xs = us @ vs \<and> (\<forall>a \<in> set us. a < bp) \<and> (\<forall>a \<in> set vs. bp < a)"
proof (induction xs)
  case (Cons x xs)
  show ?case
  proof (cases "x < bp")
    case True
    obtain us vs where "xs = us @ vs" "\<forall>a \<in> set us. a < bp" "\<forall>a \<in> set vs. bp < a" using Cons by auto
    then show ?thesis using True by (intro exI [of _ "x # us"] exI [of _ vs]) simp
  next
    case False
    then show ?thesis using Cons.prems by (intro exI [of _ "[]"] exI [of _ "x # xs"]) fastforce
  qed
qed simp

lemma free_list_split:
  assumes "free_list m base hs" and "in_use m base hs bp"
  obtains us p vs where "base # hs = us @ p # vs" and "\<forall>a \<in> set (us @ [p]). a < bp" and "\<forall>a \<in> set vs. bp < a"
proof -
  obtain us vs where s: "base # hs = us @ vs" "\<forall>a \<in> set us. a < bp" "\<forall>a \<in> set vs. bp < a"
    using split_sorted [OF free_list_less(2) [OF assms(1)] free_list_headers(2) [OF assms]] by blast
  have "base < bp" using assms(2) by (simp add: in_use_def word_less_nat_alt)
  then have "us \<noteq> []" using s by (cases us) auto
  then obtain us' p where "us = us' @ [p]" by (metis rev_exhaust)
  then show ?thesis using that [of us' p vs] s by simp
qed

section \<open>Freeing a block\<close>

text \<open>The list cut at the place of the block: \<open>p\<close> is the last node before it, \<open>vs\<close> are those behind it.\<close>

definition cut_at :: "memory \<Rightarrow> uint \<Rightarrow> uint list \<Rightarrow> uint \<Rightarrow> uint list \<Rightarrow> uint \<Rightarrow> uint list \<Rightarrow> bool" where
  "cut_at m base hs bp us p vs \<longleftrightarrow>
     free_list m base hs \<and> in_use m base hs bp \<and> base # hs = us @ p # vs \<and>
     (\<forall>a \<in> set (us @ [p]). a < bp) \<and> (\<forall>a \<in> set vs. bp < a)"

definition joins_up :: "memory \<Rightarrow> uint \<Rightarrow> uint list \<Rightarrow> bool" where
  "joins_up m bp vs \<longleftrightarrow> vs \<noteq> [] \<and> block_end m bp = unat (hd vs)"

definition joins_down :: "memory \<Rightarrow> uint \<Rightarrow> uint \<Rightarrow> uint \<Rightarrow> bool" where
  "joins_down m base bp p \<longleftrightarrow> p \<noteq> base \<and> block_end m p = unat bp"

lemma cut_path:
  assumes "cut_at m base hs bp us p vs"
  shows "path m us p" and "h_ptr m p = hd (vs @ [base])" and "path m vs base"
proof -
  have "path m (base # hs) base" "base # hs = us @ p # vs" using assms unfolding cut_at_def free_list_def by blast+
  then have "path m (us @ p # vs) base" by (simp only:)
  then show "path m us p" "h_ptr m p = hd (vs @ [base])" "path m vs base" by (simp_all add: path_append)
qed

lemma cut_base:
  assumes "cut_at m base hs bp us p vs"
  shows "base \<notin> set vs" and "p = base \<longleftrightarrow> us = []" and "us \<noteq> [] \<Longrightarrow> hd us = base" and "set vs \<subseteq> set hs"
    and "p \<noteq> base \<Longrightarrow> p \<in> set hs"
proof -
  have e: "base # hs = us @ p # vs" and d: "sorted_wrt (<) (us @ p # vs)"
    using assms free_list_less(2) unfolding cut_at_def by metis+
  show "p = base \<longleftrightarrow> us = []" "us \<noteq> [] \<Longrightarrow> hd us = base" "p \<noteq> base \<Longrightarrow> p \<in> set hs" "set vs \<subseteq> set hs"
    using e d by (cases us; auto)+
  show "base \<notin> set vs" using e d by (cases us; auto)
qed

lemma cut_up:
  assumes "cut_at m base hs bp us p vs"
  shows "bp + 8 * h_size m bp = h_ptr m p \<longleftrightarrow> joins_up m bp vs"
    and "v \<in> set vs \<Longrightarrow> block_end m bp \<le> unat v"
proof -
  have iu: "in_use m base hs bp" "free_list m base hs" using assms by (simp_all add: cut_at_def)
  then have e: "block_end m bp < 2 ^ 32" "unat base + 8 \<le> unat bp" "unat bp + 8 \<le> block_end m bp"
    using block_end_8 [of m bp] by (simp_all add: in_use_def)
  have "bp + 8 * h_size m bp = h_ptr m p \<longleftrightarrow> block_end m bp = unat (h_ptr m p)"
    using block_end_word [OF e(1)] by (metis word_unat_eq_iff)
  then show "bp + 8 * h_size m bp = h_ptr m p \<longleftrightarrow> joins_up m bp vs"
    using cut_path(2) [OF assms] e by (cases vs) (auto simp: joins_up_def)
  show "block_end m bp \<le> unat v" if "v \<in> set vs"
  proof -
    have v: "v \<in> set hs" "bp < v" using that cut_base(4) [OF assms] assms by (auto simp: cut_at_def)
    then have "h_size m v \<noteq> 0" using iu(2) by (simp add: free_list_def)
    then show ?thesis using in_use_apart [OF iu(1) v(1)] block_end_8 [of m v] v(2) by (auto simp: word_less_nat_alt)
  qed
qed

lemma cut_down:
  assumes "cut_at m base hs bp us p vs"
  shows "p + 8 * h_size m p = bp \<longleftrightarrow> joins_down m base bp p"
    and "\<not> joins_down m base bp p \<Longrightarrow> clear_of m base p bp"
proof -
  have iu: "in_use m base hs bp" "free_list m base hs" "p < bp" using assms by (simp_all add: cut_at_def)
  have e: "block_end m p < 2 ^ 32" "p \<noteq> base \<Longrightarrow> block_end m p \<le> unat bp"
  proof -
    show "block_end m p < 2 ^ 32" using iu(2) cut_base(5) [OF assms] by (cases "p = base") (auto simp: free_list_def block_end_def)
    show "block_end m p \<le> unat bp" if "p \<noteq> base"
      using in_use_apart [OF iu(1) cut_base(5) [OF assms that]] iu that cut_base(5) [OF assms that] block_end_8 [of m bp]
      by (auto simp: free_list_def in_use_def word_less_nat_alt)
  qed
  have "p + 8 * h_size m p = bp \<longleftrightarrow> block_end m p = unat bp"
    using block_end_word [OF e(1)] by (metis word_unat_eq_iff)
  moreover have "block_end m base \<noteq> unat bp" using iu(1,2) by (simp add: block_end_def free_list_def in_use_def)
  ultimately show "p + 8 * h_size m p = bp \<longleftrightarrow> joins_down m base bp p" by (auto simp: joins_down_def)
  show "clear_of m base p bp" if "\<not> joins_down m base bp p"
    using that e(2) iu(1) by (auto simp: clear_of_def joins_down_def in_use_def)
qed

text \<open>The nodes behind the block, and its end, after it has been joined with the next one if they touch.\<close>

definition rest_of :: "memory \<Rightarrow> uint \<Rightarrow> uint list \<Rightarrow> uint list" where
  "rest_of m bp vs = (if joins_up m bp vs then tl vs else vs)"

definition end_of :: "memory \<Rightarrow> uint \<Rightarrow> uint list \<Rightarrow> nat" where
  "end_of m bp vs = (if joins_up m bp vs then block_end m (hd vs) else block_end m bp)"

lemma add_sizes:
  fixes x y :: uint
  assumes "8 * (unat x + unat y) < 2 ^ 32"
  shows "unat (x + y) = unat x + unat y"
  using assms by (simp add: unat_word_ariths)

lemma cut_sorted:
  assumes "cut_at m base hs bp us p vs"
  shows "sorted_wrt (clear_of m base) (us @ p # vs)"
proof -
  have "sorted_wrt (clear_of m base) (base # hs)" "base # hs = us @ p # vs"
    using assms unfolding cut_at_def free_list_def by blast+
  then show ?thesis by (simp only:)
qed

lemma cut_end:
  assumes "cut_at m base hs bp us p vs"
  shows "unat bp + 8 \<le> end_of m bp vs \<and> end_of m bp vs < 2 ^ 32 \<and> (\<forall>v \<in> set (rest_of m bp vs). end_of m bp vs < unat v)"
proof -
  have c: "unat bp + 8 \<le> block_end m bp" "block_end m bp < 2 ^ 32" "\<forall>a \<in> set hs. h_size m a \<noteq> 0 \<and> block_end m a < 2 ^ 32"
    using assms block_end_8 [of m bp] by (simp_all add: cut_at_def in_use_def free_list_def)
  show ?thesis
  proof (cases vs)
    case Nil
    then show ?thesis using c by (simp add: end_of_def rest_of_def joins_up_def)
  next
    case (Cons v ws)
    have v: "v \<in> set hs" "v \<noteq> base" using Cons cut_base(1,4) [OF assms] by auto
    have s: "\<forall>w \<in> set ws. block_end m v < unat w"
      using cut_sorted [OF assms] Cons v(2) by (simp add: sorted_wrt_append clear_of_def)
    have e: "unat v + 8 \<le> block_end m v" "block_end m v < 2 ^ 32" using block_end_8 [of m v] c(3) v(1) by simp_all
    have le: "block_end m bp \<le> unat v" using cut_up(2) [OF assms, of v] Cons by simp
    then have "\<forall>w \<in> set ws. block_end m bp < unat w" using s e by fastforce
    then show ?thesis using s c(1,2) e le Cons by (auto simp: end_of_def rest_of_def joins_up_def)
  qed
qed

lemma cut_views:
  assumes "cut_at m base hs bp us p vs"
  shows "a \<in> set us \<union> set vs \<Longrightarrow> h_ptr (free_link bp p m) a = h_ptr m a \<and> h_size (free_link bp p m) a = h_size m a"
    and "h_ptr (free_link bp p m) p = (if joins_down m base bp p then hd (rest_of m bp vs @ [base]) else bp)"
    and "h_ptr (free_link bp p m) bp = hd (rest_of m bp vs @ [base])"
    and "\<not> joins_down m base bp p \<Longrightarrow> h_size (free_link bp p m) p = h_size m p"
    and "block_end (free_link bp p m) bp = end_of m bp vs"
    and "joins_down m base bp p \<Longrightarrow> block_end (free_link bp p m) p = end_of m bp vs"
proof -
  let ?m = "free_link bp p m"
  define H where "H = insert bp (set (base # hs))"
  have c: "free_list m base hs" "in_use m base hs bp" "base # hs = us @ p # vs" using assms by (simp_all add: cut_at_def)
  have L: "set (base # hs) = insert p (set us \<union> set vs)" unfolding c(3) by simp
  have H: "headers H" "bp \<notin> set (base # hs)" using free_list_headers [OF c(1,2)] by (simp_all add: H_def)
  have nx: "h_ptr m p \<in> set (base # hs)" using cut_path(2) [OF assms] L by (cases vs) auto
  have ne: "p \<noteq> bp" "h_ptr m p \<noteq> bp" using H(2) nx L by auto
  have mem: "bp \<in> H" "p \<in> H" "h_ptr m p \<in> H" using nx unfolding H_def L by auto
  have d: "distinct (us @ p # vs)" using free_list_less(2) [OF c(1)] unfolding c(3) by (simp only: strict_sorted_iff)
  define N where "N = hd (rest_of m bp vs @ [base])"
  have N: "(if joins_up m bp vs then h_ptr m (h_ptr m p) else h_ptr m p) = N"
    using cut_path(2,3) [OF assms] by (cases vs) (auto simp: N_def rest_of_def joins_up_def)
  define S where "S = (if joins_up m bp vs then h_size m bp + h_size m (h_ptr m p) else h_size m bp)"
  have v: "h_ptr ?m b = (if b = p then (if joins_down m base bp p then N else bp) else if b = bp then N else h_ptr m b)"
    "h_size ?m b = (if b = p \<and> joins_down m base bp p then h_size m p + S else if b = bp then S else h_size m b)" if "b \<in> H" for b
    using free_link_views [OF H(1) mem ne that]
    by (simp_all only: cut_up(1) [OF assms] cut_down(1) [OF assms] N S_def)
  show "h_ptr ?m a = h_ptr m a \<and> h_size ?m a = h_size m a" if "a \<in> set us \<union> set vs"
  proof -
    have "a \<in> H" "a \<noteq> p" "a \<noteq> bp" using that H(2) d unfolding H_def L by auto
    then show ?thesis using v by simp
  qed
  show "h_ptr ?m p = (if joins_down m base bp p then hd (rest_of m bp vs @ [base]) else bp)"
    "h_ptr ?m bp = hd (rest_of m bp vs @ [base])"
    "\<not> joins_down m base bp p \<Longrightarrow> h_size ?m p = h_size m p"
    using v [OF mem(1)] v [OF mem(2)] ne by (auto simp: N_def)
  have S: "unat bp + 8 * unat S = end_of m bp vs"
  proof (cases "joins_up m bp vs")
    case True
    then have hv: "h_ptr m p = hd vs" "hd vs \<in> set hs" "block_end m bp = unat (hd vs)"
      using cut_path(2) [OF assms] cut_base(4) [OF assms] by (auto simp: joins_up_def)
    then have "block_end m (hd vs) < 2 ^ 32" using c(1) by (simp add: free_list_def)
    then have "8 * (unat (h_size m bp) + unat (h_size m (hd vs))) < 2 ^ 32" using hv(3) by (simp add: block_end_def)
    from add_sizes [OF this] show ?thesis using True hv by (simp add: S_def end_of_def block_end_def)
  qed (simp add: S_def end_of_def block_end_def)
  show "block_end ?m bp = end_of m bp vs" using v(2) [OF mem(1)] ne S by (simp add: block_end_def)
  show "block_end ?m p = end_of m bp vs" if j: "joins_down m base bp p"
  proof -
    have p: "unat p + 8 * unat (h_size m p) = unat bp" using j by (simp add: joins_down_def block_end_def)
    have "end_of m bp vs < 2 ^ 32" using cut_end [OF assms] by simp
    then have "8 * (unat (h_size m p) + unat S) < 2 ^ 32" using p S by simp
    from add_sizes [OF this] show ?thesis using v(2) [OF mem(2)] j p S by (simp add: block_end_def)
  qed
qed

definition joined :: "memory \<Rightarrow> uint \<Rightarrow> uint \<Rightarrow> uint list \<Rightarrow> uint \<Rightarrow> uint list \<Rightarrow> uint list" where
  "joined m base bp us p vs = us @ p # (if joins_down m base bp p then [] else [bp]) @ rest_of m bp vs"

lemma joined_base: "cut_at m base hs bp us p vs \<Longrightarrow> joined m base bp us p vs = base # tl (joined m base bp us p vs)"
  using cut_base(2,3) [of m base hs bp us p vs] by (cases us) (auto simp: joined_def)

lemma set_rest_of: "set (rest_of m bp vs) \<subseteq> set vs"
  by (cases vs) (auto simp: rest_of_def)

lemma joined_path:
  assumes "cut_at m base hs bp us p vs"
  shows "path (free_link bp p m) (joined m base bp us p vs) base"
proof -
  let ?m = "free_link bp p m"
  have "path ?m us p" using cut_path(1) [OF assms] cut_views(1) [OF assms] by (subst path_cong [of us ?m m]) auto
  moreover have "path m (rest_of m bp vs) base"
    using cut_path(3) [OF assms] by (cases vs) (auto simp: rest_of_def)
  then have "path ?m (rest_of m bp vs) base"
    using cut_views(1) [OF assms] set_rest_of [of m bp vs] by (subst path_cong [of "rest_of m bp vs" ?m m]) auto
  ultimately show ?thesis
    using cut_views(2,3) [OF assms] by (simp add: joined_def path_append)
qed

lemma joined_sorted:
  assumes "cut_at m base hs bp us p vs"
  shows "sorted_wrt (clear_of (free_link bp p m) base) (joined m base bp us p vs)"
proof -
  let ?m = "free_link bp p m"
  let ?rest = "rest_of m bp vs"
  have same: "clear_of ?m base a b = clear_of m base a b" if "a \<in> set us \<union> set vs" for a b
    using cut_views(1) [OF assms that] by (simp add: clear_of_def block_end_def)
  have s: "sorted_wrt (clear_of m base) us" "\<forall>a \<in> set us. clear_of m base a p" "\<forall>a \<in> set us. \<forall>b \<in> set vs. clear_of m base a b"
    "\<forall>b \<in> set vs. clear_of m base p b" "sorted_wrt (clear_of m base) vs"
    using cut_sorted [OF assms] by (auto simp: sorted_wrt_append)
  have ne: "bp \<noteq> base" "p < bp" using assms by (auto simp: cut_at_def in_use_def)
  have us: "sorted_wrt (clear_of ?m base) us"
    using s(1) by (rule sorted_wrt_mono_rel [rotated]) (use same in auto)
  have "sorted_wrt (clear_of m base) ?rest" using s(5) by (cases vs) (auto simp: rest_of_def)
  then have rest: "sorted_wrt (clear_of ?m base) ?rest"
    by (rule sorted_wrt_mono_rel [rotated]) (use same set_rest_of [of m bp vs] in auto)
  have to_bp: "clear_of ?m base a bp" if "a \<in> set us" for a
    using s(2) that ne(2) same [of a] by (auto simp: clear_of_def word_less_nat_alt)
  have from_bp: "clear_of ?m base bp b" if "b \<in> set ?rest" for b
    using cut_views(5) [OF assms] cut_end [OF assms] that ne(1) by (simp add: clear_of_def)
  have p: "clear_of ?m base p b" if "b \<in> set ?rest" for b
    using that cut_views(4,6) [OF assms] cut_end [OF assms] s(4) set_rest_of [of m bp vs]
    by (cases "joins_down m base bp p") (auto simp: clear_of_def joins_down_def block_end_def)
  have p_bp: "clear_of ?m base p bp" if "\<not> joins_down m base bp p"
    using cut_down(2) [OF assms that] cut_views(4) [OF assms that] by (auto simp: clear_of_def block_end_def split: if_splits)
  have us_out: "clear_of ?m base a b" if "a \<in> set us" "b \<in> insert p (set ?rest)" for a b
    using s(2,3) that same [of a] set_rest_of [of m bp vs] by auto
  show ?thesis
    unfolding joined_def using us rest to_bp from_bp p p_bp us_out by (auto simp: sorted_wrt_append)
qed

lemma free_bytes_base: "h_size m base = 0 \<Longrightarrow> free_bytes m hs = (\<Union>a \<in> set (base # hs). {unat a..<block_end m a})"
  by (simp add: free_bytes_def block_end_def)

lemma joined_bytes:
  assumes "cut_at m base hs bp us p vs"
  shows "(\<Union>a \<in> set (joined m base bp us p vs). {unat a..<block_end (free_link bp p m) a}) =
    (\<Union>a \<in> set (us @ p # vs). {unat a..<block_end m a}) \<union> {unat bp..<block_end m bp}"
proof -
  let ?m = "free_link bp p m"
  have same: "block_end ?m a = block_end m a" if "a \<in> set us \<union> set vs" for a
    using cut_views(1) [OF assms that] by (simp add: block_end_def)
  have up: "{unat bp..<end_of m bp vs} \<union> (\<Union>a \<in> set (rest_of m bp vs). {unat a..<block_end ?m a}) =
      {unat bp..<block_end m bp} \<union> (\<Union>a \<in> set vs. {unat a..<block_end m a})"
  proof (cases "joins_up m bp vs")
    case True
    then obtain v ws where vs: "vs = v # ws" "block_end m bp = unat v" by (cases vs) (auto simp: joins_up_def)
    have "unat bp \<le> unat v" "unat v \<le> block_end m v" using vs(2) by (simp_all add: block_end_def) 
    then have "{unat bp..<block_end m v} = {unat bp..<unat v} \<union> {unat v..<block_end m v}" by auto
    then show ?thesis using True vs same by (auto simp: end_of_def rest_of_def)
  next
    case False
    then show ?thesis using same by (auto simp: end_of_def rest_of_def)
  qed
  have down: "{unat p..<block_end ?m p} \<union> (if joins_down m base bp p then {} else {unat bp..<block_end ?m bp}) =
      {unat p..<block_end m p} \<union> {unat bp..<end_of m bp vs}"
  proof (cases "joins_down m base bp p")
    case True
    have "unat p \<le> unat bp" "unat bp \<le> end_of m bp vs" using assms cut_end [OF assms] by (auto simp: cut_at_def word_less_nat_alt)
    then show ?thesis using True cut_views(6) [OF assms True] by (auto simp: joins_down_def)
  next
    case False
    then show ?thesis using cut_views(4,5) [OF assms] by (simp add: block_end_def)
  qed
  have "(\<Union>a \<in> set (joined m base bp us p vs). {unat a..<block_end ?m a}) =
      (\<Union>a \<in> set us. {unat a..<block_end ?m a}) \<union>
      ({unat p..<block_end ?m p} \<union> (if joins_down m base bp p then {} else {unat bp..<block_end ?m bp})) \<union>
      (\<Union>a \<in> set (rest_of m bp vs). {unat a..<block_end ?m a})"
    unfolding joined_def by auto
  also have "\<dots> = (\<Union>a \<in> set us. {unat a..<block_end m a}) \<union> {unat p..<block_end m p} \<union>
      ({unat bp..<end_of m bp vs} \<union> (\<Union>a \<in> set (rest_of m bp vs). {unat a..<block_end ?m a}))"
    unfolding down using same by (simp add: Un_assoc)
  finally show ?thesis unfolding up by auto
qed

lemma joined_free_list:
  assumes "cut_at m base hs bp us p vs"
  shows "free_list (free_link bp p m) base (tl (joined m base bp us p vs))"
    and "free_bytes (free_link bp p m) (tl (joined m base bp us p vs)) = free_bytes m hs \<union> {unat bp..<block_end m bp}"
proof -
  let ?m = "free_link bp p m"
  let ?L = "joined m base bp us p vs"
  have c: "free_list m base hs" "in_use m base hs bp" "base # hs = us @ p # vs" using assms by (simp_all add: cut_at_def)
  have f: "h_size m base = 0" "unat base + 8 < 2 ^ 32" "\<forall>a \<in> set hs. h_size m a \<noteq> 0 \<and> block_end m a < 2 ^ 32"
    using c(1) by (simp_all add: free_list_def)
  have L: "?L = base # tl ?L" by (rule joined_base [OF assms])
  have b0: "h_size ?m base = 0"
  proof (cases "us = []")
    case True
    then have "p = base" using cut_base(2) [OF assms] by simp
    then show ?thesis using cut_views(4) [OF assms] f(1) by (simp add: joins_down_def)
  next
    case False
    then have "base \<in> set us" using cut_base(3) [OF assms] by (metis hd_in_set)
    then show ?thesis using cut_views(1) [OF assms, of base] f(1) by simp
  qed
  have big: "h_size ?m a \<noteq> 0 \<and> block_end ?m a < 2 ^ 32" if "unat a < block_end ?m a" "block_end ?m a < 2 ^ 32" for a
    using that by (auto simp: block_end_def)
  have sz: "h_size ?m a \<noteq> 0 \<and> block_end ?m a < 2 ^ 32" if a: "a \<in> set ?L" "a \<noteq> base" for a
  proof -
    consider "a \<in> set us \<union> set vs" | "a = p" "\<not> joins_down m base bp p" | "a = p" "joins_down m base bp p" | "a = bp"
      using a(1) set_rest_of [of m bp vs] by (auto simp: joined_def split: if_splits)
    then show ?thesis
    proof cases
      case 1
      then have "a \<in> set (base # hs)" unfolding c(3) by auto
      then show ?thesis using a(2) f(3) cut_views(1) [OF assms 1] by (simp add: block_end_def)
    next
      case 2
      then show ?thesis using cut_views(4) [OF assms] cut_base(5) [OF assms] a(2) f(3) by (simp add: block_end_def)
    next
      case 3
      have "p < bp" using assms by (simp add: cut_at_def)
      then show ?thesis using 3 cut_views(6) [OF assms] cut_end [OF assms] by (intro big) (auto simp: word_less_nat_alt)
    next
      case 4
      then show ?thesis using cut_views(5) [OF assms] cut_end [OF assms] by (intro big) auto
    qed
  qed
  have s: "sorted_wrt (clear_of ?m base) (base # tl ?L)" using joined_sorted [OF assms] L by metis
  then have "base \<notin> set (tl ?L)" by (auto simp: clear_of_def)
  then have "\<forall>a \<in> set (tl ?L). h_size ?m a \<noteq> 0 \<and> block_end ?m a < 2 ^ 32"
    using sz L by (metis list.set_intros(2))
  moreover have "path ?m (base # tl ?L) base" using joined_path [OF assms] L by metis
  ultimately show "free_list ?m base (tl ?L)" using s b0 f(2) unfolding free_list_def by blast
  show "free_bytes ?m (tl ?L) = free_bytes m hs \<union> {unat bp..<block_end m bp}"
    unfolding free_bytes_base [OF b0] free_bytes_base [OF f(1)] L [symmetric] c(3) by (rule joined_bytes [OF assms])
qed

lemma set_header_frame:
  assumes "unat x \<notin> {unat a..<unat a + 8}" and "unat a + 8 \<le> 2 ^ 32"
  shows "set_ptr a v m x = m x" and "set_size a v m x = m x"
proof -
  have "\<not> x - a < 4" "\<not> x - (a + 4) < 4"
    using assms unat_plus4 [OF assms(2)]
    by (auto simp: word_less_nat_alt unat_sub_if_size word_size word_le_nat_alt)
  then show "set_ptr a v m x = m x" "set_size a v m x = m x" by (simp_all add: set_ptr_def set_size_def store32_apply)
qed

lemma free_link_frame:
  assumes "unat x \<notin> {unat bp..<unat bp + 8}" and "unat x \<notin> {unat p..<unat p + 8}"
    and "unat bp + 8 \<le> 2 ^ 32" and "unat p + 8 \<le> 2 ^ 32"
  shows "free_link bp p m x = m x"
  using assms by (simp add: free_link_def Let_def set_header_frame)

lemma cut_find:
  assumes "cut_at m base hs bp us p vs" and "q \<in> set (base # hs)"
  shows "free_find m bp q = Some p"
proof -
  have c: "free_list m base hs" "base # hs = us @ p # vs" "\<forall>a \<in> set (us @ [p]). a < bp" "\<forall>a \<in> set vs. bp < a" "base < bp"
    using assms(1) by (simp_all add: cut_at_def in_use_def word_less_nat_alt)
  have s: "sorted_wrt (<) (us @ p # vs)" using free_list_less(2) [OF c(1)] c(2) by simp
  have "path m (us @ [p]) (hd (vs @ [base]))" using cut_path(1,2) [OF assms(1)] by (simp add: path_append)
  moreover have "bp < hd (vs @ [base]) \<or> hd (vs @ [base]) \<le> p"
  proof (cases vs)
    case Nil
    have "base \<in> set (us @ [p])" using c(2) Nil by (metis list.set_intros(1))
    then have "base \<le> p" using s Nil c(2) by (cases us) (auto simp: sorted_wrt_append)
    then show ?thesis using Nil by simp
  qed (use c(4) in simp)
  ultimately have low: "\<forall>q \<in> set (us @ [p]). free_find m bp q = Some p"
    using s c(3) by (intro free_find_below) (auto simp: sorted_wrt_append)
  moreover have "base \<in> set (us @ [p])" using c(2) by (cases us) auto
  then have "\<forall>q \<in> set vs. free_find m bp q = Some p"
    using low s c(4,5) cut_path(3) [OF assms(1)] by (intro free_find_above [of m vs base]) (auto simp: sorted_wrt_append)
  moreover have "q \<in> set (us @ [p]) \<union> set vs" using assms(2) unfolding c(2) by auto
  ultimately show ?thesis by blast
qed

text \<open>The allocator's state with the free blocks \<open>hs\<close>; everything lies below the end of the process's memory.\<close>

definition heap_ok :: "umem \<Rightarrow> uint list \<Rightarrow> bool" where
  "heap_ok s hs \<longleftrightarrow>
     free_list (u_ram s) (u_base s) hs \<and> u_freep s \<in> set (u_base s # hs) \<and>
     unat (u_base s) + 8 \<le> unat (u_brk s) \<and> (\<forall>a \<in> set hs. block_end (u_ram s) a \<le> unat (u_brk s))"

lemma free_bytes_below:
  assumes "\<forall>a \<in> set hs. h_size m a \<noteq> 0"
  shows "(\<forall>a \<in> set hs. block_end m a \<le> b) \<longleftrightarrow> (\<forall>x \<in> free_bytes m hs. x < b)"
proof -
  have "block_end m a \<le> b \<longleftrightarrow> (\<forall>x \<in> {unat a..<block_end m a}. x < b)" if "a \<in> set hs" for a
  proof -
    have "unat a < block_end m a" using assms that block_end_8 [of m a] by fastforce
    then have "block_end m a - 1 \<in> {unat a..<block_end m a}" by auto
    then show ?thesis by fastforce
  qed
  then show ?thesis by (auto simp: free_bytes_def)
qed

lemma free_step:
  assumes "heap_ok s hs" and "in_use (u_ram s) (u_base s) hs (ap - 8)" and "block_end (u_ram s) (ap - 8) \<le> unat (u_brk s)"
  obtains t hs' where "free ap s = Some t" and "heap_ok t hs'" and "u_base t = u_base s" and "u_brk t = u_brk s"
    and "free_bytes (u_ram t) hs' = free_bytes (u_ram s) hs \<union> {unat (ap - 8)..<block_end (u_ram s) (ap - 8)}"
    and "\<forall>x. unat x \<notin> free_bytes (u_ram t) hs' \<longrightarrow> unat x \<notin> {unat (u_base s)..<unat (u_base s) + 8} \<longrightarrow> u_ram t x = u_ram s x"
proof -
  define m base bp where "m = u_ram s" and "base = u_base s" and "bp = ap - 8"
  have a: "free_list m base hs" "u_freep s \<in> set (base # hs)" "in_use m base hs bp"
    using assms(1,2) by (simp_all add: heap_ok_def m_def base_def bp_def)
  obtain us p vs where "base # hs = us @ p # vs" "\<forall>a \<in> set (us @ [p]). a < bp" "\<forall>a \<in> set vs. bp < a"
    by (rule free_list_split [OF a(1,3)])
  then have c: "cut_at m base hs bp us p vs" using a(1,3) unfolding cut_at_def by blast
  define t where "t = s\<lparr>u_ram := free_link bp p m, u_freep := p\<rparr>"
  define hs' where "hs' = tl (joined m base bp us p vs)"
  have f: "free ap s = Some t" using cut_find [OF c a(2)] by (simp add: free_def t_def m_def bp_def)
  have L: "base # hs' = joined m base bp us p vs" using joined_base [OF c] by (simp add: hs'_def)
  have ok: "free_list (free_link bp p m) base hs'" "free_bytes (free_link bp p m) hs' = free_bytes m hs \<union> {unat bp..<block_end m bp}"
    using joined_free_list [OF c] by (simp_all add: hs'_def)
  have "p \<in> set (base # hs')" unfolding L by (simp add: joined_def)
  moreover have "\<forall>x \<in> free_bytes (free_link bp p m) hs'. x < unat (u_brk s)"
  proof -
    have "\<forall>x \<in> free_bytes m hs. x < unat (u_brk s)"
      using assms(1) free_bytes_below [of hs m] by (auto simp: heap_ok_def free_list_def m_def)
    then show ?thesis using assms(3) unfolding ok(2) by (auto simp: m_def bp_def)
  qed
  then have "\<forall>a \<in> set hs'. block_end (free_link bp p m) a \<le> unat (u_brk s)"
    using free_bytes_below [of hs' "free_link bp p m"] ok(1) by (auto simp: free_list_def)
  ultimately have h: "heap_ok t hs'" using ok(1) assms(1) by (simp add: heap_ok_def t_def base_def)
  have fr: "u_ram t x = u_ram s x" if x: "unat x \<notin> free_bytes (u_ram t) hs'" "unat x \<notin> {unat base..<unat base + 8}" for x
  proof -
    have "unat bp + 8 \<le> block_end m bp" "block_end m bp < 2 ^ 32" using a(3) block_end_8 [of m bp] by (auto simp: in_use_def)
    then have bpx: "unat x \<notin> {unat bp..<unat bp + 8}" "unat bp + 8 \<le> 2 ^ 32" using x(1) ok(2) by (auto simp: t_def)
    have "unat x \<notin> {unat p..<unat p + 8} \<and> unat p + 8 \<le> 2 ^ 32"
    proof (cases "p = base")
      case True
      then show ?thesis using x(2) a(1) by (simp add: free_list_def)
    next
      case False
      then have p: "p \<in> set hs" using cut_base(5) [OF c] by simp
      then have "unat p + 8 \<le> block_end m p" "block_end m p < 2 ^ 32" using a(1) block_end_8 [of m p] by (auto simp: free_list_def)
      moreover have "unat x \<notin> {unat p..<block_end m p}" using p x(1) unfolding t_def by (simp add: ok(2)) (auto simp: free_bytes_def)
      ultimately show ?thesis by auto
    qed
    then show ?thesis using free_link_frame [OF bpx(1) _ bpx(2), of p m] by (simp add: t_def m_def)
  qed
  show ?thesis
    by (rule that [OF f h]) (use ok(2) fr in \<open>simp_all add: t_def m_def bp_def base_def\<close>)
qed

text \<open>
  (C7) \<^verbatim>\<open>free\<close> gives a block back: on a free list in order, and for a block in use below the end of
  memory, the search for its place ends, the free bytes become the old ones and those of the block, the list is
  again in order with no two free blocks touching, and no byte changes outside the free blocks and
  \<^verbatim>\<open>base\<close>.
\<close>

theorem free_frees:
  assumes "heap_ok s hs" and "in_use (u_ram s) (u_base s) hs (ap - 8)" and "block_end (u_ram s) (ap - 8) \<le> unat (u_brk s)"
  shows "\<exists>t hs'. free ap s = Some t \<and> heap_ok t hs' \<and> u_base t = u_base s \<and> u_brk t = u_brk s \<and>
    free_bytes (u_ram t) hs' = free_bytes (u_ram s) hs \<union> {unat (ap - 8)..<block_end (u_ram s) (ap - 8)} \<and>
    (\<forall>x. unat x \<notin> free_bytes (u_ram t) hs' \<longrightarrow> unat x \<notin> {unat (u_base s)..<unat (u_base s) + 8} \<longrightarrow> u_ram t x = u_ram s x)"
  by (rule free_step [OF assms]) (intro exI conjI; assumption)

text \<open>An empty free list, and a block of two units at 0x200 in use.\<close>

definition a_heap :: umem where
  "a_heap = \<lparr>u_ram = set_size 0x200 2 (set_size 0x100 0 (set_ptr 0x100 0x100 (\<lambda>_. 0))), u_freep = 0x100, u_base = 0x100, u_brk = 0x1000\<rparr>"

theorem free_frees_witness:
  "\<exists>t hs'. free 0x208 a_heap = Some t \<and> heap_ok t hs' \<and> free_bytes (u_ram t) hs' = {0x200..<0x210}"
proof -
  have v: "h_ptr (u_ram a_heap) 0x100 = 0x100" "h_size (u_ram a_heap) 0x100 = 0" "block_end (u_ram a_heap) 0x200 = 0x210"
    "h_size (u_ram a_heap) 0x200 = 2" by code_simp+
  have s: "u_base a_heap = 0x100" "u_freep a_heap = 0x100" "u_brk a_heap = 0x1000" by (simp_all add: a_heap_def)
  have "heap_ok a_heap []" by (simp add: heap_ok_def free_list_def s v)
  moreover have "in_use (u_ram a_heap) (u_base a_heap) [] (0x208 - 8)" by (simp add: in_use_def free_bytes_def s v)
  moreover have "block_end (u_ram a_heap) (0x208 - 8) \<le> unat (u_brk a_heap)" by (simp add: s v)
  ultimately show ?thesis using free_frees [of a_heap "[]" "0x208"] by (auto simp: v free_bytes_def [of _ "[]"])
qed

end
