(* ===== verification/Malloc.thy ===== *)
theory Malloc
  imports Umalloc
begin

text \<open>
  Allocation by \<^verbatim>\<open>malloc\<close> of \<^verbatim>\<open>umalloc.c\<close>: taking a block from the free list, the search for it
  around the list, and the growth of the process when there is none.
\<close>

section \<open>Blocks of the free list\<close>

lemma free_list_headers_list:
  assumes "free_list m base hs"
  shows "headers (set (base # hs))"
proof -
  have pw: "unat a + 8 \<le> unat b \<or> unat b + 8 \<le> unat a" if "a \<in> set (base # hs)" "b \<in> set (base # hs)" "a \<noteq> b" for a b
    using free_list_less(1) [OF assms] that unfolding sorted_wrt_iff_nth_less in_set_conv_nth
    by (metis linorder_neqE_nat)
  have top: "unat a + 8 \<le> 2 ^ 32" if "a \<in> set (base # hs)" for a
    using that assms block_end_8 [of m a] by (fastforce simp: free_list_def)
  show ?thesis unfolding headers_def using pw top by blast
qed

lemma free_list_apart:
  assumes "free_list m base hs" and "a \<in> set hs" and "b \<in> set hs" and "a \<noteq> b"
  shows "block_end m a < unat b \<or> block_end m b < unat a"
proof -
  have s: "sorted_wrt (clear_of m base) hs" "\<forall>x \<in> set hs. clear_of m base base x"
    using assms(1) by (simp_all add: free_list_def)
  then have "clear_of m base a b \<or> clear_of m base b a"
    using assms(2-4) unfolding sorted_wrt_iff_nth_less in_set_conv_nth by (metis linorder_neqE_nat)
  moreover have "a \<noteq> base" "b \<noteq> base" using s(2) assms(2,3) by (auto simp: clear_of_def)
  ultimately show ?thesis by (simp add: clear_of_def)
qed

lemma free_bytes_remove:
  assumes "free_list m base hs" and "q \<in> set hs"
  shows "free_bytes m (remove1 q hs) = free_bytes m hs - {unat q..<block_end m q}"
proof -
  have d: "distinct hs" using free_list_less(2) [OF assms(1)] by (simp add: strict_sorted_iff)
  have "x \<notin> {unat q..<block_end m q}" if "a \<in> set hs" "a \<noteq> q" "x \<in> {unat a..<block_end m a}" for a x
    using free_list_apart [OF assms(1) that(1) assms(2) that(2)] that(3) by auto
  then show ?thesis using assms(2) unfolding free_bytes_def set_remove1_eq [OF d] by blast
qed

section \<open>Taking a whole block\<close>

lemma unlink_free_list:
  assumes "free_list m base hs" and "q \<in> set hs" and "prev \<in> set (base # hs)" and "h_ptr m prev = q"
  shows "free_list (set_ptr prev (h_ptr m q) m) base (remove1 q hs)" and "prev \<in> set (base # remove1 q hs)"
    and "\<forall>a \<in> set (base # hs). h_size (set_ptr prev (h_ptr m q) m) a = h_size m a"
proof -
  let ?m = "set_ptr prev (h_ptr m q) m"
  note u = header_update [OF free_list_headers_list [OF assms(1)]]
  show sz: "\<forall>a \<in> set (base # hs). h_size ?m a = h_size m a" using u(3) [OF assms(3)] by blast
  have d: "distinct (base # hs)" using free_list_less(2) [OF assms(1)] by (simp only: strict_sorted_iff)
  obtain us vs where L: "base # hs = us @ prev # vs" using assms(3) by (metis in_set_conv_decomp)
  have P: "path m (us @ prev # vs) base" using assms(1) L by (simp add: free_list_def)
  then have "hd (vs @ [base]) = q" using assms(4) by (simp add: path_append)
  moreover have qb: "q \<noteq> base" using d assms(2) by auto
  ultimately obtain ws where vs: "vs = q # ws" by (cases vs) auto
  have du: "distinct (us @ prev # q # ws)" using d unfolding L vs .
  have L': "base # remove1 q hs = us @ prev # ws"
  proof -
    have "remove1 q (base # hs) = us @ prev # ws" unfolding L vs using du by (simp add: remove1_append)
    then show ?thesis using qb by simp
  qed
  then show "prev \<in> set (base # remove1 q hs)" by simp
  have hp: "h_ptr ?m a = (if a = prev then h_ptr m q else h_ptr m a)" if "a \<in> set (base # hs)" for a
    using u(1) [OF assms(3) that] by simp
  have "path ?m (us @ prev # ws) base"
  proof -
    have "path ?m us prev" using P du hp by (subst path_cong [of us ?m m]) (auto simp: path_append L vs)
    moreover have "path ?m ws base" using P du hp by (subst path_cong [of ws ?m m]) (auto simp: path_append L vs)
    moreover have "h_ptr ?m prev = hd (ws @ [base])" using P hp [OF assms(3)] by (simp add: path_append vs)
    ultimately show ?thesis by (simp add: path_append)
  qed
  moreover have "sorted_wrt (clear_of ?m base) (base # remove1 q hs)"
  proof -
    have "sorted_wrt (clear_of m base) (us @ prev # q # ws)" using assms(1) L vs by (simp add: free_list_def)
    then have "sorted_wrt (clear_of m base) (base # remove1 q hs)" unfolding L' by (auto simp: sorted_wrt_append)
    then show ?thesis
    proof (rule sorted_wrt_mono_rel [rotated])
      fix a b assume "a \<in> set (base # remove1 q hs)" "clear_of m base a b"
      moreover from this have "a \<in> set (base # hs)" using set_remove1_subset [of q hs] by auto
      ultimately show "clear_of ?m base a b" using sz by (auto simp: clear_of_def block_end_def)
    qed
  qed
  ultimately show "free_list ?m base (remove1 q hs)"
    using assms(1) sz set_remove1_subset [of q hs] unfolding free_list_def L' [symmetric] by (auto simp: block_end_def)
qed

section \<open>Taking the end of a block\<close>

lemma shrink_free_list:
  assumes "free_list m base hs" and "q \<in> set hs" and "n \<noteq> 0" and "n < h_size m q"
  defines "tail \<equiv> q + 8 * (h_size m q - n)"
  defines "m' \<equiv> set_size tail n (set_size q (h_size m q - n) m)"
  shows "free_list m' base hs" and "block_end m' tail = block_end m q" and "h_size m' tail = n"
    and "free_bytes m' hs = free_bytes m hs - {unat tail..<block_end m q}"
    and "unat q + 8 \<le> unat tail" and "unat tail + 8 \<le> block_end m q"
proof -
  let ?k = "unat (h_size m q) - unat n"
  have f: "h_size m q \<noteq> 0" "block_end m q < 2 ^ 32" using assms(1,2) by (simp_all add: free_list_def)
  have n: "unat n < unat (h_size m q)" "0 < unat n" using assms(3,4) by (simp_all add: word_less_nat_alt unat_gt_0)
  have k: "unat (h_size m q - n) = ?k" using n by (simp add: unat_sub word_le_nat_alt)
  have small: "unat (q + 8 * w) = unat q + 8 * unat w" if "unat q + 8 * unat w < 2 ^ 32" for w
    using that by (simp add: unat_word_ariths)
  have "unat q + 8 * unat (h_size m q - n) < 2 ^ 32" using f(2) n unfolding k block_end_def by linarith
  then have t: "unat tail = unat q + 8 * ?k" unfolding tail_def small k [symmetric] by (rule small)
  then show tq: "unat q + 8 \<le> unat tail" "unat tail + 8 \<le> block_end m q" using n by (simp_all add: block_end_def)
  have te: "unat tail + 8 * unat n = block_end m q" using t n by (simp add: block_end_def)
  have ap: "unat a + 8 \<le> unat tail \<or> unat tail + 8 \<le> unat a" if a: "a \<in> set (base # hs)" for a
  proof -
    consider "a = q" | "a = base" | "a \<in> set hs" "a \<noteq> q" using a by auto
    then show ?thesis
    proof cases
      case 2
      have "unat base + 8 \<le> unat q" using assms(1,2) by (auto simp: free_list_def clear_of_def)
      then show ?thesis using 2 tq by simp
    next
      case 3
      then have "unat a + 8 \<le> block_end m a" using assms(1) block_end_8 [of m a] by (simp add: free_list_def)
      then show ?thesis using free_list_apart [OF assms(1) 3(1) assms(2) 3(2)] tq by auto
    qed (use tq in simp)
  qed
  have H: "headers (insert tail (set (base # hs)))"
    using free_list_headers_list [OF assms(1)] ap tq f(2) unfolding headers_def by (auto simp del: list.set)
  have nt: "tail \<notin> set (base # hs)" using ap by fastforce
  note u = header_update [OF H]
  have v: "h_ptr m' a = h_ptr m a" "h_size m' a = (if a = q then h_size m q - n else h_size m a)" if "a \<in> set (base # hs)" for a
    using that nt assms(2) by (auto simp: m'_def u)
  show sn: "h_size m' tail = n" by (simp add: m'_def u)
  then show "block_end m' tail = block_end m q" using te by (simp add: block_end_def)
  have be: "block_end m' a = (if a = q then unat tail else block_end m a)" if "a \<in> set (base # hs)" for a
    using v(2) [OF that] k t by (simp add: block_end_def)
  have le: "block_end m' a \<le> block_end m a" if "a \<in> set (base # hs)" for a using be [OF that] tq by simp
  have s: "sorted_wrt (clear_of m' base) (base # hs)"
  proof (rule sorted_wrt_mono_rel)
    show "sorted_wrt (clear_of m base) (base # hs)" using assms(1) by (simp add: free_list_def)
    show "clear_of m' base a b" if "a \<in> set (base # hs)" "clear_of m base a b" for a b
      using that(2) le [OF that(1)] by (auto simp: clear_of_def split: if_splits)
  qed
  have pa: "path m' (base # hs) base" using assms(1) v(1) by (subst path_cong [of "base # hs" m' m]) (auto simp: free_list_def)
  have qb: "q \<noteq> base" using assms(1,2) by (auto simp: free_list_def clear_of_def)
  have nz: "h_size m q - n \<noteq> 0" using assms(4) by auto
  have sz: "h_size m' a \<noteq> 0 \<and> block_end m' a < 2 ^ 32" if "a \<in> set hs" for a
  proof -
    have "h_size m a \<noteq> 0" "block_end m a < 2 ^ 32" using assms(1) that by (simp_all add: free_list_def)
    then show ?thesis using v(2) [of a] le [of a] nz that by auto
  qed
  show "free_list m' base hs"
    using s pa sz assms(1) v(2) [of base] qb unfolding free_list_def by auto
  have dis: "x \<notin> {unat tail..<block_end m q}" if "a \<in> set hs" "a \<noteq> q" "x \<in> {unat a..<block_end m a}" for a x
    using free_list_apart [OF assms(1) that(1) assms(2) that(2)] that(3) tq by auto
  have "x \<in> free_bytes m' hs \<longleftrightarrow> x \<in> free_bytes m hs \<and> x \<notin> {unat tail..<block_end m q}" for x
  proof
    assume "x \<in> free_bytes m' hs"
    then obtain a where a: "a \<in> set hs" "unat a \<le> x" "x < block_end m' a" by (auto simp: free_bytes_def)
    show "x \<in> free_bytes m hs \<and> x \<notin> {unat tail..<block_end m q}"
      using a be [of a] dis [of a x] tq assms(2) by (cases "a = q") (auto simp: free_bytes_def)
  next
    assume "x \<in> free_bytes m hs \<and> x \<notin> {unat tail..<block_end m q}"
    then obtain a where a: "a \<in> set hs" "unat a \<le> x" "x < block_end m a" "x \<notin> {unat tail..<block_end m q}"
      by (auto simp: free_bytes_def)
    then have "x < block_end m' a" using be [of a] by (cases "a = q") auto
    then show "x \<in> free_bytes m' hs" using a(1,2) by (auto simp: free_bytes_def)
  qed
  then show "free_bytes m' hs = free_bytes m hs - {unat tail..<block_end m q}" by blast
qed

section \<open>Taking a block\<close>

text \<open>
  The result \<open>r\<close> of an allocation of \<open>n\<close> units when the bytes \<open>F\<close> were free: the block before
  \<open>r\<close> has its size in its header and is taken from the free bytes, and nothing outside them changes but \<^verbatim>\<open>base\<close>.
\<close>

definition allocates :: "umem \<Rightarrow> nat set \<Rightarrow> uint \<Rightarrow> uint \<Rightarrow> umem \<Rightarrow> bool" where
  "allocates s F n r t \<longleftrightarrow>
     u_base t = u_base s \<and> h_size (u_ram t) (r - 8) = n \<and>
     {unat (r - 8)..<block_end (u_ram t) (r - 8)} \<subseteq> F \<and>
     (\<exists>hs. heap_ok t hs \<and> free_bytes (u_ram t) hs = F - {unat (r - 8)..<block_end (u_ram t) (r - 8)}) \<and>
     (\<forall>x. unat x \<notin> F \<longrightarrow> unat x \<notin> {unat (u_base s)..<unat (u_base s) + 8} \<longrightarrow> u_ram t x = u_ram s x)"

lemma heap_ok_subset:
  assumes "heap_ok s hs" and "free_list m (u_base s) hs'" and "f \<in> set (u_base s # hs')"
    and "free_bytes m hs' \<subseteq> free_bytes (u_ram s) hs"
  shows "heap_ok (s\<lparr>u_ram := m, u_freep := f\<rparr>) hs'"
proof -
  have "\<forall>x \<in> free_bytes (u_ram s) hs. x < unat (u_brk s)"
    using assms(1) free_bytes_below [of hs "u_ram s"] by (auto simp: heap_ok_def free_list_def)
  then have "\<forall>a \<in> set hs'. block_end m a \<le> unat (u_brk s)"
    using assms(2,4) free_bytes_below [of hs' m] by (auto simp: free_list_def)
  then show ?thesis using assms by (simp add: heap_ok_def)
qed

lemma header_in_free:
  assumes "free_list m base hs" and "a \<in> set (base # hs)" and "unat x \<notin> free_bytes m hs" and "unat x \<notin> {unat base..<unat base + 8}"
  shows "unat x \<notin> {unat a..<unat a + 8}" and "unat a + 8 \<le> 2 ^ 32"
proof -
  show "unat a + 8 \<le> 2 ^ 32" using free_list_headers_list [OF assms(1)] assms(2) by (simp add: headers_def del: list.set)
  show "unat x \<notin> {unat a..<unat a + 8}"
  proof (cases "a = base")
    case False
    then have "a \<in> set hs" "unat a + 8 \<le> block_end m a" using assms(1,2) block_end_8 [of m a] by (auto simp: free_list_def)
    moreover from this have "unat x \<notin> {unat a..<block_end m a}" using assms(3) by (auto simp: free_bytes_def)
    ultimately show ?thesis by auto
  qed (use assms(4) in simp)
qed

lemma malloc_take_ok:
  assumes "heap_ok s hs" and "q \<in> set hs" and "prev \<in> set (u_base s # hs)" and "h_ptr (u_ram s) prev = q"
    and "n \<noteq> 0" and "n \<le> h_size (u_ram s) q"
  shows "case malloc_take n prev q s of (r, t) \<Rightarrow> allocates s (free_bytes (u_ram s) hs) n r t \<and> u_brk t = u_brk s \<and> r \<noteq> 0"
proof -
  let ?m = "u_ram s"
  let ?b = "u_base s"
  have fl: "free_list ?m ?b hs" using assms(1) by (simp add: heap_ok_def)
  have qin: "q \<in> set (?b # hs)" and qe: "unat q + 8 \<le> block_end ?m q" "block_end ?m q < 2 ^ 32"
    using assms(2) fl block_end_8 [of ?m q] by (auto simp: free_list_def)
  have q8: "q + 8 \<noteq> 0"
  proof -
    have "unat (q + 8) = unat q + 8" using qe by (simp add: unat_word_ariths)
    then show ?thesis by auto
  qed
  have sub: "{unat q..<block_end ?m q} \<subseteq> free_bytes ?m hs" using assms(2) by (auto simp: free_bytes_def)
  show ?thesis
  proof (cases "h_size ?m q = n")
    case True
    let ?m' = "set_ptr prev (h_ptr ?m q) ?m"
    note k = unlink_free_list [OF fl assms(2,3,4)]
    have e: "block_end ?m' a = block_end ?m a" if "a \<in> set (?b # hs)" for a using k(3) that by (auto simp: block_end_def)
    have "free_bytes ?m' (remove1 q hs) = free_bytes ?m (remove1 q hs)"
      unfolding free_bytes_def using e set_remove1_subset [of q hs] by (intro SUP_cong) auto
    then have fb: "free_bytes ?m' (remove1 q hs) = free_bytes ?m hs - {unat q..<block_end ?m q}"
      using free_bytes_remove [OF fl assms(2)] by simp
    have fr: "?m' x = ?m x" if x: "unat x \<notin> free_bytes ?m hs" "unat x \<notin> {unat ?b..<unat ?b + 8}" for x
      using header_in_free [OF fl assms(3) x] by (simp add: set_header_frame(1))
    have "heap_ok (s\<lparr>u_ram := ?m', u_freep := prev\<rparr>) (remove1 q hs)"
      using k(1,2) fb by (intro heap_ok_subset [OF assms(1)]) auto
    then have "allocates s (free_bytes ?m hs) n (q + 8) (s\<lparr>u_ram := ?m', u_freep := prev\<rparr>)"
      using fb sub e [OF qin] k(3) qin True fr unfolding allocates_def by auto
    then show ?thesis using True q8 by (simp add: malloc_take_def)
  next
    case False
    then have lt: "n < h_size ?m q" using assms(6) by simp
    define tail where "tail = q + 8 * (h_size ?m q - n)"
    define m' where "m' = set_size tail n (set_size q (h_size ?m q - n) ?m)"
    note k = shrink_free_list [OF fl assms(2,5) lt, folded tail_def, folded m'_def]
    have t8: "tail + 8 \<noteq> 0"
    proof -
      have "unat (tail + 8) = unat tail + 8" using k(6) qe by (simp add: unat_word_ariths)
      then show ?thesis by auto
    qed
    have fr: "m' x = ?m x" if x: "unat x \<notin> free_bytes ?m hs" "unat x \<notin> {unat ?b..<unat ?b + 8}" for x
    proof -
      have "unat x \<notin> {unat q..<block_end ?m q}" using x(1) sub by blast
      then have "unat x \<notin> {unat tail..<unat tail + 8}" using k(5,6) by auto
      moreover have "unat tail + 8 \<le> 2 ^ 32" using k(6) qe(2) by simp
      ultimately show ?thesis unfolding m'_def using header_in_free [OF fl qin x] by (simp add: set_header_frame(2))
    qed
    have tsub: "{unat tail..<block_end ?m q} \<subseteq> free_bytes ?m hs" using k(5) by (intro order_trans [OF _ sub]) auto
    have "heap_ok (s\<lparr>u_ram := m', u_freep := prev\<rparr>) hs"
      using k(1,4) assms(3) by (intro heap_ok_subset [OF assms(1)]) auto
    then have "allocates s (free_bytes ?m hs) n (tail + 8) (s\<lparr>u_ram := m', u_freep := prev\<rparr>)"
      using k(2-4) tsub fr unfolding allocates_def by auto
    moreover have "h_size (set_size q (h_size ?m q - n) ?m) q = h_size ?m q - n"
      using header_update(4) [OF free_list_headers_list [OF fl] qin qin] by simp
    ultimately show ?thesis using False t8 by (simp add: malloc_take_def Let_def tail_def m'_def)
  qed
qed

section \<open>The search around the list\<close>

text \<open>The nodes in the order in which the search visits them: those behind the starting point, and last the starting point.\<close>

lemma circle:
  assumes "heap_ok s hs"
  obtains xs where "path (u_ram s) (u_freep s # xs @ [u_freep s]) (h_ptr (u_ram s) (u_freep s))"
    and "set (xs @ [u_freep s]) = set (u_base s # hs)" and "u_freep s \<notin> set xs"
proof -
  let ?f = "u_freep s"
  have fl: "free_list (u_ram s) (u_base s) hs" "?f \<in> set (u_base s # hs)" using assms by (simp_all add: heap_ok_def)
  have d: "distinct (u_base s # hs)" using free_list_less(2) [OF fl(1)] by (simp only: strict_sorted_iff)
  obtain A B where L: "u_base s # hs = A @ ?f # B" using fl(2) by (metis in_set_conv_decomp)
  have P: "path (u_ram s) (A @ ?f # B) (u_base s)" using fl(1) L by (simp add: free_list_def)
  have h: "hd (A @ [?f]) = u_base s" using L by (cases A) auto
  have f: "h_ptr (u_ram s) ?f = hd (B @ A @ [?f])" using P h by (cases B) (auto simp: path_append)
  have "path (u_ram s) (?f # B @ A) ?f"
    using P h f by (simp add: path_append)
  then have "path (u_ram s) ((?f # B @ A) @ [?f]) (h_ptr (u_ram s) ?f)"
    unfolding path_append [of _ "?f # B @ A" "[?f]"] by simp
  moreover have "set ((B @ A) @ [?f]) = set (u_base s # hs)" unfolding L by auto
  moreover have "?f \<notin> set (B @ A)" using d unfolding L by auto
  ultimately show ?thesis using that [of "B @ A"] by simp
qed

lemma scan_finds:
  assumes "path (u_ram s) (prev # ys @ [u_freep s]) y" and "u_freep s \<notin> set ys"
    and "\<exists>q \<in> set (ys @ [u_freep s]). n \<le> h_size (u_ram s) q"
  shows "\<exists>pr q. malloc_loop grant n prev (hd (ys @ [u_freep s])) s = Some (malloc_take n pr q s) \<and>
    pr \<in> set (prev # ys @ [u_freep s]) \<and> q \<in> set (ys @ [u_freep s]) \<and> h_ptr (u_ram s) pr = q \<and> n \<le> h_size (u_ram s) q"
  using assms
proof (induction ys arbitrary: prev)
  case Nil
  then show ?case by (subst malloc_loop.simps) auto
next
  case (Cons z ys)
  show ?case
  proof (cases "n \<le> h_size (u_ram s) z")
    case True
    then show ?thesis using Cons.prems by (subst malloc_loop.simps) auto
  next
    case False
    have "malloc_loop grant n prev z s = malloc_loop grant n z (hd (ys @ [u_freep s])) s"
      using False Cons.prems(1,2) by (subst malloc_loop.simps) (auto simp: hd_append)
    then show ?thesis using Cons.IH [of z] Cons.prems False by auto
  qed
qed

lemma scan_fails:
  assumes "path (u_ram s) (prev # ys @ [u_freep s]) y" and "u_freep s \<notin> set ys"
    and "\<forall>q \<in> set (ys @ [u_freep s]). \<not> n \<le> h_size (u_ram s) q"
  shows "malloc_loop grant n prev (hd (ys @ [u_freep s])) s =
    (case morecore grant n s of None \<Rightarrow> None
     | Some (q, t) \<Rightarrow> if q = 0 then Some (0, t) else malloc_loop grant n q (h_ptr (u_ram t) q) t)"
  using assms
proof (induction ys arbitrary: prev)
  case Nil
  then show ?case by (subst malloc_loop.simps) auto
next
  case (Cons z ys)
  have "malloc_loop grant n prev z s = malloc_loop grant n z (hd (ys @ [u_freep s])) s"
    using Cons.prems by (subst malloc_loop.simps) (auto simp: hd_append)
  then show ?case using Cons.IH [of z] Cons.prems by auto
qed

section \<open>Growing the process\<close>

lemma free_list_cong:
  assumes "\<And>a. a \<in> set (base # hs) \<Longrightarrow> h_ptr m' a = h_ptr m a \<and> h_size m' a = h_size m a"
  shows "free_list m' base hs = free_list m base hs" and "free_bytes m' hs = free_bytes m hs"
proof -
  have e: "block_end m' a = block_end m a" if "a \<in> set (base # hs)" for a using assms [OF that] by (simp add: block_end_def)
  have "path m' (base # hs) base = path m (base # hs) base" using assms by (intro path_cong) blast
  moreover have "sorted_wrt (clear_of m' base) (base # hs) = sorted_wrt (clear_of m base) (base # hs)"
    using e by (intro iffI; elim sorted_wrt_mono_rel [rotated]) (auto simp: clear_of_def)
  ultimately show "free_list m' base hs = free_list m base hs"
    unfolding free_list_def using assms e by (auto simp del: path.simps sorted_wrt.simps)
  show "free_bytes m' hs = free_bytes m hs" unfolding free_bytes_def using e by (intro SUP_cong) auto
qed

lemma low_header:
  assumes "\<And>x. unat x < B \<Longrightarrow> m' x = m x" and "unat a + 8 \<le> B" and "B \<le> 2 ^ 32"
  shows "h_ptr m' a = h_ptr m a \<and> h_size m' a = h_size m a"
proof -
  have "m' (a + i) = m (a + i)" if "i < 8" for i :: uint
    using assms that by (intro assms(1)) (simp add: unat_word_ariths word_less_nat_alt)
  from this [of 0] this [of 1] this [of 2] this [of 3] this [of 4] this [of 5] this [of 6] this [of 7]
  show ?thesis by (simp add: h_ptr_def h_size_def load32_def add.assoc)
qed

lemma free_block_around:
  assumes "free_list m base hs" and "{c..<d} \<subseteq> free_bytes m hs" and "c < d"
  obtains a where "a \<in> set hs" and "d - c \<le> 8 * unat (h_size m a)"
proof -
  obtain a where a: "a \<in> set hs" "unat a \<le> c" "c < block_end m a" using assms(2,3) by (force simp: free_bytes_def)
  have "d \<le> block_end m a"
  proof (rule ccontr)
    assume "\<not> d \<le> block_end m a"
    then have "block_end m a \<in> free_bytes m hs" using a(3) assms(2) by auto
    then obtain b where b: "b \<in> set hs" "unat b \<le> block_end m a" "block_end m a < block_end m b" by (auto simp: free_bytes_def)
    then have "a \<noteq> b" by auto
    from free_list_apart [OF assms(1) a(1) b(1) this] b a(2,3) show False by auto
  qed
  then have "d - c \<le> 8 * unat (h_size m a)" using a(2) by (simp add: block_end_def)
  then show ?thesis using that a(1) by blast
qed

lemma morecore_ok:
  fixes n :: uint
  assumes ok: "heap_ok s hs" and base: "u_base s \<noteq> 0"
  defines "nu \<equiv> (if n < 4096 then 4096 else n)"
  assumes g: "grant (u_brk s) (nu * 8)" and sm: "8 * unat nu < 2 ^ 32" and top: "unat (u_brk s) + 8 * unat nu < 2 ^ 32"
  obtains t hs' where "morecore grant n s = Some (u_freep t, t)" and "heap_ok t hs'" and "u_freep t \<noteq> 0" and "u_base t = u_base s"
    and "unat (u_brk t) = unat (u_brk s) + 8 * unat nu"
    and "free_bytes (u_ram t) hs' = free_bytes (u_ram s) hs \<union> {unat (u_brk s)..<unat (u_brk t)}"
    and "\<exists>q \<in> set hs'. n \<le> h_size (u_ram t) q"
    and "\<forall>x. unat x \<notin> free_bytes (u_ram t) hs' \<longrightarrow> unat x \<notin> {unat (u_base s)..<unat (u_base s) + 8} \<longrightarrow> u_ram t x = u_ram s x"
proof -
  let ?p = "u_brk s"
  have nu: "4096 \<le> unat nu" "unat n \<le> unat nu" "unat (nu * 8) = 8 * unat nu" "nu \<noteq> 0"
    using sm by (auto simp: nu_def word_less_nat_alt unat_word_ariths)
  define m1 where "m1 = set_size ?p nu (fill (u_ram s) ?p 0 (nu * 8))"
  define s1 where "s1 = s\<lparr>u_brk := ?p + nu * 8, u_ram := m1\<rparr>"
  have brk: "unat (?p + nu * 8) = unat ?p + 8 * unat nu" using top nu(3) by (simp add: unat_word_ariths)
  have out: "m1 x = u_ram s x" if "unat x < unat ?p \<or> unat ?p + 8 * unat nu \<le> unat x" for x
  proof -
    have "\<not> x - ?p < nu * 8" using that top nu(3)
      by (auto simp: word_less_nat_alt unat_sub_if_size word_size word_le_nat_alt)
    moreover have "unat x \<notin> {unat ?p..<unat ?p + 8}" "unat ?p + 8 \<le> 2 ^ 32" using that nu(1) top by auto
    ultimately show ?thesis unfolding m1_def by (simp add: set_header_frame(2) fill_def)
  qed
  have fl: "free_list (u_ram s) (u_base s) hs" "u_freep s \<in> set (u_base s # hs)" "unat (u_base s) + 8 \<le> unat ?p"
    "\<forall>a \<in> set hs. block_end (u_ram s) a \<le> unat ?p" using ok by (simp_all add: heap_ok_def)
  have hd: "h_ptr m1 a = h_ptr (u_ram s) a \<and> h_size m1 a = h_size (u_ram s) a" if "a \<in> set (u_base s # hs)" for a
  proof (rule low_header [of "unat ?p"])
    show "unat a + 8 \<le> unat ?p" using that fl block_end_8 [of "u_ram s" a] by (fastforce simp: free_list_def)
  qed (use out top in auto)
  note same = free_list_cong [OF hd]
  have sz: "h_size m1 ?p = nu" by (simp add: m1_def h_size_def set_size_def)
  have be: "block_end m1 ?p = unat ?p + 8 * unat nu" by (simp add: block_end_def sz)
  have "\<forall>a \<in> set hs. block_end m1 a \<le> unat ?p" using fl(4) hd by (auto simp: block_end_def)
  then have ok1: "heap_ok s1 hs" using same(1) fl brk by (auto simp: heap_ok_def s1_def)
  have low: "\<forall>x \<in> free_bytes (u_ram s) hs. x < unat ?p"
    using fl(1,4) free_bytes_below [of hs "u_ram s"] by (auto simp: free_list_def)
  have iu: "in_use (u_ram s1) (u_base s1) hs (?p + 8 - 8)"
    using fl(3) low nu(4) be top sz same(2) by (auto simp: in_use_def s1_def)
  have "block_end (u_ram s1) (?p + 8 - 8) \<le> unat (u_brk s1)" using be brk by (simp add: s1_def)
  then obtain t hs' where t: "free (?p + 8) s1 = Some t" "heap_ok t hs'" "u_base t = u_base s1" "u_brk t = u_brk s1"
    "free_bytes (u_ram t) hs' = free_bytes m1 hs \<union> {unat ?p..<block_end m1 ?p}"
    "\<forall>x. unat x \<notin> free_bytes (u_ram t) hs' \<longrightarrow> unat x \<notin> {unat (u_base s1)..<unat (u_base s1) + 8} \<longrightarrow> u_ram t x = u_ram s1 x"
    by (rule free_step [OF ok1 iu]) (simp add: s1_def)
  have fb: "free_bytes (u_ram t) hs' = free_bytes (u_ram s) hs \<union> {unat ?p..<unat ?p + 8 * unat nu}" using t(5) same(2) be by simp
  have tl: "free_list (u_ram t) (u_base s) hs'" "u_freep t \<in> set (u_base s # hs')" using t(2,3) by (simp_all add: heap_ok_def s1_def)
  have "u_freep t \<noteq> 0" using tl base by (auto simp: free_list_def clear_of_def)
  moreover have "?p \<noteq> - 1"
  proof
    assume "?p = - 1"
    moreover have "unat (?p + 1) = unat ?p + 1" using top nu(1) by (simp add: unat_word_ariths)
    ultimately show False by simp
  qed
  then have "morecore grant n s = Some (u_freep t, t)"
    using g t(1) by (simp add: morecore_def sbrk_def nu_def [symmetric] Let_def m1_def s1_def)
  moreover obtain q where "q \<in> set hs'" "8 * unat nu \<le> 8 * unat (h_size (u_ram t) q)"
    using free_block_around [OF tl(1), of "unat ?p" "unat ?p + 8 * unat nu"] fb nu(1) by auto
  then have "\<exists>q \<in> set hs'. n \<le> h_size (u_ram t) q" using nu(2) by (intro bexI [of _ q]) (simp_all add: word_le_nat_alt)
  moreover have "u_ram t x = u_ram s x" if "unat x \<notin> free_bytes (u_ram t) hs'" "unat x \<notin> {unat (u_base s)..<unat (u_base s) + 8}" for x
    using t(6) that out [of x] fb by (auto simp: s1_def)
  ultimately show ?thesis using that [of t hs'] t(2,3,4) brk fb by (simp add: s1_def)
qed

section \<open>Allocation\<close>

lemma search_takes:
  assumes "heap_ok s hs" and "\<exists>q \<in> set hs. n \<le> h_size (u_ram s) q" and "n \<noteq> 0"
  obtains r t where "malloc_loop grant n (u_freep s) (h_ptr (u_ram s) (u_freep s)) s = Some (r, t)"
    and "allocates s (free_bytes (u_ram s) hs) n r t" and "u_brk t = u_brk s" and "r \<noteq> 0"
proof -
  obtain xs where c: "path (u_ram s) (u_freep s # xs @ [u_freep s]) (h_ptr (u_ram s) (u_freep s))"
    "set (xs @ [u_freep s]) = set (u_base s # hs)" "u_freep s \<notin> set xs"
    by (rule circle [OF assms(1)])
  have first: "h_ptr (u_ram s) (u_freep s) = hd (xs @ [u_freep s])" using c(1) by (cases xs) auto
  have "\<exists>q \<in> set (xs @ [u_freep s]). n \<le> h_size (u_ram s) q" using assms(2) unfolding c(2) by auto
  then obtain pr q where q: "malloc_loop grant n (u_freep s) (h_ptr (u_ram s) (u_freep s)) s = Some (malloc_take n pr q s)"
    "pr \<in> set (u_freep s # xs @ [u_freep s])" "q \<in> set (xs @ [u_freep s])" "h_ptr (u_ram s) pr = q" "n \<le> h_size (u_ram s) q"
    using scan_finds [OF c(1,3), of n grant] unfolding first by blast
  have "h_size (u_ram s) (u_base s) = 0" using assms(1) by (simp add: heap_ok_def free_list_def)
  then have "q \<noteq> u_base s" using q(5) assms(3) by auto
  then have "q \<in> set hs" using q(3) c(2) by auto
  moreover have "pr \<in> set (u_base s # hs)" using q(2) unfolding c(2) [symmetric] by auto
  ultimately have "case malloc_take n pr q s of (r, t) \<Rightarrow> allocates s (free_bytes (u_ram s) hs) n r t \<and> u_brk t = u_brk s \<and> r \<noteq> 0"
    using q(4,5) assms(1,3) by (intro malloc_take_ok) auto
  then show ?thesis using that q(1) by (cases "malloc_take n pr q s") auto
qed

lemma allocates_after:
  assumes "allocates t F n r u" and "u_base t = u_base s"
    and "\<forall>x. unat x \<notin> F \<longrightarrow> unat x \<notin> {unat (u_base s)..<unat (u_base s) + 8} \<longrightarrow> u_ram t x = u_ram s x"
  shows "allocates s F n r u"
  using assms unfolding allocates_def by auto

lemma units:
  assumes "unat nbytes \<le> 0x70000000"
  shows "unat ((nbytes + 8 - 1) div 8 + 1 :: uint) = (unat nbytes + 7) div 8 + 1"
proof -
  have "unat (nbytes + 7) = unat nbytes + 7" using assms by (simp add: unat_word_ariths)
  then have d: "unat ((nbytes + 7) div 8) = (unat nbytes + 7) div 8" by (simp add: unat_div_distrib)
  moreover have "(unat nbytes + 7) div 8 < 2 ^ 31" using assms by (simp add: less_mult_imp_div_less)
  moreover have "unat (w + 1) = unat w + 1" if "unat w < 2 ^ 31" for w :: uint using that by (simp add: unat_word_ariths)
  moreover have "nbytes + 8 - 1 = nbytes + 7" by simp
  ultimately show ?thesis by metis
qed

text \<open>
  (C8) \<^verbatim>\<open>malloc\<close> returns, on a free list in order and for requests up to 0x70000000 bytes, provided the
  kernel grants growth only inside the address space. It returns null only when there was no free block large
  enough and the kernel refused, and then nothing has changed. Otherwise the bytes before the result hold a header with
  the number of units, which is enough for the request; the block was free or has just been granted; the free list is in
  order again and has lost exactly the block; and nothing outside the free bytes has changed.
\<close>

theorem malloc_allocates:
  assumes "heap_ok s hs" and "u_base s \<noteq> 0" and "unat nbytes \<le> 0x70000000"
    and "\<And>k. grant (u_brk s) k \<Longrightarrow> unat (u_brk s) + unat k < 2 ^ 32"
  shows "\<exists>r t n. malloc grant nbytes s = Some (r, t) \<and> unat n = (unat nbytes + 7) div 8 + 1 \<and>
    (if r = 0 then t = s \<and> (\<forall>q \<in> set hs. h_size (u_ram s) q < n) \<and> \<not> grant (u_brk s) ((if n < 4096 then 4096 else n) * 8)
     else allocates s (free_bytes (u_ram s) hs \<union> {unat (u_brk s)..<unat (u_brk t)}) n r t)"
proof -
  define n where "n = (nbytes + 8 - 1) div 8 + 1"
  have n: "unat n = (unat nbytes + 7) div 8 + 1" unfolding n_def by (rule units [OF assms(3)])
  then have n0: "n \<noteq> 0" by auto
  have fl: "free_list (u_ram s) (u_base s) hs" "u_freep s \<in> set (u_base s # hs)" using assms(1) by (simp_all add: heap_ok_def)
  then have "u_freep s \<noteq> 0" using assms(2) by (auto simp: free_list_def clear_of_def)
  then have m: "malloc grant nbytes s = malloc_loop grant n (u_freep s) (h_ptr (u_ram s) (u_freep s)) s"
    by (simp add: malloc_def n_def)
  show ?thesis
  proof (cases "\<exists>q \<in> set hs. n \<le> h_size (u_ram s) q")
    case True
    obtain r t where "malloc_loop grant n (u_freep s) (h_ptr (u_ram s) (u_freep s)) s = Some (r, t)"
      "allocates s (free_bytes (u_ram s) hs) n r t" "u_brk t = u_brk s" "r \<noteq> 0"
      by (rule search_takes [OF assms(1) True n0])
    then show ?thesis using n unfolding m by (intro exI [of _ r] exI [of _ t] exI [of _ n]) simp
  next
    case False
    let ?nu = "if n < 4096 then 4096 else n"
    obtain xs where c: "path (u_ram s) (u_freep s # xs @ [u_freep s]) (h_ptr (u_ram s) (u_freep s))"
      "set (xs @ [u_freep s]) = set (u_base s # hs)" "u_freep s \<notin> set xs"
      by (rule circle [OF assms(1)])
    have "h_ptr (u_ram s) (u_freep s) = hd (xs @ [u_freep s])" using c(1) by (cases xs) auto
    moreover have "\<forall>q \<in> set (xs @ [u_freep s]). \<not> n \<le> h_size (u_ram s) q"
      using False fl(1) n0 unfolding c(2) by (auto simp: free_list_def)
    ultimately have loop: "malloc grant nbytes s = (case morecore grant n s of None \<Rightarrow> None
       | Some (q, t) \<Rightarrow> if q = 0 then Some (0, t) else malloc_loop grant n q (h_ptr (u_ram t) q) t)"
      unfolding m using scan_fails [OF c(1,3), of n grant] by simp
    show ?thesis
    proof (cases "grant (u_brk s) (?nu * 8)")
      case True
      have "8 * unat n < 2 ^ 32" using n assms(3) by (simp add: div_le_dividend)
      then have sm: "8 * unat ?nu < 2 ^ 32" by auto
      then have "unat (?nu * 8) = 8 * unat ?nu" by (simp add: unat_word_ariths)
      then have top: "unat (u_brk s) + 8 * unat ?nu < 2 ^ 32" using assms(4) [OF True] by metis
      obtain t hs' where t: "morecore grant n s = Some (u_freep t, t)" "heap_ok t hs'" "u_freep t \<noteq> 0" "u_base t = u_base s"
        "free_bytes (u_ram t) hs' = free_bytes (u_ram s) hs \<union> {unat (u_brk s)..<unat (u_brk t)}"
        "\<exists>q \<in> set hs'. n \<le> h_size (u_ram t) q"
        "\<forall>x. unat x \<notin> free_bytes (u_ram t) hs' \<longrightarrow> unat x \<notin> {unat (u_base s)..<unat (u_base s) + 8} \<longrightarrow> u_ram t x = u_ram s x"
        by (rule morecore_ok [where grant = grant and n = n, OF assms(1,2) True sm top])
      obtain r u where u: "malloc_loop grant n (u_freep t) (h_ptr (u_ram t) (u_freep t)) t = Some (r, u)"
        "allocates t (free_bytes (u_ram t) hs') n r u" "u_brk u = u_brk t" "r \<noteq> 0"
        by (rule search_takes [OF t(2,6) n0])
      have "allocates s (free_bytes (u_ram t) hs') n r u" by (rule allocates_after [OF u(2) t(4,7)])
      then have "allocates s (free_bytes (u_ram s) hs \<union> {unat (u_brk s)..<unat (u_brk u)}) n r u" by (simp add: t(5) u(3))
      moreover have "malloc grant nbytes s = Some (r, u)" using loop t(1,3) u(1) by simp
      ultimately show ?thesis using n u(4) by (intro exI [of _ r] exI [of _ u] exI [of _ n]) simp
    next
      case ng: False
      then have "morecore grant n s = Some (0, s)" by (simp add: morecore_def sbrk_def Let_def)
      then have "malloc grant nbytes s = Some (0, s)" using loop by simp
      then show ?thesis using n ng False by (intro exI [of _ 0] exI [of _ s] exI [of _ n]) (simp add: not_le)
    qed
  qed
qed

theorem malloc_allocates_witness:
  "\<exists>r t n. malloc (\<lambda>_ k. k = 0x8000) 10 a_heap = Some (r, t) \<and> unat n = 3 \<and>
    (if r = 0 then False else allocates a_heap {0x1000..<unat (u_brk t)} n r t)"
proof -
  have v: "h_ptr (u_ram a_heap) 0x100 = 0x100" "h_size (u_ram a_heap) 0x100 = 0" by code_simp+
  have s: "u_base a_heap = 0x100" "u_freep a_heap = 0x100" "u_brk a_heap = 0x1000" by (simp_all add: a_heap_def)
  have "heap_ok a_heap []" by (simp add: heap_ok_def free_list_def s v)
  from malloc_allocates [OF this, of 10 "\<lambda>_ k. k = 0x8000"]
  obtain r t n where r: "malloc (\<lambda>_ k. k = 0x8000) 10 a_heap = Some (r, t)" "unat n = 3"
    "if r = 0 then t = a_heap \<and> (\<forall>q \<in> set []. h_size (u_ram a_heap) q < n) \<and> (if n < 4096 then 4096 else n) * 8 \<noteq> 0x8000
     else allocates a_heap (free_bytes (u_ram a_heap) [] \<union> {unat (u_brk a_heap)..<unat (u_brk t)}) n r t"
    by (auto simp: s)
  have "n < 4096" using r(2) by (simp add: word_less_nat_alt)
  then have "r \<noteq> 0" using r(3) by (auto split: if_splits)
  then have "allocates a_heap {0x1000..<unat (u_brk t)} n r t" using r(3) by (simp add: s free_bytes_def)
  then show ?thesis using r(1,2) \<open>r \<noteq> 0\<close> by auto
qed

end
