(* ===== verification/Spec2Isabelle.thy ===== *)
theory Spec2Isabelle
  imports Commands Arguments Transaction Kernel_Main Bootmain Mkfs Malloc
begin

text \<open>
  Verification of an xv6 kernel with process swapping and shared memory, and of its user library,
  shell and text utilities.

  \<^bold>\<open>The program.\<close> The kernel runs on one or more processors that share spin locks
  (\<^verbatim>\<open>spinlock.c\<close>). Physical pages come from a free list (\<^verbatim>\<open>kalloc.c\<close>), page
  tables are built from them (\<^verbatim>\<open>vm.c\<close>), processes own page tables and a kernel stack
  (\<^verbatim>\<open>proc.c\<close>), blocks of the disk go through a cache (\<^verbatim>\<open>ide.c\<close>,
  \<^verbatim>\<open>bio.c\<close>) and a write-ahead log (\<^verbatim>\<open>log.c\<close>) to the file system
  (\<^verbatim>\<open>fs.c\<close>), on which open files and pipes (\<^verbatim>\<open>file.c\<close>,
  \<^verbatim>\<open>pipe.c\<close>) and the system calls (\<^verbatim>\<open>syscall.c\<close>,
  \<^verbatim>\<open>sysfile.c\<close>, \<^verbatim>\<open>exec.c\<close>) are built. What is new in this kernel is that
  a sleeping process can be written to a file and brought back by an inswapper process
  (\<^verbatim>\<open>proc.c\<close>), and that processes can share memory segments (second half of
  \<^verbatim>\<open>kalloc.c\<close>).

  \<^bold>\<open>How the code is modelled.\<close> The kernel's state is one record that grows theory by theory:
  \<open>machine\<close> (locks, processors), \<open>kmem\<close> (memory as a function from 32-bit addresses to
  bytes, the free list), \<open>vm\<close>, \<open>ptable\<close>, \<open>bcache\<close>, \<open>logst\<close>,
  \<open>icache\<close>, \<open>ftable\<close>, \<open>shm\<close>, \<open>kproc\<close>, \<open>console\<close>, \<open>platform\<close>. An operation is a function on every
  extension of the record it needs, so that a component never sees the state of the ones above it. Page
  tables, free pages, trap frames and kernel stacks are bytes in memory, at the addresses and offsets of
  the code; processes, buffers, inodes and files are entries of the tables of the code. Machine integers
  are 32, 16 and 8 bit words. A call that can fail returns \<open>kerror + 'a\<close>: \<open>Panic\<close> is
  the kernel's panic, \<open>Spins\<close> a lock no one on this processor will free, \<open>Sleeps\<close> a wait
  whose caller is not resumed in the model, \<open>Fault\<close> undefined behaviour such as a null pointer or
  an index outside an array. A switch to the scheduler ends a definition, and what the code does after it is
  a definition of its own (\<open>sched_resume\<close>, \<open>yield_resume\<close>, \<open>sleep_resume\<close>).

  \<^bold>\<open>The theories.\<close>
  \<^item> \<open>Prelude\<close>: the error type and its bind, facts on words.
  \<^item> \<open>Mmu\<close> (\<^verbatim>\<open>mmu.h\<close>, \<^verbatim>\<open>memlayout.h\<close>, \<^verbatim>\<open>param.h\<close>):
    page arithmetic and segment descriptors; descriptors decode to what they were made from.
  \<^item> \<open>Memory\<close>, \<open>Cstring\<close> (\<^verbatim>\<open>string.c\<close>, \<^verbatim>\<open>x86.h\<close>):
    the memory and string functions meet their byte-wise specifications, overlap and word-wise fills included.
  \<^item> \<open>Spinlock\<close> (\<^verbatim>\<open>spinlock.c\<close>): mutual exclusion of interleaved processors over
    the exchange instruction, nesting of interrupt disabling, and that \<open>acquire\<close> refines the steps.
  \<^item> \<open>Kalloc\<close> (first half of \<^verbatim>\<open>kalloc.c\<close>): the free list threaded through memory
    refines a stack of pages; \<open>freerange\<close> returns and adds exactly the whole pages.
  \<^item> \<open>Vm\<close>, \<open>Address_Space\<close> (\<^verbatim>\<open>vm.c\<close>): the operations, and what the
    hardware's two-level walk sees; \<open>mappages\<close> maps exactly its range and keeps tables, frames and
    free pages apart.
  \<^item> \<open>Ptable\<close>, \<open>Wakeup\<close>, \<open>Process\<close> (\<^verbatim>\<open>proc.c\<close>): the process
    table and scheduler; what \<open>wakeup\<close> does to every process; creation, fork, exit, sleep and swapping.
  \<^item> \<open>Bio\<close> (\<^verbatim>\<open>ide.c\<close>, \<^verbatim>\<open>memide.c\<close>, \<^verbatim>\<open>bio.c\<close>),
    \<open>Log\<close> (\<^verbatim>\<open>log.c\<close>), \<open>Fs\<close> (\<^verbatim>\<open>fs.c\<close>): the disk, its cache, the
    log and the file system. \<open>Buffer_Cache\<close>: the doubly linked list of buffers is a list in order
    of last use, a miss recycles the oldest, and the interrupt-driven driver does what the in-memory driver
    does. \<open>Block_Store\<close>, \<open>Log_Crash\<close>, \<open>Transaction\<close>: the cache as a store of
    blocks, what a disk with a log recovers to, and that a transaction of up to eight blocks is made as a
    whole or not at all wherever the machine stops. \<open>Disk_Layout\<close>: inodes and directory entries survive being written to a
    block and read back, and paths are walked element by element.
  \<^item> \<open>File\<close>, \<open>Pipes\<close> (\<^verbatim>\<open>file.c\<close>, \<^verbatim>\<open>pipe.c\<close>): open files;
    a pipe is a first-in first-out queue for its readers and writers although its counters wrap.
  \<^item> \<open>Sysfile\<close>, \<open>Exec\<close> (\<^verbatim>\<open>syscall.c\<close>, \<^verbatim>\<open>sysfile.c\<close>,
    \<^verbatim>\<open>exec.c\<close>, \<^verbatim>\<open>elf.h\<close>): arguments are read through the page table of the
    caller; the file system calls; loading a program.
  \<^item> \<open>Console\<close> (\<^verbatim>\<open>console.c\<close>, \<^verbatim>\<open>uart.c\<close>), \<open>Kbd\<close> (\<^verbatim>\<open>kbd.c\<close>,
    \<^verbatim>\<open>kbd.h\<close>), \<open>Console_Line\<close>: formatted output, the screen, the keyboard; the input ring is a
    list of finished bytes and a line being edited, and reading takes finished lines in order; the keyboard
    driver keeps its values in range.
  \<^item> \<open>Sysproc\<close> (\<^verbatim>\<open>sysproc.c\<close>, \<^verbatim>\<open>syscall.c\<close>, \<^verbatim>\<open>trap.c\<close>): the
    process and memory calls, the dispatcher, which calls through the table exactly for the numbers in it, and the
    trap handler. A call that gives up the processor ends its definition, and the part after it has its own.
  \<^item> \<open>Platform\<close> (\<^verbatim>\<open>mp.c\<close>, \<^verbatim>\<open>lapic.c\<close>, \<^verbatim>\<open>ioapic.c\<close>,
    \<^verbatim>\<open>picirq.c\<close>, \<^verbatim>\<open>timer.c\<close>), \<open>Kernel_Main\<close> (\<^verbatim>\<open>main.c\<close>): interrupt hardware
    as a history of accesses; the scan of the processor table counts and numbers the processors of a well-formed
    table; the start of the kernel, which composes the initialisation of every component above, and of the
    other processors. \<open>Bootmain\<close> (\<^verbatim>\<open>bootmain.c\<close>): the boot loader puts the bytes of the kernel file at
    their addresses.
  \<^item> \<open>Mkfs\<close> (\<^verbatim>\<open>mkfs.c\<close>): the program that builds the file system image; on a finished image the
    kernel's bitmap test finds free exactly the blocks that no file uses and that were not given out.
  \<^item> \<open>Shm\<close> (second half of \<^verbatim>\<open>kalloc.c\<close>): shared memory with the dimensions of its arrays.
  \<^item> \<open>Arguments\<close>: checked arguments lie inside the process, strings end before it does; swap file
    names are distinct up to a limit; the keys \<open>shmget\<close> cannot handle.
  \<^item> \<open>Userlib\<close> (\<^verbatim>\<open>ulib.c\<close>, \<^verbatim>\<open>printf.c\<close>), \<open>Textutils\<close>
    (\<^verbatim>\<open>grep.c\<close>, \<^verbatim>\<open>wc.c\<close>, \<^verbatim>\<open>cat.c\<close>, \<^verbatim>\<open>ls.c\<close>),
    \<open>Sh\<close> (\<^verbatim>\<open>sh.c\<close>): numbers are printed and read back, string comparison is an order,
    grep's matcher decides the language of its pattern, the shell's parser returns on every line.

  \<^item> \<open>Commands\<close>: the main functions of the text utilities, of the shell, of \<^verbatim>\<open>init.c\<close> and of the small
    commands, as what they print or as trees of the system calls they make.
  \<^item> \<open>Umalloc\<close>, \<open>Malloc\<close> (\<^verbatim>\<open>umalloc.c\<close>): the allocator of the user programs on bytes of memory;
    \<open>free\<close> and \<open>malloc\<close> return, keep the circular list ordered and fully joined, and move exactly the
    bytes of one block between use and the free bytes.

  \<^bold>\<open>Bounds and fuel.\<close> Loops over addresses take a counter computed from their bounds
  (\<open>page_fuel\<close> for the loops of \<^verbatim>\<open>vm.c\<close>, one more than the number of pages); the scans of
  the buffer list one more than the number of buffers; the wait of \<open>iderw\<close> one round for each queued
  request. \<open>parse_fuel\<close> of the shell is proved to be enough. Only \<open>swapIn\<close> takes a number of
  rounds from its caller, because the code repeats its scan while processes are left.
  Loops that poll a device take their bound as an argument. The scan of the processor table has an eighth
  of its length in bytes, enough because every entry that is skipped has eight bytes or more.
  The searches of the allocator are partial functions, which are proved to return.
  The loop of \<open>consoleintr\<close> has one round for each byte that waits in the device.

  \<^bold>\<open>Parameters.\<close> The device switch table is an argument of the operations that call through it.
  The addresses of linker symbols and of functions whose address is stored are fields of the state or of
  the record \<open>linker\<close>. What devices answer to reads is a function of the history of accesses of which nothing is
  assumed but, for the boot loader, that the disk is ready.

  \<^bold>\<open>Not modelled.\<close> Assembly (\<^verbatim>\<open>bootasm.S\<close>, \<^verbatim>\<open>entry.S\<close>,
  \<^verbatim>\<open>entryother.S\<close>, \<^verbatim>\<open>swtch.S\<close>, \<^verbatim>\<open>trapasm.S\<close>), whose effects are where
  definitions end and continue, and the programs that test the system (\<^verbatim>\<open>usertests.c\<close>,
  \<^verbatim>\<open>forktest.c\<close>, \<^verbatim>\<open>stressfs.c\<close>, \<^verbatim>\<open>sharetest.c\<close>,
  \<^verbatim>\<open>simpletest.c\<close>), which promise nothing of their own. The trap handler leaves out the
  acknowledgement of interrupts. Messages the kernel prints while it works are
  left out of most operations that print them.
\<close>

end
